(* ===== verification/Prelude.thy ===== *)
theory Prelude
  imports Main "HOL-Library.Word" "HOL-Library.Monad_Syntax"
begin

text \<open>
  Shared vocabulary of the development: the machine integers of the C++ code, the two
  shapes of failure (an exception that carries a value is the left side of a sum, an
  exception or undefined behaviour that carries none is \<open>None\<close>), and the facts about
  words, masks and lists that several components use.
\<close>

unbundle bit_operations_syntax

section \<open>Types\<close>

text \<open>The fixed-width unsigned integers of \<^verbatim>\<open><cstdint>\<close>; arithmetic wraps.\<close>

type_synonym u8 = "8 word"
type_synonym u16 = "16 word"
type_synonym u32 = "32 word"
type_synonym u64 = "64 word"

section \<open>Failure as a value\<close>

text \<open>Sequencing of computations that may throw: the first exception wins.\<close>

fun and_then :: "'e + 'a \<Rightarrow> ('a \<Rightarrow> 'e + 'b) \<Rightarrow> 'e + 'b" where
  "and_then (Inl e) f = Inl e"
| "and_then (Inr x) f = f x"

lemma and_then_eq_Inr_iff:
  "and_then m f = Inr y \<longleftrightarrow> (\<exists>x. m = Inr x \<and> f x = Inr y)"
  by (cases m) auto

lemma and_then_eq_Inl_iff:
  "and_then m f = Inl e \<longleftrightarrow> m = Inl e \<or> (\<exists>x. m = Inr x \<and> f x = Inl e)"
  by (cases m) auto

lemmas and_then_eq_iffs = and_then_eq_Inr_iff and_then_eq_Inl_iff

lemma and_then_cong [fundef_cong]:
  "m = m' \<Longrightarrow> (\<And>x. m' = Inr x \<Longrightarrow> f x = f' x) \<Longrightarrow> and_then m f = and_then m' f'"
  by (cases m') auto

section \<open>Bits\<close>

text \<open>
  \<open>mask_simps\<close> turns a conjunction with the masks that occur in the code into
  \<open>take_bit\<close>.
\<close>

named_theorems mask_simps

lemma and_mask1 [mask_simps]: "(w :: 'a::len word) AND 1 = take_bit 1 w"
  by (simp add: take_bit_eq_mask mask_eq_exp_minus_1)

lemma and_mask2 [mask_simps]: "(w :: 'a::len word) AND 3 = take_bit 2 w"
  by (simp add: take_bit_eq_mask mask_eq_exp_minus_1)

lemma and_mask3 [mask_simps]: "(w :: 'a::len word) AND 7 = take_bit 3 w"
  by (simp add: take_bit_eq_mask mask_eq_exp_minus_1)

lemma and_mask4 [mask_simps]: "(w :: 'a::len word) AND 15 = take_bit 4 w"
  by (simp add: take_bit_eq_mask mask_eq_exp_minus_1)

lemma and_mask5 [mask_simps]: "(w :: 'a::len word) AND 31 = take_bit 5 w"
  by (simp add: take_bit_eq_mask mask_eq_exp_minus_1)

lemma and_mask6 [mask_simps]: "(w :: 'a::len word) AND 63 = take_bit 6 w"
  by (simp add: take_bit_eq_mask mask_eq_exp_minus_1)

lemma and_mask7 [mask_simps]: "(w :: 'a::len word) AND 127 = take_bit 7 w"
  by (simp add: take_bit_eq_mask mask_eq_exp_minus_1)

lemma and_mask8 [mask_simps]: "(w :: 'a::len word) AND 255 = take_bit 8 w"
  by (simp add: take_bit_eq_mask mask_eq_exp_minus_1)

lemma and_mask10 [mask_simps]: "(w :: 'a::len word) AND 1023 = take_bit 10 w"
  by (simp add: take_bit_eq_mask mask_eq_exp_minus_1)

lemma and_mask12 [mask_simps]: "(w :: 'a::len word) AND 4095 = take_bit 12 w"
  by (simp add: take_bit_eq_mask mask_eq_exp_minus_1)

lemma and_mask13 [mask_simps]: "(w :: 'a::len word) AND 8191 = take_bit 13 w"
  by (simp add: take_bit_eq_mask mask_eq_exp_minus_1)

lemma and_mask16 [mask_simps]: "(w :: 'a::len word) AND 65535 = take_bit 16 w"
  by (simp add: take_bit_eq_mask mask_eq_exp_minus_1)

lemma and_mask21 [mask_simps]: "(w :: 'a::len word) AND 2097151 = take_bit 21 w"
  by (simp add: take_bit_eq_mask mask_eq_exp_minus_1)

text \<open>
  An equation of 32-bit words is an equation of 32 bits, each of which \<open>bit_simps\<close> and
  the collection \<open>bit_bounds\<close> (no bit beyond the width) evaluate.
\<close>

named_theorems bit_bounds

lemma bit_u8_bound [bit_bounds]: "8 \<le> n \<Longrightarrow> \<not> bit (w :: u8) n"
  using bit_imp_le_length [of w n] by auto

lemma bit_u16_bound [bit_bounds]: "16 \<le> n \<Longrightarrow> \<not> bit (w :: u16) n"
  using bit_imp_le_length [of w n] by auto

lemma bit_u32_bound [bit_bounds]: "32 \<le> n \<Longrightarrow> \<not> bit (w :: u32) n"
  using bit_imp_le_length [of w n] by auto

lemma bit_u64_bound [bit_bounds]: "64 \<le> n \<Longrightarrow> \<not> bit (w :: u64) n"
  using bit_imp_le_length [of w n] by auto

lemma less_32_cases:
  fixes n :: nat
  assumes "list_all P [0, 1, 2, 3, 4, 5, 6, 7, 8, 9, 10, 11, 12, 13, 14, 15, 16, 17, 18, 19, 20,
    21, 22, 23, 24, 25, 26, 27, 28, 29, 30, 31]" and "n < 32"
  shows "P n"
proof -
  have "n \<in> {0, 1, 2, 3, 4, 5, 6, 7, 8, 9, 10, 11, 12, 13, 14, 15, 16, 17, 18, 19, 20,
    21, 22, 23, 24, 25, 26, 27, 28, 29, 30, 31}"
    using assms(2) by (simp, presburger)
  then show ?thesis using assms(1) by auto
qed

lemma word32_eqI:
  fixes v w :: u32
  assumes "list_all (\<lambda>n. bit v n = bit w n) [0, 1, 2, 3, 4, 5, 6, 7, 8, 9, 10, 11, 12, 13, 14, 15,
    16, 17, 18, 19, 20, 21, 22, 23, 24, 25, 26, 27, 28, 29, 30, 31]"
  shows "v = w"
  by (rule bit_word_eqI) (rule less_32_cases [OF assms], simp)

lemma bit_times_2: "bit (x * 2 :: u32) n \<longleftrightarrow> 0 < n \<and> n < 32 \<and> bit x (n - 1)"
  by (cases n) (auto simp: bit_double_iff mult.commute [of x] bit_bounds)

lemmas bit_eval = bit_simps bit_bounds even_drop_bit_iff_not_bit bit_times_2

text \<open>Words without a common bit: their disjunction is their sum.\<close>

lemma or_eq_add:
  fixes x y :: "'a::len word"
  assumes "x AND y = 0"
  shows "x OR y = x + y"
proof -
  have "\<not> bit x n \<or> \<not> bit y n" for n
    using assms by (metis bit_0_eq bit_and_iff bot_apply bot_bool_def)
  then show ?thesis by (simp add: disjunctive_add)
qed

text \<open>Sign extension of the low bits, as a subtraction.\<close>

lemma signed_take_bit_word_eq:
  "signed_take_bit m v = (take_bit m v :: 'a::len word) - (if bit v m then 2 ^ m else 0)"
proof (cases "bit v m")
  case True
  then have "signed_take_bit m v = take_bit m v OR NOT (mask m)"
    by (simp add: signed_take_bit_def)
  also have "\<dots> = take_bit m v + NOT (mask m)"
    by (rule or_eq_add) (auto intro!: bit_word_eqI simp: bit_simps)
  finally show ?thesis using True by (simp add: minus_exp_eq_not_mask [symmetric])
qed (simp add: signed_take_bit_def)

section \<open>Signed values\<close>

text \<open>
  The sign bit of a 32-bit word as the code tests it, and the signed value \<open>sint\<close> in
  terms of the unsigned value.
\<close>

lemma sign_bit_test: "v AND 0x80000000 \<noteq> 0 \<longleftrightarrow> bit (v :: u32) 31"
proof -
  have "v AND 0x80000000 = (if bit v 31 then 0x80000000 else 0)"
    by (rule word32_eqI) (simp add: bit_eval)
  then show ?thesis by simp
qed

lemma uint_lt_2_32: "uint (v :: u32) < 4294967296"
  using uint_lt2p [of v] by simp

lemma sint_eq_uint: "sint (v :: u32) = uint v - (if bit v 31 then 4294967296 else 0)"
proof -
  have "sint v = signed_take_bit 31 (uint v)"
    by (simp add: sint_uint)
  also have "\<dots> = take_bit 32 (uint v) - (if bit v 31 then 4294967296 else 0)"
    using signed_take_bit_eq_take_bit_minus [of 31 "uint v"]
    by (simp add: bit_uint_iff)
  also have "take_bit 32 (uint v) = uint v"
    using uint_lt_2_32 [of v] by (simp add: take_bit_int_eq_self)
  finally show ?thesis .
qed

lemma sint_bounds: "- 2147483648 \<le> sint (v :: u32)" "sint v < 2147483648"
  using sint_greater_eq [of v] sint_less [of v] by simp_all

lemma sign_bit_iff: "bit (v :: u32) 31 \<longleftrightarrow> 2147483648 \<le> uint v"
  using sint_eq_uint [of v] sint_bounds [of v] by (auto split: if_splits)

lemma sint_neg_iff: "sint (v :: u32) < 0 \<longleftrightarrow> bit v 31"
  using uint_lt_2_32 [of v] by (simp add: sint_eq_uint)

text \<open>Flipping the sign bit turns the signed order into the unsigned order.\<close>

lemma uint_flip_sign: "uint (v XOR 0x80000000) = sint (v :: u32) + 2147483648"
proof (cases "bit v 31")
  case True
  let ?x = "v XOR 0x80000000"
  have "v = ?x OR 0x80000000" by (rule word32_eqI) (simp add: bit_eval True)
  also have "\<dots> = ?x + 0x80000000"
    by (rule or_eq_add, rule word32_eqI) (simp add: bit_eval True)
  finally have "?x = v - 0x80000000" by (simp add: algebra_simps)
  then show ?thesis using True sign_bit_iff [of v]
    by (simp add: sint_eq_uint uint_sub_if')
next
  case False
  let ?x = "v XOR 0x80000000"
  have "?x = v OR 0x80000000" by (rule word32_eqI) (simp add: bit_eval False)
  also have "\<dots> = v + 0x80000000"
    by (rule or_eq_add, rule word32_eqI) (simp add: bit_eval False)
  finally show ?thesis using False sign_bit_iff [of v]
    by (simp add: sint_eq_uint uint_add_lem [THEN iffD1])
qed

text \<open>The high half of a 64-bit product.\<close>

lemma high_word_of_int:
  "ucast (drop_bit 32 (word_of_int p :: u64)) = (word_of_int (p div 2 ^ 32) :: u32)"
proof -
  have "p div 2 ^ 32 = drop_bit 32 p" by (simp only: drop_bit_eq_div)
  then show ?thesis by (simp only:) (rule bit_word_eqI, auto simp: bit_simps)
qed

text \<open>Alignment: the low two bits of an address are clear exactly for multiples of four.\<close>

lemma and_3_eq_0_iff: "(a :: 'a::len word) AND 3 = 0 \<longleftrightarrow> unat a mod 4 = 0"
proof -
  have "unat (take_bit 2 a) = take_bit 2 (unat a)"
    by (rule unsigned_take_bit_eq)
  also have "\<dots> = unat a mod 4"
    by (simp add: take_bit_eq_mod)
  finally have "unat (take_bit 2 a) = unat a mod 4" .
  then show ?thesis
    by (simp add: mask_simps unat_eq_0 [symmetric])
qed

section \<open>Address ranges\<close>

text \<open>
  The distance of \<open>c\<close> from \<open>a\<close>, computed with wrap-around, is below \<open>w\<close> exactly
  when \<open>c\<close> lies in the \<open>w\<close> bytes from \<open>a\<close>, if these do not wrap.
\<close>

lemma unat_lt_2_32: "unat (a :: u32) < 4294967296"
  using unsigned_less [of a] by simp

lemma unat_diff_less_iff:
  fixes a c :: u32
  assumes "unat a + w \<le> 2 ^ 32"
  shows "unat (c - a) < w \<longleftrightarrow> unat a \<le> unat c \<and> unat c < unat a + w"
proof (cases "a \<le> c")
  case True
  then show ?thesis by (auto simp: unat_sub word_le_nat_alt)
next
  case False
  then have lt: "unat c < unat a" by (simp add: word_le_nat_alt)
  with unat_lt_2_32 [of a] have "unat (c - a) = 2 ^ 32 + unat c - unat a"
    by (simp add: unat_sub_if')
  then show ?thesis using assms lt by auto
qed

lemma unat_diff_eq:
  fixes a c :: u32
  assumes "unat a \<le> unat c"
  shows "unat (c - a) = unat c - unat a"
  using assms by (simp add: unat_sub word_le_nat_alt)

text \<open>A naturally aligned access never wraps around the end of the address space.\<close>

lemma aligned_no_wrap:
  assumes "unat (a :: u32) mod w = 0" and "w dvd 2 ^ 32"
  shows "unat a + w \<le> 2 ^ 32"
proof -
  from assms obtain k j where k: "unat a = w * k" and j: "2 ^ 32 = w * j"
    by (metis dvd_def mod_0_imp_dvd)
  have "unat a < 2 ^ 32" using unat_lt_2_32 [of a] by simp
  then have "w * k < w * j" using k j by simp
  then have "w * (k + 1) \<le> w * j" by (intro mult_le_mono2) simp
  then show ?thesis using k j by simp
qed

lemma unat_add_4_mod_4: "unat ((a :: u32) + 4) mod 4 = unat a mod 4"
  by (simp add: unat_word_ariths mod_mod_cancel)

section \<open>64-bit counters\<close>

lemma unat_lt_2_64: "unat (a :: u64) < 18446744073709551616"
  using unsigned_less [of a] by simp

lemma unat_max_64: "unat (- 1 :: u64) = 2 ^ 64 - 1"
  by (simp add: unsigned_minus_1_eq_mask mask_eq_exp_minus_1)

lemma unat_mult_exact: "unat (a :: u64) * unat b < 2 ^ 64 \<Longrightarrow> unat (a * b) = unat a * unat b"
  by (simp add: unat_word_ariths)

text \<open>A counter below a limit of its own width does not wrap when it is incremented.\<close>

lemma unat_increment_le: "unat (x + 1 :: u64) \<le> unat x + 1"
  by (simp add: unat_word_ariths mod_less_eq_dividend le_trans [OF mod_less_eq_dividend])

lemma unat_increment: "(a :: u64) < b \<Longrightarrow> unat (a + 1) = unat a + 1"
  using unat_lt_2_64 [of b] by (simp add: unat_word_ariths word_less_nat_alt)

section \<open>Powers of two\<close>

text \<open>
  The test \<open>v & (v - 1)\<close> of the code: what passes it is a power of two, and then
  \<open>v - 1\<close> is the mask of the residue modulo \<open>v\<close>.
\<close>

lemma bit_between:
  assumes "(2 :: nat) ^ j \<le> x" and "x < 2 ^ Suc j"
  shows "bit x j"
proof -
  have "x div 2 ^ j = 1"
    using assms by (intro div_nat_eqI) simp_all
  then show ?thesis by (simp add: bit_iff_odd)
qed

lemma power_of_two_wordE:
  assumes "(v :: 'a::len word) \<noteq> 0" and "v AND (v - 1) = 0"
  obtains k where "k < LENGTH('a)" and "v = 2 ^ k" and "unat v = 2 ^ k"
proof -
  have pos: "0 < unat v" using assms(1) by (simp add: unat_gt_0)
  obtain j where j: "2 ^ j \<le> unat v" "unat v < 2 ^ Suc j"
    using ex_power_ivl1 [of 2 "unat v"] pos by auto
  have "unat v < 2 ^ LENGTH('a)" by (rule unsigned_less)
  with j(1) have "(2 :: nat) ^ j < 2 ^ LENGTH('a)" by (rule order.strict_trans1)
  then have len: "j < LENGTH('a)" by simp
  have "unat v = 2 ^ j"
  proof (rule ccontr)
    assume "unat v \<noteq> 2 ^ j"
    then have "2 ^ j \<le> unat v - 1" "unat v - 1 < 2 ^ Suc j" using j by auto
    then have "bit (unat v - 1) j" by (rule bit_between)
    moreover have "unat (v - 1) = unat v - 1"
      using pos by (simp add: unat_minus_one assms(1))
    ultimately have "bit (v - 1) j" by (metis bit_unsigned_iff)
    moreover have "bit v j" using bit_between [OF j] by (simp add: bit_unsigned_iff)
    ultimately have "bit (v AND (v - 1)) j" by (simp add: bit_and_iff)
    then show False by (simp add: assms(2))
  qed
  moreover from this have "v = 2 ^ j" by (metis of_nat_unat ucast_id of_nat_numeral of_nat_power)
  ultimately show thesis using that len by blast
qed

lemma power_of_two_word_iff:
  "v \<noteq> 0 \<and> v AND (v - 1) = 0 \<longleftrightarrow> (\<exists>k<LENGTH('a). unat (v :: 'a::len word) = 2 ^ k)"
proof
  assume "v \<noteq> 0 \<and> v AND (v - 1) = 0"
  then show "\<exists>k<LENGTH('a). unat v = 2 ^ k" by (auto elim!: power_of_two_wordE)
next
  assume "\<exists>k<LENGTH('a). unat v = 2 ^ k"
  then obtain k where k: "unat v = 2 ^ k" by blast
  have "v = of_nat (unat v)" by simp
  then have v: "v = 2 ^ k" unfolding k by simp
  have "v AND (v - 1) = 0"
    unfolding v mask_eq_exp_minus_1 [symmetric] by (rule bit_word_eqI) (auto simp: bit_simps)
  then show "v \<noteq> 0 \<and> v AND (v - 1) = 0" using k by auto
qed

lemma and_minus_one_eq_mod:
  assumes "(v :: 'a::len word) \<noteq> 0" and "v AND (v - 1) = 0"
  shows "x AND (v - 1) = x mod v"
  using assms
proof (rule power_of_two_wordE)
  fix k assume k: "v = 2 ^ k"
  show ?thesis
    unfolding k by (simp only: mask_eq_exp_minus_1 [symmetric] take_bit_eq_mask [symmetric] take_bit_eq_mod)
qed

end
