(* ===== verification/Cpu_State.thy ===== *)
theory Cpu_State
  imports Prelude
begin

text \<open>
  The architectural register state: \<^verbatim>\<open>class CpuState\<close> of
  \<^verbatim>\<open>include/rvemu/cpu_state.hpp\<close> and \<^verbatim>\<open>src/cpu_state.cpp\<close>.
  Register indices are \<open>std::size_t\<close> and modelled by \<open>nat\<close>; an index out of range
  throws \<open>std::out_of_range\<close>, which is \<open>None\<close> here.
\<close>

section \<open>State and operations\<close>

definition kRegisterCount :: nat where
  "kRegisterCount = 32"

definition kZeroRegister :: nat where
  "kZeroRegister = 0"

record cpu_state =
  registers :: "u32 list"
  program_counter :: u32

definition initial_cpu_state :: cpu_state where
  "initial_cpu_state = \<lparr>registers = replicate kRegisterCount 0, program_counter = 0\<rparr>"

definition validate_register_index :: "nat \<Rightarrow> unit option" where
  "validate_register_index index = (if index \<ge> kRegisterCount then None else Some ())"

definition read_register :: "cpu_state \<Rightarrow> nat \<Rightarrow> u32 option" where
  "read_register s index = do {
     validate_register_index index;
     if index = kZeroRegister then Some 0 else Some (registers s ! index)
   }"

definition write_register :: "cpu_state \<Rightarrow> nat \<Rightarrow> u32 \<Rightarrow> cpu_state option" where
  "write_register s index value = do {
     validate_register_index index;
     if index \<noteq> kZeroRegister
     then Some (s\<lparr>registers := (registers s)[index := value]\<rparr>)
     else Some s
   }"

definition set_program_counter :: "u32 \<Rightarrow> cpu_state \<Rightarrow> cpu_state" where
  "set_program_counter value s = s\<lparr>program_counter := value\<rparr>"

definition advance_program_counter :: "u32 \<Rightarrow> cpu_state \<Rightarrow> cpu_state" where
  "advance_program_counter byte_count s =
     s\<lparr>program_counter := program_counter s + byte_count\<rparr>"

definition reset_cpu :: "cpu_state \<Rightarrow> cpu_state" where
  "reset_cpu s =
     s\<lparr>registers := replicate (length (registers s)) 0, program_counter := 0\<rparr>"

section \<open>Invariant\<close>

text \<open>
  The register file is an array of 32 words, and nothing ever stores into its first
  element, so it stays zero.
\<close>

definition wf_cpu :: "cpu_state \<Rightarrow> bool" where
  "wf_cpu s \<longleftrightarrow> length (registers s) = kRegisterCount \<and> registers s ! 0 = 0"

lemma wf_cpu_initial [simp]: "wf_cpu initial_cpu_state"
  by (simp add: wf_cpu_def initial_cpu_state_def kRegisterCount_def)

lemma wf_cpu_write_register:
  "wf_cpu s \<Longrightarrow> write_register s i v = Some s' \<Longrightarrow> wf_cpu s'"
  by (auto simp: wf_cpu_def write_register_def validate_register_index_def kZeroRegister_def
      nth_list_update split: if_splits bind_splits)

lemma wf_cpu_set_program_counter [simp]: "wf_cpu (set_program_counter v s) = wf_cpu s"
  by (simp add: wf_cpu_def set_program_counter_def)

lemma wf_cpu_advance_program_counter [simp]: "wf_cpu (advance_program_counter v s) = wf_cpu s"
  by (simp add: wf_cpu_def advance_program_counter_def)

section \<open>The total view of an in-range access\<close>

text \<open>
  \<open>reg\<close> is the register file as the architecture sees it and \<open>set_reg\<close> its update.
  For an index below 32 the throwing accessors of the code are these two functions.
\<close>

definition reg :: "cpu_state \<Rightarrow> nat \<Rightarrow> u32" where
  "reg s i = (if i = 0 then 0 else registers s ! i)"

definition set_reg :: "nat \<Rightarrow> u32 \<Rightarrow> cpu_state \<Rightarrow> cpu_state" where
  "set_reg i v s = (if i = 0 then s else s\<lparr>registers := (registers s)[i := v]\<rparr>)"

lemma read_register_in_range [simp]: "i < 32 \<Longrightarrow> read_register s i = Some (reg s i)"
  by (simp add: read_register_def validate_register_index_def reg_def kRegisterCount_def
      kZeroRegister_def)

lemma write_register_in_range [simp]:
  "i < 32 \<Longrightarrow> write_register s i v = Some (set_reg i v s)"
  by (simp add: write_register_def validate_register_index_def set_reg_def kRegisterCount_def
      kZeroRegister_def)

lemma read_register_eq_None_iff: "read_register s i = None \<longleftrightarrow> 32 \<le> i"
  by (auto simp: read_register_def validate_register_index_def kRegisterCount_def)

lemma write_register_eq_None_iff: "write_register s i v = None \<longleftrightarrow> 32 \<le> i"
  by (auto simp: write_register_def validate_register_index_def kRegisterCount_def)

lemma program_counter_set_reg [simp]: "program_counter (set_reg i v s) = program_counter s"
  by (simp add: set_reg_def)

lemma reg_0 [simp]: "reg s 0 = 0"
  by (simp add: reg_def)

lemma set_reg_0 [simp]: "set_reg 0 v s = s"
  by (simp add: set_reg_def)

lemma reg_set_reg:
  assumes "wf_cpu s" and "i < 32" and "j < 32"
  shows "reg (set_reg i v s) j = (if j = i \<and> i \<noteq> 0 then v else reg s j)"
  using assms by (auto simp: reg_def set_reg_def wf_cpu_def kRegisterCount_def nth_list_update)

lemma reg_set_program_counter [simp]: "reg (set_program_counter v s) i = reg s i"
  by (simp add: reg_def set_program_counter_def)

lemma program_counter_set_program_counter [simp]:
  "program_counter (set_program_counter v s) = v"
  by (simp add: set_program_counter_def)

lemma wf_cpu_set_reg: "wf_cpu s \<Longrightarrow> wf_cpu (set_reg i v s)"
  by (auto simp: wf_cpu_def set_reg_def)

text \<open>Two well-formed states are equal when they agree on the program counter and registers.\<close>

lemma cpu_state_eqI:
  assumes "wf_cpu s" and "wf_cpu t" and "program_counter s = program_counter t"
    and "\<And>i. i < 32 \<Longrightarrow> reg s i = reg t i"
  shows "s = t"
proof -
  have "registers s ! i = registers t ! i" if "i < 32" for i
    using assms that by (cases "i = 0") (force simp: wf_cpu_def reg_def)+
  then have "registers s = registers t"
    using assms(1,2) by (intro nth_equalityI) (auto simp: wf_cpu_def kRegisterCount_def)
  with assms(3) show ?thesis by (cases s; cases t) simp
qed

lemma wf_cpu_reset: "wf_cpu s \<Longrightarrow> wf_cpu (reset_cpu s)"
  by (auto simp: wf_cpu_def reset_cpu_def kRegisterCount_def)

lemma reset_cpu_initial: "wf_cpu s \<Longrightarrow> reset_cpu s = initial_cpu_state"
  by (auto simp: wf_cpu_def reset_cpu_def initial_cpu_state_def)

end
