(* ===== verification/Byte_Store.thy ===== *)
theory Byte_Store
  imports Prelude
begin

text \<open>
  The interface between guest memory and the code that fills it byte by byte, the
  program loader: a checked store of one byte and the contents as
  a partial map. The client is the loop that stores one byte per offset.
\<close>

section \<open>The loop\<close>

text \<open>
  \<open>write_range put byte a offset n m\<close>: for \<open>n\<close> offsets from \<open>offset\<close> on, store the byte of
  that offset at \<open>a + offset\<close>. \<open>None\<close> if a byte does not exist or a store throws.
\<close>

fun write_range ::
  "('m \<Rightarrow> u32 \<Rightarrow> u8 \<Rightarrow> 'm option) \<Rightarrow> (nat \<Rightarrow> u8 option) \<Rightarrow> u32 \<Rightarrow> nat \<Rightarrow> nat \<Rightarrow> 'm \<Rightarrow> 'm option"
  where
  "write_range put byte a offset 0 m = Some m"
| "write_range put byte a offset (Suc n) m = do {
     b \<leftarrow> byte offset;
     m' \<leftarrow> put m (a + of_nat offset) b;
     write_range put byte a (offset + 1) n m'
   }"

lemma write_range_cong:
  assumes "\<And>i. offset \<le> i \<Longrightarrow> i < offset + n \<Longrightarrow> f i = g i"
  shows "write_range put f a offset n m = write_range put g a offset n m"
  using assms
proof (induction n arbitrary: offset m)
  case (Suc n)
  have "f offset = g offset" using Suc.prems [of offset] by simp
  moreover have "write_range put f a (offset + 1) n m' = write_range put g a (offset + 1) n m'" for m'
    by (rule Suc.IH) (use Suc.prems in simp)
  ultimately show ?case by (simp split: Option.bind_split)
qed simp

lemma write_range_append:
  "Option.bind (write_range put f a offset n m) (write_range put f a (offset + n) k) =
     write_range put f a offset (n + k) m"
proof (induction n arbitrary: offset m)
  case (Suc n)
  note IH = Suc.IH [of "Suc offset", simplified, symmetric]
  show ?case by (simp add: IH split: Option.bind_split)
qed simp

section \<open>The contract\<close>

locale byte_store =
  fixes put :: "'m \<Rightarrow> u32 \<Rightarrow> u8 \<Rightarrow> 'm option"
    and get :: "'m \<Rightarrow> u32 \<Rightarrow> u8 option"
  assumes put_mapped: "get m a \<noteq> None \<Longrightarrow> \<exists>m'. put m a b = Some m'"
    and get_put: "put m a b = Some m' \<Longrightarrow> get m' c = (if c = a then Some b else get m c)"
begin

lemma put_domain: "put m a b = Some m' \<Longrightarrow> get m a \<noteq> None \<Longrightarrow> get m' c = None \<longleftrightarrow> get m c = None"
  by (auto simp: get_put)

lemma write_range_succeeds:
  assumes "\<And>i. i < n \<Longrightarrow> byte (offset + i) \<noteq> None \<and> get m (a + of_nat (offset + i)) \<noteq> None"
  shows "\<exists>m'. write_range put byte a offset n m = Some m'"
  using assms
proof (induction n arbitrary: offset m)
  case (Suc n)
  have first: "byte offset \<noteq> None" "get m (a + of_nat offset) \<noteq> None"
    using Suc.prems [of 0] by simp_all
  then obtain b m' where b: "byte offset = Some b" and m': "put m (a + of_nat offset) b = Some m'"
    using put_mapped by blast
  have "\<exists>m''. write_range put byte a (offset + 1) n m' = Some m''"
  proof (rule Suc.IH)
    fix i assume "i < n"
    then show "byte (offset + 1 + i) \<noteq> None \<and> get m' (a + of_nat (offset + 1 + i)) \<noteq> None"
      using Suc.prems [of "i + 1"] by (simp add: put_domain [OF m' first(2)] add.assoc)
  qed
  with b m' show ?case by simp
qed simp

lemma get_write_range:
  assumes "write_range put byte a offset n m = Some m'" and "n \<le> 2 ^ 32"
  shows "get m' c =
    (if unat (c - (a + of_nat offset)) < n then byte (offset + unat (c - (a + of_nat offset)))
     else get m c)"
  using assms
proof (induction n arbitrary: offset m)
  case (Suc n)
  from Suc.prems(1) obtain b m1 where b: "byte offset = Some b"
    and m1: "put m (a + of_nat offset) b = Some m1"
    and rest: "write_range put byte a (offset + 1) n m1 = Some m'"
    by (auto split: bind_splits)
  have eq: "c - (a + of_nat (offset + 1)) = c - (a + of_nat offset) - 1"
    by (simp add: algebra_simps)
  note IH = Suc.IH [OF rest, unfolded eq]
  show ?case
  proof (cases "c = a + of_nat offset")
    case True
    have "unat (- 1 :: u32) = 2 ^ 32 - 1"
      by (simp add: unsigned_minus_1_eq_mask mask_eq_exp_minus_1)
    with True IH Suc.prems(2) b get_put [OF m1] show ?thesis by simp
  next
    case False
    then obtain k where k: "unat (c - (a + of_nat offset)) = Suc k"
      by (metis right_minus_eq unat_eq_0 not0_implies_Suc)
    moreover from False have "unat (c - (a + of_nat offset) - 1) = k"
      using k unat_minus_one [of "c - (a + of_nat offset)"] by simp
    ultimately show ?thesis using IH Suc.prems(2) False get_put [OF m1] by simp
  qed
qed simp

end

end
