(* ===== verification/Memory.thy ===== *)
theory Memory
  imports Byte_Store
begin

text \<open>
  Guest memory: \<^verbatim>\<open>class Memory\<close> of \<^verbatim>\<open>include/rvemu/memory.hpp\<close> and
  \<^verbatim>\<open>src/memory.cpp\<close>. A region of bytes mapped at a 32-bit base address. The two
  exception classes that an access throws are the constructors of \<open>memory_error\<close>.
  Sizes and offsets (\<open>std::size_t\<close>, \<open>std::uint64_t\<close>) are natural numbers: every
  value the code computes with them is an address, a size of the region or a difference
  of two that has been checked not to be negative.
\<close>

section \<open>Data\<close>

datatype memory_operation = Read | Write

datatype memory_error =
    MemoryOutOfBoundsError (err_address: u32) (err_width: nat) (err_operation: memory_operation)
  | MemoryMisalignmentError (err_address: u32) (err_width: nat) (err_operation: memory_operation)

record memory =
  base_address :: u32
  bytes :: "u8 list"

definition kAddressSpaceSize :: nat where
  "kAddressSpaceSize = unat (- 1 :: u32) + 1"

text \<open>\<open>None\<close> is the \<open>std::invalid_argument\<close> of a region that does not fit.\<close>

definition validated_region_size :: "u32 \<Rightarrow> nat \<Rightarrow> nat option" where
  "validated_region_size base size_bytes =
     (let available_address_space = kAddressSpaceSize - unat base
      in if size_bytes > available_address_space then None else Some size_bytes)"

definition make_memory :: "u32 \<Rightarrow> nat \<Rightarrow> memory option" where
  "make_memory base size_bytes = do {
     size \<leftarrow> validated_region_size base size_bytes;
     Some \<lparr>base_address = base, bytes = replicate size 0\<rparr>
   }"

definition end_address_exclusive :: "memory \<Rightarrow> nat" where
  "end_address_exclusive m = unat (base_address m) + length (bytes m)"

definition size_bytes :: "memory \<Rightarrow> nat" where
  "size_bytes m = length (bytes m)"

section \<open>Checks\<close>

definition checked_offset ::
  "memory \<Rightarrow> u32 \<Rightarrow> nat \<Rightarrow> memory_operation \<Rightarrow> memory_error + nat" where
  "checked_offset m address width operation =
     (if unat address < unat (base_address m)
      then Inl (MemoryOutOfBoundsError address width operation)
      else let offset = unat address - unat (base_address m)
        in if offset > length (bytes m) \<or> width > length (bytes m) - offset
           then Inl (MemoryOutOfBoundsError address width operation)
           else Inr offset)"

definition check_alignment ::
  "u32 \<Rightarrow> nat \<Rightarrow> memory_operation \<Rightarrow> memory_error + unit" where
  "check_alignment address width operation =
     (if unat address mod width \<noteq> 0
      then Inl (MemoryMisalignmentError address width operation)
      else Inr ())"

section \<open>Reads\<close>

definition read8 :: "memory \<Rightarrow> u32 \<Rightarrow> memory_error + u8" where
  "read8 m address =
     and_then (checked_offset m address 1 Read) (\<lambda>offset. Inr (bytes m ! offset))"

definition read16 :: "memory \<Rightarrow> u32 \<Rightarrow> memory_error + u16" where
  "read16 m address =
     and_then (check_alignment address 2 Read) (\<lambda>_.
     and_then (checked_offset m address 2 Read) (\<lambda>offset.
       Inr (ucast (bytes m ! offset) OR push_bit 8 (ucast (bytes m ! (offset + 1))))))"

definition read32 :: "memory \<Rightarrow> u32 \<Rightarrow> memory_error + u32" where
  "read32 m address =
     and_then (check_alignment address 4 Read) (\<lambda>_.
     and_then (checked_offset m address 4 Read) (\<lambda>offset.
       Inr (ucast (bytes m ! offset)
         OR push_bit 8 (ucast (bytes m ! (offset + 1)))
         OR push_bit 16 (ucast (bytes m ! (offset + 2)))
         OR push_bit 24 (ucast (bytes m ! (offset + 3))))))"

definition read_span :: "memory \<Rightarrow> u32 \<Rightarrow> nat \<Rightarrow> memory_error + u8 list" where
  "read_span m address width =
     and_then (checked_offset m address width Read) (\<lambda>offset.
       Inr (take width (drop offset (bytes m))))"

section \<open>Writes\<close>

definition write8 :: "memory \<Rightarrow> u32 \<Rightarrow> u8 \<Rightarrow> memory_error + memory" where
  "write8 m address value =
     and_then (checked_offset m address 1 Write) (\<lambda>offset.
       Inr (m\<lparr>bytes := (bytes m)[offset := value]\<rparr>))"

definition write16 :: "memory \<Rightarrow> u32 \<Rightarrow> u16 \<Rightarrow> memory_error + memory" where
  "write16 m address value =
     and_then (check_alignment address 2 Write) (\<lambda>_.
     and_then (checked_offset m address 2 Write) (\<lambda>offset.
       Inr (m\<lparr>bytes := (bytes m)
         [offset := ucast (value AND 0xFF),
          offset + 1 := ucast (drop_bit 8 value AND 0xFF)]\<rparr>)))"

definition write32 :: "memory \<Rightarrow> u32 \<Rightarrow> u32 \<Rightarrow> memory_error + memory" where
  "write32 m address value =
     and_then (check_alignment address 4 Write) (\<lambda>_.
     and_then (checked_offset m address 4 Write) (\<lambda>offset.
       Inr (m\<lparr>bytes := (bytes m)
         [offset := ucast (value AND 0xFF),
          offset + 1 := ucast (drop_bit 8 value AND 0xFF),
          offset + 2 := ucast (drop_bit 16 value AND 0xFF),
          offset + 3 := ucast (drop_bit 24 value AND 0xFF)]\<rparr>)))"

definition clear :: "memory \<Rightarrow> memory" where
  "clear m = m\<lparr>bytes := replicate (length (bytes m)) 0\<rparr>"

section \<open>Specification: a partial map from addresses to bytes\<close>

text \<open>
  \<open>cell m\<close> is what a region promises: which addresses are mapped and the byte at each.
  \<open>mapped m a w\<close> says that the \<open>w\<close> bytes from \<open>a\<close> lie in the region. A region
  made by the constructor ends at or before \<open>2 ^ 32\<close>.
\<close>

definition cell :: "memory \<Rightarrow> u32 \<Rightarrow> u8 option" where
  "cell m a =
     (if unat (base_address m) \<le> unat a \<and> unat a < end_address_exclusive m
      then Some (bytes m ! (unat a - unat (base_address m))) else None)"

definition mapped :: "memory \<Rightarrow> u32 \<Rightarrow> nat \<Rightarrow> bool" where
  "mapped m a w \<longleftrightarrow> unat (base_address m) \<le> unat a \<and> unat a + w \<le> end_address_exclusive m"

definition wf_memory :: "memory \<Rightarrow> bool" where
  "wf_memory m \<longleftrightarrow> end_address_exclusive m \<le> 2 ^ 32"

text \<open>Byte \<open>i\<close> of a value, least significant first.\<close>

definition byte_of :: "nat \<Rightarrow> 'a::len word \<Rightarrow> u8" where
  "byte_of i v = ucast (drop_bit (8 * i) v)"

text \<open>The base address and the size never change.\<close>

definition same_region :: "memory \<Rightarrow> memory \<Rightarrow> bool" where
  "same_region m m' \<longleftrightarrow>
     base_address m' = base_address m \<and> length (bytes m') = length (bytes m)"

lemma same_region_refl [simp]: "same_region m m"
  by (simp add: same_region_def)

lemma same_region_trans [trans]: "same_region m m' \<Longrightarrow> same_region m' m'' \<Longrightarrow> same_region m m''"
  by (simp add: same_region_def)

lemma same_region_mapped: "same_region m m' \<Longrightarrow> mapped m' a w = mapped m a w"
  by (simp add: same_region_def mapped_def end_address_exclusive_def)

lemma same_region_wf: "same_region m m' \<Longrightarrow> wf_memory m' = wf_memory m"
  by (simp add: same_region_def wf_memory_def end_address_exclusive_def)

lemma kAddressSpaceSize_eq: "kAddressSpaceSize = 2 ^ 32"
  by (simp add: kAddressSpaceSize_def unsigned_minus_1_eq_mask mask_eq_exp_minus_1)

lemma make_memory_Some:
  assumes "make_memory base n = Some m"
  shows "wf_memory m" and "base_address m = base" and "bytes m = replicate n 0"
  using assms unat_lt_2_32 [of base]
  by (auto simp: make_memory_def validated_region_size_def kAddressSpaceSize_eq wf_memory_def
      end_address_exclusive_def split: bind_splits if_splits)

lemma make_memory_eq_None_iff: "make_memory base n = None \<longleftrightarrow> 2 ^ 32 < unat base + n"
  using unat_lt_2_32 [of base]
  by (auto simp: make_memory_def validated_region_size_def kAddressSpaceSize_eq)

section \<open>The checks decide the specification's domain\<close>

lemma checked_offset_eq:
  "checked_offset m a w oper =
     (if mapped m a w then Inr (unat a - unat (base_address m))
      else Inl (MemoryOutOfBoundsError a w oper))"
  by (auto simp: checked_offset_def mapped_def end_address_exclusive_def Let_def)

lemma check_alignment_eq:
  "check_alignment a w oper =
     (if unat a mod w = 0 then Inr () else Inl (MemoryMisalignmentError a w oper))"
  by (simp add: check_alignment_def)

lemma cell_eq_None_iff: "cell m a = None \<longleftrightarrow> \<not> mapped m a 1"
  by (auto simp: cell_def mapped_def)

lemma cell_nth:
  assumes "mapped m a w" and "unat a + w \<le> 2 ^ 32" and "i < w"
  shows "cell m (a + of_nat i) = Some (bytes m ! (unat a - unat (base_address m) + i))"
proof -
  have "unat (a + of_nat i) = unat a + i"
    using assms(2,3) by (subst unat_add_lem [THEN iffD1]) (simp_all add: unat_of_nat)
  with assms(1,3) show ?thesis
    by (simp add: cell_def mapped_def)
qed

section \<open>Reads compute what the map holds\<close>

theorem read8_eq:
  "read8 m a = (case cell m a of
     None \<Rightarrow> Inl (MemoryOutOfBoundsError a 1 Read) | Some b \<Rightarrow> Inr b)"
  by (auto simp: read8_def checked_offset_eq cell_def mapped_def)

lemma read16_eq:
  "read16 m a =
     (if unat a mod 2 \<noteq> 0 then Inl (MemoryMisalignmentError a 2 Read)
      else if \<not> mapped m a 2 then Inl (MemoryOutOfBoundsError a 2 Read)
      else Inr (ucast (the (cell m a)) OR push_bit 8 (ucast (the (cell m (a + 1))))))"
  using cell_nth [of m a 2 0] cell_nth [of m a 2 1] aligned_no_wrap [of a 2]
  by (auto simp: read16_def checked_offset_eq check_alignment_eq)

lemma read32_eq:
  "read32 m a =
     (if unat a mod 4 \<noteq> 0 then Inl (MemoryMisalignmentError a 4 Read)
      else if \<not> mapped m a 4 then Inl (MemoryOutOfBoundsError a 4 Read)
      else Inr (ucast (the (cell m a)) OR push_bit 8 (ucast (the (cell m (a + 1))))
        OR push_bit 16 (ucast (the (cell m (a + 2))))
        OR push_bit 24 (ucast (the (cell m (a + 3))))))"
  using cell_nth [of m a 4 0] cell_nth [of m a 4 1] cell_nth [of m a 4 2] cell_nth [of m a 4 3]
    aligned_no_wrap [of a 4]
  by (auto simp: read32_def checked_offset_eq check_alignment_eq)

lemma read_span_eq:
  "read_span m a w =
     (if mapped m a w then Inr (take w (drop (unat a - unat (base_address m)) (bytes m)))
      else Inl (MemoryOutOfBoundsError a w Read))"
  by (simp add: read_span_def checked_offset_eq)

section \<open>Writes update exactly the addressed cells\<close>

lemma cell_update:
  assumes "length bs = length (bytes m)"
  shows "cell (m\<lparr>bytes := bs\<rparr>) c =
    (if mapped m c 1 then Some (bs ! (unat c - unat (base_address m))) else None)"
  using assms by (auto simp: cell_def mapped_def end_address_exclusive_def)

lemma byte_of_low: "ucast (v AND 255) = byte_of 0 v"
  by (rule bit_word_eqI) (auto simp: byte_of_def bit_simps mask_simps)

lemma byte_of_drop:
  "byte_of 0 (drop_bit 8 v) = byte_of 1 v"
  "byte_of 0 (drop_bit 16 v) = byte_of 2 v"
  "byte_of 0 (drop_bit 24 v) = byte_of 3 v"
  by (simp_all add: byte_of_def)

lemma write8_eq_Inr_iff:
  "write8 m a v = Inr m' \<longleftrightarrow>
     mapped m a 1 \<and> m' = m\<lparr>bytes := (bytes m)[unat a - unat (base_address m) := v]\<rparr>"
  by (auto simp: write8_def checked_offset_eq)

lemma write8_same_region: "write8 m a v = Inr m' \<Longrightarrow> same_region m m'"
  by (auto simp: write8_eq_Inr_iff same_region_def)

lemma write16_same_region: "write16 m a v = Inr m' \<Longrightarrow> same_region m m'"
  by (auto simp: write16_def same_region_def and_then_eq_iffs)

lemma write32_same_region: "write32 m a v = Inr m' \<Longrightarrow> same_region m m'"
  by (auto simp: write32_def same_region_def and_then_eq_iffs)

lemma cell_write8:
  assumes "write8 m a v = Inr m'"
  shows "cell m' c = (if c = a then Some v else cell m c)"
proof -
  from assms have mp: "mapped m a 1"
    and m': "m' = m\<lparr>bytes := (bytes m)[unat a - unat (base_address m) := v]\<rparr>"
    by (auto simp: write8_eq_Inr_iff)
  have "unat c \<noteq> unat a" if "c \<noteq> a"
    using that by (metis unsigned_word_eqI)
  then show ?thesis using mp
    by (auto simp: m' cell_update cell_def mapped_def nth_list_update end_address_exclusive_def
        diff_less_mono)
qed

text \<open>
  A chain of updates at consecutive offsets, seen through \<open>cell\<close>: position \<open>k\<close> of the
  chain is the address \<open>k\<close> beyond the first.
\<close>

lemma cell_update_chain:
  assumes "mapped m a w" and "unat a + w \<le> 2 ^ 32" and "length bs = length (bytes m)"
    and "\<And>k. k < w \<Longrightarrow> bs ! (unat a - unat (base_address m) + k) = f k"
    and "\<And>j. j < length (bytes m) \<Longrightarrow>
      j < unat a - unat (base_address m) \<or> unat a - unat (base_address m) + w \<le> j \<Longrightarrow>
      bs ! j = bytes m ! j"
  shows "cell (m\<lparr>bytes := bs\<rparr>) c = (if unat (c - a) < w then Some (f (unat (c - a))) else cell m c)"
proof (cases "unat (c - a) < w")
  case True
  then have "unat a \<le> unat c" and "unat c < unat a + w"
    using unat_diff_less_iff [OF assms(2), of c] by auto
  with assms(1) assms(4) [of "unat c - unat a"] show ?thesis
    by (auto simp: cell_update [OF assms(3)] mapped_def unat_diff_eq)
next
  case False
  then have "unat c < unat a \<or> unat a + w \<le> unat c"
    using unat_diff_less_iff [OF assms(2), of c] by auto
  then have "bs ! (unat c - unat (base_address m)) = bytes m ! (unat c - unat (base_address m))"
    if "mapped m c 1"
    using that assms(1)
    by (intro assms(5)) (auto simp: mapped_def end_address_exclusive_def)
  with False show ?thesis
    using assms(3)
    by (simp add: cell_update [OF assms(3)] cell_def mapped_def Suc_le_eq
        end_address_exclusive_def)
qed

lemma less_2_cases: "k < (2::nat) \<Longrightarrow> k = 0 \<or> k = 1"
  by auto

lemma less_4_cases: "k < (4::nat) \<Longrightarrow> k = 0 \<or> k = 1 \<or> k = 2 \<or> k = 3"
  by auto

lemma cell_write16:
  assumes "write16 m a v = Inr m'"
  shows "cell m' c = (if unat (c - a) < 2 then Some (byte_of (unat (c - a)) v) else cell m c)"
proof -
  let ?o = "unat a - unat (base_address m)"
  from assms have al: "unat a mod 2 = 0" and mp: "mapped m a 2"
    by (auto simp: write16_def checked_offset_eq check_alignment_eq split: if_splits)
  with assms have m': "m' = m\<lparr>bytes := (bytes m)[?o := byte_of 0 v, ?o + 1 := byte_of 1 v]\<rparr>"
    by (simp add: write16_def checked_offset_eq check_alignment_eq byte_of_low byte_of_drop
        add.commute)
  have "unat a + 2 \<le> 2 ^ 32" using al by (rule aligned_no_wrap) simp
  then show ?thesis
    unfolding m' using mp
    by (intro cell_update_chain [where f = "\<lambda>k. byte_of k v"])
      (auto simp: mapped_def end_address_exclusive_def nth_list_update dest!: less_2_cases)
qed

lemma cell_write32:
  assumes "write32 m a v = Inr m'"
  shows "cell m' c = (if unat (c - a) < 4 then Some (byte_of (unat (c - a)) v) else cell m c)"
proof -
  let ?o = "unat a - unat (base_address m)"
  from assms have al: "unat a mod 4 = 0" and mp: "mapped m a 4"
    by (auto simp: write32_def checked_offset_eq check_alignment_eq split: if_splits)
  with assms have m': "m' = m\<lparr>bytes := (bytes m)[?o := byte_of 0 v, ?o + 1 := byte_of 1 v,
      ?o + 2 := byte_of 2 v, ?o + 3 := byte_of 3 v]\<rparr>"
    by (simp add: write32_def checked_offset_eq check_alignment_eq byte_of_low byte_of_drop
        add.commute)
  have "unat a + 4 \<le> 2 ^ 32" using al by (rule aligned_no_wrap) simp
  then show ?thesis
    unfolding m' using mp
    by (intro cell_update_chain [where f = "\<lambda>k. byte_of k v"])
      (auto simp: mapped_def end_address_exclusive_def nth_list_update dest!: less_4_cases)
qed

section \<open>Reading back what was written\<close>

lemma write16_eq_Inr_iff:
  "(\<exists>m'. write16 m a v = Inr m') \<longleftrightarrow> unat a mod 2 = 0 \<and> mapped m a 2"
  by (auto simp: write16_def checked_offset_eq check_alignment_eq)

lemma write32_eq_Inr_iff:
  "(\<exists>m'. write32 m a v = Inr m') \<longleftrightarrow> unat a mod 4 = 0 \<and> mapped m a 4"
  by (auto simp: write32_def checked_offset_eq check_alignment_eq)

lemma write16_error:
  "write16 m a v = Inl e \<Longrightarrow>
     e = (if unat a mod 2 \<noteq> 0 then MemoryMisalignmentError a 2 Write
          else MemoryOutOfBoundsError a 2 Write)"
  by (auto simp: write16_def checked_offset_eq check_alignment_eq split: if_splits)

lemma write32_error:
  "write32 m a v = Inl e \<Longrightarrow>
     e = (if unat a mod 4 \<noteq> 0 then MemoryMisalignmentError a 4 Write
          else MemoryOutOfBoundsError a 4 Write)"
  by (auto simp: write32_def checked_offset_eq check_alignment_eq split: if_splits)

lemma write8_error: "write8 m a v = Inl e \<Longrightarrow> e = MemoryOutOfBoundsError a 1 Write"
  by (auto simp: write8_def checked_offset_eq split: if_splits)

lemma join_bytes16:
  fixes v :: u16
  shows "ucast (byte_of 0 v) OR push_bit 8 (ucast (byte_of 1 v)) = v"
  by (rule bit_word_eqI) (auto simp: byte_of_def bit_simps)

lemma join_bytes32:
  fixes v :: u32
  shows "ucast (byte_of 0 v) OR push_bit 8 (ucast (byte_of 1 v))
     OR push_bit 16 (ucast (byte_of 2 v)) OR push_bit 24 (ucast (byte_of 3 v)) = v"
  by (rule word32_eqI) (simp add: byte_of_def bit_simps bit_bounds)

theorem read8_write8: "write8 m a v = Inr m' \<Longrightarrow> read8 m' a = Inr v"
  by (simp add: read8_eq cell_write8)

theorem read16_write16:
  assumes "write16 m a v = Inr m'"
  shows "read16 m' a = Inr v"
proof -
  have "unat a mod 2 = 0 \<and> mapped m' a 2"
    using assms write16_eq_Inr_iff [of m a v] same_region_mapped [OF write16_same_region]
    by blast
  moreover have "the (cell m' a) = byte_of 0 v" "the (cell m' (a + 1)) = byte_of 1 v"
    by (simp_all add: cell_write16 [OF assms])
  ultimately show ?thesis by (simp add: read16_eq join_bytes16 [simplified])
qed

theorem read32_write32:
  assumes "write32 m a v = Inr m'"
  shows "read32 m' a = Inr v"
proof -
  have "unat a mod 4 = 0 \<and> mapped m' a 4"
    using assms write32_eq_Inr_iff [of m a v] same_region_mapped [OF write32_same_region]
    by blast
  moreover have "the (cell m' a) = byte_of 0 v" "the (cell m' (a + 1)) = byte_of 1 v"
    "the (cell m' (a + 2)) = byte_of 2 v" "the (cell m' (a + 3)) = byte_of 3 v"
    by (simp_all add: cell_write32 [OF assms])
  ultimately show ?thesis by (simp add: read32_eq join_bytes32 [simplified])
qed

text \<open>The value of a word read is the little-endian number of its four bytes.\<close>

lemma unat_join_bytes32:
  fixes b0 b1 b2 b3 :: u8
  shows "unat (ucast b0 OR push_bit 8 (ucast b1) OR push_bit 16 (ucast b2)
      OR push_bit 24 (ucast b3) :: u32)
    = unat b0 + 256 * (unat b1 + 256 * (unat b2 + 256 * unat b3))" (is "unat ?j = ?n")
proof -
  have lt: "unat b0 < 256" "unat b1 < 256" "unat b2 < 256" "unat b3 < 256"
    using unsigned_less [of b0] unsigned_less [of b1] unsigned_less [of b2] unsigned_less [of b3]
    by simp_all
  have "?j = ucast b0 + push_bit 8 (ucast b1) + push_bit 16 (ucast b2) + push_bit 24 (ucast b3)"
    apply (subst or_eq_add, rule word32_eqI, (simp add: bit_simps bit_bounds))+
    by (simp add: add.assoc)
  also have "\<dots> = of_nat ?n"
    by (simp add: push_bit_eq_mult algebra_simps unsigned_of_nat)
  finally show ?thesis using lt
    by (simp only: unsigned_of_nat) (simp add: take_bit_nat_eq_self)
qed

lemma read_span_length: "read_span m a w = Inr bs \<Longrightarrow> length bs = w"
  by (auto simp: read_span_eq mapped_def end_address_exclusive_def split: if_splits)

lemma read_span_nth:
  assumes "read_span m a w = Inr bs" and "i < w" and "wf_memory m"
  shows "cell m (a + of_nat i) = Some (bs ! i)"
proof -
  from assms(1) have mp: "mapped m a w"
    and bs: "bs = take w (drop (unat a - unat (base_address m)) (bytes m))"
    by (auto simp: read_span_eq split: if_splits)
  then have "unat a + w \<le> 2 ^ 32" using assms(3) by (simp add: mapped_def wf_memory_def)
  then show ?thesis
    using mp bs assms(2)
    by (simp add: cell_nth [OF mp], subst nth_drop) (auto simp: mapped_def end_address_exclusive_def)
qed

lemma clear_same_region [simp]: "same_region m (clear m)"
  by (simp add: same_region_def clear_def)

lemma cell_clear: "cell (clear m) a = map_option (\<lambda>_. 0) (cell m a)"
  by (auto simp: cell_def clear_def end_address_exclusive_def)

section \<open>A byte store\<close>

text \<open>A one-byte store whose exception is \<open>None\<close>, and the contract it satisfies.\<close>

definition put8 :: "memory \<Rightarrow> u32 \<Rightarrow> u8 \<Rightarrow> memory option" where
  "put8 m a b = (case write8 m a b of Inl _ \<Rightarrow> None | Inr m' \<Rightarrow> Some m')"

lemma put8_eq_Some_iff: "put8 m a b = Some m' \<longleftrightarrow> write8 m a b = Inr m'"
  by (auto simp: put8_def split: sum.splits)

interpretation memory_store: byte_store put8 cell
proof
  show "\<exists>m'. put8 m a b = Some m'" if "cell m a \<noteq> None" for m a b
    using that by (simp add: put8_eq_Some_iff write8_eq_Inr_iff cell_eq_None_iff)
  show "cell m' c = (if c = a then Some b else cell m c)" if "put8 m a b = Some m'" for m m' a b c
    using that by (simp add: put8_eq_Some_iff cell_write8)
qed

lemma put8_same_region: "put8 m a b = Some m' \<Longrightarrow> same_region m m'"
  by (simp add: put8_eq_Some_iff write8_same_region)

lemma write_range_same_region:
  "write_range put8 byte a offset n m = Some m' \<Longrightarrow> same_region m m'"
  by (induction n arbitrary: offset m)
    (auto split: bind_splits dest: put8_same_region intro: same_region_trans)

section \<open>Properties\<close>

text \<open>A region with a small program: \<open>addi x5, x0, 7\<close>, \<open>sw x5, 12(x0)\<close>, \<open>ecall\<close>.\<close>

definition sample_memory :: memory where
  "sample_memory = \<lparr>base_address = 0, bytes =
    [0x93, 0x02, 0x70, 0x00, 0x23, 0x26, 0x50, 0x00, 0x73, 0x00, 0x00, 0x00, 0, 0, 0, 0]\<rparr>"

text \<open>
  C7: what is written is read back. After a successful write of 8, 16 or 32 bits the read of
  the same width returns the value, every byte outside the written range is unchanged, and so
  are the base and the size of the region.
\<close>

theorem memory_round_trip:
  shows "(write8 m a b = Inr m8 \<longrightarrow> read8 m8 a = Inr b \<and> same_region m m8 \<and>
      (\<forall>c. c \<noteq> a \<longrightarrow> cell m8 c = cell m c)) \<and>
    (write16 m a h = Inr m16 \<longrightarrow> read16 m16 a = Inr h \<and> same_region m m16 \<and>
      (\<forall>c. 2 \<le> unat (c - a) \<longrightarrow> cell m16 c = cell m c)) \<and>
    (write32 m a w = Inr m32 \<longrightarrow> read32 m32 a = Inr w \<and> same_region m m32 \<and>
      (\<forall>c. 4 \<le> unat (c - a) \<longrightarrow> cell m32 c = cell m c))"
  using read8_write8 [of m a b m8] write8_same_region [of m a b m8] cell_write8 [of m a b m8]
    read16_write16 [of m a h m16] write16_same_region [of m a h m16] cell_write16 [of m a h m16]
    read32_write32 [of m a w m32] write32_same_region [of m a w m32] cell_write32 [of m a w m32]
  by (simp add: not_less [symmetric])

lemma memory_round_trip_witness:
  "read8 (projr (write8 sample_memory 12 0xAB)) 12 = Inr 0xAB \<and>
   read16 (projr (write16 sample_memory 12 0xABCD)) 12 = Inr 0xABCD \<and>
   read32 (projr (write32 sample_memory 12 0xDEADBEEF)) 12 = Inr 0xDEADBEEF"
proof -
  have ok: "write8 sample_memory 12 0xAB = Inr (projr (write8 sample_memory 12 0xAB))"
    "write16 sample_memory 12 0xABCD = Inr (projr (write16 sample_memory 12 0xABCD))"
    "write32 sample_memory 12 0xDEADBEEF = Inr (projr (write32 sample_memory 12 0xDEADBEEF))"
    by code_simp+
  from memory_round_trip [where m = sample_memory and a = 12 and b = "0xAB" and h = "0xABCD" and
      w = "0xDEADBEEF"] ok show ?thesis by blast
qed

text \<open>What an access of \<open>w\<close> bytes reports: misalignment first, then the bounds.\<close>

definition fault :: "memory \<Rightarrow> u32 \<Rightarrow> nat \<Rightarrow> memory_operation \<Rightarrow> memory_error option" where
  "fault m a w oper =
     (if unat a mod w \<noteq> 0 then Some (MemoryMisalignmentError a w oper)
      else if mapped m a w then None else Some (MemoryOutOfBoundsError a w oper))"

fun reported :: "'e + 'a \<Rightarrow> 'e option" where
  "reported (Inl e) = Some e"
| "reported (Inr _) = None"

lemma reported_write:
  "reported (write8 m a b) = fault m a 1 Write"
  "reported (write16 m a h) = fault m a 2 Write"
  "reported (write32 m a v) = fault m a 4 Write"
  by (simp_all add: write8_def write16_def write32_def check_alignment_eq checked_offset_eq fault_def)

lemma reported_read:
  "reported (read8 m a) = fault m a 1 Read"
  "reported (read16 m a) = fault m a 2 Read"
  "reported (read32 m a) = fault m a 4 Read"
  by (simp_all add: read8_def read16_def read32_def check_alignment_eq checked_offset_eq fault_def)

text \<open>
  C8: the error behaviour of every access. An access fails exactly if its address is not a
  multiple of its width, or its bytes are not all in the region; the misalignment is reported
  before the bounds, with the address, the width and the operation.
\<close>

theorem memory_faults:
  "reported (read8 m a) = fault m a 1 Read \<and> reported (read16 m a) = fault m a 2 Read \<and>
   reported (read32 m a) = fault m a 4 Read \<and> reported (write8 m a b) = fault m a 1 Write \<and>
   reported (write16 m a h) = fault m a 2 Write \<and> reported (write32 m a v) = fault m a 4 Write"
  by (intro conjI reported_read reported_write)

text \<open>
  A word is stored least significant byte first: the value of a 32-bit read is the number
  that the four 8-bit reads at its addresses make up.
\<close>

theorem memory_little_endian:
  assumes "read32 m a = Inr v"
  shows "\<exists>b0 b1 b2 b3. read8 m a = Inr b0 \<and> read8 m (a + 1) = Inr b1 \<and>
    read8 m (a + 2) = Inr b2 \<and> read8 m (a + 3) = Inr b3 \<and>
    unat v = unat b0 + 256 * (unat b1 + 256 * (unat b2 + 256 * unat b3))"
proof -
  have ok: "unat a mod 4 = 0" "mapped m a 4" and
    v: "v = ucast (the (cell m a)) OR push_bit 8 (ucast (the (cell m (a + 1))))
        OR push_bit 16 (ucast (the (cell m (a + 2)))) OR push_bit 24 (ucast (the (cell m (a + 3))))"
    using assms by (auto simp: read32_eq split: if_splits)
  have "unat a + 4 \<le> 2 ^ 32" using ok(1) by (rule aligned_no_wrap) simp
  from cell_nth [OF ok(2) this] have c: "cell m (a + of_nat i) \<noteq> None" if "i < 4" for i
    using that by auto
  have "\<exists>b. cell m (a + k) = Some b" if "k = 0 \<or> k = 1 \<or> k = 2 \<or> k = 3" for k
    using that c [of 0] c [of 1] c [of 2] c [of 3] by auto
  then obtain b0 b1 b2 b3 where "cell m a = Some b0" "cell m (a + 1) = Some b1"
    "cell m (a + 2) = Some b2" "cell m (a + 3) = Some b3" by (metis add_0_right)
  then show ?thesis using v unat_join_bytes32 [of b0 b1 b2 b3]
    by (simp add: read8_eq)
qed

lemma memory_little_endian_witness:
  "\<exists>b0 b1 b2 b3. read8 sample_memory 4 = Inr b0 \<and> read8 sample_memory 5 = Inr b1 \<and>
    read8 sample_memory 6 = Inr b2 \<and> read8 sample_memory 7 = Inr b3 \<and>
    5252643 = unat b0 + 256 * (unat b1 + 256 * (unat b2 + 256 * unat b3))"
proof -
  have "read32 sample_memory 4 = Inr 0x00502623" by code_simp
  from memory_little_endian [OF this] show ?thesis by simp
qed

lemma wf_sample_memory: "wf_memory sample_memory"
  by (simp add: wf_memory_def end_address_exclusive_def sample_memory_def)

end
