(* ===== verification/Instruction.thy ===== *)
theory Instruction
  imports Prelude
begin

text \<open>
  Instruction words and their decoded form: \<^verbatim>\<open>include/rvemu/instruction.hpp\<close>
  and \<^verbatim>\<open>src/instruction.cpp\<close>. The enumerations keep the source's constructors
  (the one-letter formats get a prefix), the struct keeps its fields. A shift
  \<open>raw >> k\<close> of the code is \<open>drop_bit k\<close>, \<open>x << k\<close> is \<open>push_bit k x\<close>.
\<close>

section \<open>Data\<close>

datatype opcode =
    Load | MiscMemory | OpImmediate | Auipc | Store | Op | Lui | Branch | Jalr | Jal | System

fun opcode_value :: "opcode \<Rightarrow> u8" where
  "opcode_value Load = 0x03"
| "opcode_value MiscMemory = 0x0F"
| "opcode_value OpImmediate = 0x13"
| "opcode_value Auipc = 0x17"
| "opcode_value Store = 0x23"
| "opcode_value Op = 0x33"
| "opcode_value Lui = 0x37"
| "opcode_value Branch = 0x63"
| "opcode_value Jalr = 0x67"
| "opcode_value Jal = 0x6F"
| "opcode_value System = 0x73"

datatype instruction_format = FormatR | FormatI | FormatS | FormatB | FormatU | FormatJ

record decoded_instruction =
  raw :: u32
  immediate :: u32
  opcode :: opcode
  format :: instruction_format
  destination :: u8
  source1 :: u8
  source2 :: u8
  function3 :: u8
  function7 :: u8

text \<open>The member initialisers of the struct.\<close>

definition default_instruction :: decoded_instruction where
  "default_instruction =
     \<lparr>raw = 0, immediate = 0, opcode = Load, format = FormatI, destination = 0, source1 = 0,
      source2 = 0, function3 = 0, function7 = 0\<rparr>"

section \<open>Decoding\<close>

definition field :: "u32 \<Rightarrow> nat \<Rightarrow> u32 \<Rightarrow> u8" where
  "field w shift mask' = ucast (drop_bit shift w AND mask')"

definition sign_extend :: "u32 \<Rightarrow> nat \<Rightarrow> u32" where
  "sign_extend v bit_count =
     (let sign_bit = push_bit (bit_count - 1) 1;
          mask' = push_bit bit_count 1 - 1;
          value = v AND mask'
      in (value XOR sign_bit) - sign_bit)"

definition decode_opcode :: "u32 \<Rightarrow> opcode option" where
  "decode_opcode w =
     (let low = w AND 0x7F
      in if low = ucast (opcode_value Load) then Some Load
         else if low = ucast (opcode_value MiscMemory) then Some MiscMemory
         else if low = ucast (opcode_value OpImmediate) then Some OpImmediate
         else if low = ucast (opcode_value Auipc) then Some Auipc
         else if low = ucast (opcode_value Store) then Some Store
         else if low = ucast (opcode_value Op) then Some Op
         else if low = ucast (opcode_value Lui) then Some Lui
         else if low = ucast (opcode_value Branch) then Some Branch
         else if low = ucast (opcode_value Jalr) then Some Jalr
         else if low = ucast (opcode_value Jal) then Some Jal
         else if low = ucast (opcode_value System) then Some System
         else None)"

fun format_for_opcode :: "opcode \<Rightarrow> instruction_format" where
  "format_for_opcode Op = FormatR"
| "format_for_opcode Load = FormatI"
| "format_for_opcode MiscMemory = FormatI"
| "format_for_opcode OpImmediate = FormatI"
| "format_for_opcode Jalr = FormatI"
| "format_for_opcode System = FormatI"
| "format_for_opcode Store = FormatS"
| "format_for_opcode Branch = FormatB"
| "format_for_opcode Auipc = FormatU"
| "format_for_opcode Lui = FormatU"
| "format_for_opcode Jal = FormatJ"

text \<open>The immediates of the S, B and J formats before sign extension.\<close>

definition s_immediate :: "u32 \<Rightarrow> u32" where
  "s_immediate w = push_bit 5 (drop_bit 25 w) OR (drop_bit 7 w AND 0x1F)"

definition b_immediate :: "u32 \<Rightarrow> u32" where
  "b_immediate w =
     push_bit 12 (drop_bit 31 w) OR push_bit 11 (drop_bit 7 w AND 0x01)
     OR push_bit 5 (drop_bit 25 w AND 0x3F) OR push_bit 1 (drop_bit 8 w AND 0x0F)"

definition j_immediate :: "u32 \<Rightarrow> u32" where
  "j_immediate w =
     push_bit 20 (drop_bit 31 w) OR push_bit 12 (drop_bit 12 w AND 0xFF)
     OR push_bit 11 (drop_bit 20 w AND 0x01) OR push_bit 1 (drop_bit 21 w AND 0x3FF)"

definition decode_instruction :: "u32 \<Rightarrow> decoded_instruction option" where
  "decode_instruction w =
     (case decode_opcode w of
       None \<Rightarrow> None
     | Some opc \<Rightarrow>
         let i = default_instruction
               \<lparr>raw := w, opcode := opc, format := format_for_opcode opc\<rparr>
         in Some (case format i of
           FormatR \<Rightarrow> i\<lparr>destination := field w 7 0x1F, function3 := field w 12 0x07,
             source1 := field w 15 0x1F, source2 := field w 20 0x1F,
             function7 := field w 25 0x7F\<rparr>
         | FormatI \<Rightarrow> i\<lparr>destination := field w 7 0x1F, function3 := field w 12 0x07,
             source1 := field w 15 0x1F, function7 := field w 25 0x7F,
             immediate := sign_extend (drop_bit 20 w) 12\<rparr>
         | FormatS \<Rightarrow> i\<lparr>function3 := field w 12 0x07, source1 := field w 15 0x1F,
             source2 := field w 20 0x1F, immediate := sign_extend (s_immediate w) 12\<rparr>
         | FormatB \<Rightarrow> i\<lparr>function3 := field w 12 0x07, source1 := field w 15 0x1F,
             source2 := field w 20 0x1F, immediate := sign_extend (b_immediate w) 13\<rparr>
         | FormatU \<Rightarrow> i\<lparr>destination := field w 7 0x1F, immediate := w AND 0xFFFFF000\<rparr>
         | FormatJ \<Rightarrow> i\<lparr>destination := field w 7 0x1F,
             immediate := sign_extend (j_immediate w) 21\<rparr>))"

section \<open>Fields are in range\<close>

lemma field_register_less: "unat (field w k 0x1F) < 32"
proof -
  have "field w k 0x1F = take_bit 5 (ucast (drop_bit k w))"
    by (rule bit_word_eqI) (auto simp: field_def mask_simps bit_simps)
  then show ?thesis
    by (simp only: unsigned_take_bit_eq) (use take_bit_nat_less_exp [of 5] in simp)
qed

lemma decoded_indices:
  assumes "decode_instruction w = Some i"
  shows "unat (destination i) < 32" and "unat (source1 i) < 32" and "unat (source2 i) < 32"
  using assms field_register_less
  by (auto simp: decode_instruction_def default_instruction_def Let_def split: option.splits
      instruction_format.splits)

lemma decoded_raw: "decode_instruction w = Some i \<Longrightarrow> raw i = w"
  by (auto simp: decode_instruction_def default_instruction_def Let_def split: option.splits
      instruction_format.splits)

lemma decoded_opcode: "decode_instruction w = Some i \<Longrightarrow> decode_opcode w = Some (opcode i)"
  by (auto simp: decode_instruction_def default_instruction_def Let_def split: option.splits
      instruction_format.splits)

lemma decode_opcode_eq_Some_iff:
  "decode_opcode w = Some opc \<longleftrightarrow> w AND 0x7F = ucast (opcode_value opc)"
  by (cases opc) (auto simp: decode_opcode_def Let_def)

section \<open>Sign extension\<close>

text \<open>
  The exclusive-or and the subtraction of the code are two's complement sign extension
  from bit \<open>n - 1\<close>, at every width the code may be called with.
\<close>

lemma sign_extend_eq_signed_take_bit:
  assumes "0 < n" and "n \<le> 31"
  shows "sign_extend v n = signed_take_bit (n - 1) v"
proof -
  obtain m where n: "n = Suc m" using assms(1) by (cases n) auto
  have mask: "push_bit n 1 - 1 = (mask n :: u32)"
    by (simp add: mask_eq_exp_minus_1 push_bit_of_1)
  have x: "take_bit n v XOR push_bit m 1 = take_bit m v + (if bit v m then 0 else 2 ^ m)"
  proof (cases "bit v m")
    case True
    then have "take_bit n v XOR push_bit m 1 = take_bit m v"
      unfolding n by (intro bit_word_eqI) (auto simp: bit_simps less_Suc_eq)
    with True show ?thesis by simp
  next
    case False
    then have "take_bit n v XOR push_bit m 1 = take_bit m v OR push_bit m 1"
      unfolding n by (intro bit_word_eqI) (auto simp: bit_simps less_Suc_eq)
    also have "\<dots> = take_bit m v + push_bit m 1"
      by (rule or_eq_add) (auto intro!: bit_word_eqI simp: bit_simps)
    finally show ?thesis using False by (simp add: push_bit_of_1)
  qed
  have "sign_extend v n = (take_bit n v XOR push_bit m 1) - push_bit m 1"
    unfolding sign_extend_def Let_def mask take_bit_eq_mask by (simp add: n)
  then show ?thesis
    unfolding x by (simp add: n push_bit_of_1 signed_take_bit_word_eq)
qed

end
