(* ===== verification/Alu.thy ===== *)
theory Alu
  imports Instruction
begin

text \<open>
  The pure helpers of the execution engine: the functions of the anonymous namespace of
  \<^verbatim>\<open>src/execution_engine.cpp\<close> that compute results, branch decisions and
  extensions from register values. \<open>None\<close> is \<open>std::nullopt\<close>, the answer to a reserved
  encoding. All arithmetic is on unsigned words, as in the code.
\<close>

section \<open>Comparison and shift\<close>

definition signed_less_than :: "u32 \<Rightarrow> u32 \<Rightarrow> bool" where
  "signed_less_than left right = (let kSignBit = 0x80000000
     in (left XOR kSignBit) < (right XOR kSignBit))"

definition arithmetic_shift_right :: "u32 \<Rightarrow> u32 \<Rightarrow> u32" where
  "arithmetic_shift_right v shift_amount =
     (if shift_amount = 0 then v
      else let result = drop_bit (unat shift_amount) v
        in if v AND 0x80000000 \<noteq> 0
           then result OR push_bit (unat (32 - shift_amount)) 0xFFFFFFFF
           else result)"

section \<open>Integer-immediate operations\<close>

definition execute_op_immediate :: "decoded_instruction \<Rightarrow> u32 \<Rightarrow> u32 option" where
  "execute_op_immediate i source =
     (let shift_amount = immediate i AND 0x1F
      in if function3 i = 0x0 then Some (source + immediate i)
         else if function3 i = 0x1 then
           (if function7 i \<noteq> 0x00 then None else Some (push_bit (unat shift_amount) source))
         else if function3 i = 0x2 then Some (if signed_less_than source (immediate i) then 1 else 0)
         else if function3 i = 0x3 then Some (if source < immediate i then 1 else 0)
         else if function3 i = 0x4 then Some (source XOR immediate i)
         else if function3 i = 0x5 then
           (if function7 i = 0x00 then Some (drop_bit (unat shift_amount) source)
            else if function7 i = 0x20 then Some (arithmetic_shift_right source shift_amount)
            else None)
         else if function3 i = 0x6 then Some (source OR immediate i)
         else if function3 i = 0x7 then Some (source AND immediate i)
         else None)"

section \<open>Multiplication and division\<close>

definition is_negative_word :: "u32 \<Rightarrow> bool" where
  "is_negative_word v \<longleftrightarrow> v AND 0x80000000 \<noteq> 0"

definition signed_magnitude :: "u32 \<Rightarrow> u32" where
  "signed_magnitude v = (if is_negative_word v then 0 - v else v)"

definition apply_sign :: "u32 \<Rightarrow> bool \<Rightarrow> u32" where
  "apply_sign magnitude negative = (if negative then 0 - magnitude else magnitude)"

definition signed_product_bits :: "u32 \<Rightarrow> u32 \<Rightarrow> bool \<Rightarrow> u64" where
  "signed_product_bits s1 s2 source2_is_signed =
     (let source1_negative = is_negative_word s1;
          source2_negative = (source2_is_signed \<and> is_negative_word s2);
          source2_magnitude = (ucast (if source2_is_signed then signed_magnitude s2 else s2) :: u64);
          magnitude = ucast (signed_magnitude s1) * source2_magnitude
      in if source1_negative \<noteq> source2_negative then 0 - magnitude else magnitude)"

record signed_division_result =
  quotient :: u32
  remainder :: u32

definition signed_divide :: "u32 \<Rightarrow> u32 \<Rightarrow> signed_division_result" where
  "signed_divide dividend divisor =
     (if divisor = 0 then \<lparr>quotient = 0xFFFFFFFF, remainder = dividend\<rparr>
      else let dividend_negative = is_negative_word dividend;
               divisor_negative = is_negative_word divisor;
               dividend_magnitude = signed_magnitude dividend;
               divisor_magnitude = signed_magnitude divisor;
               quotient_magnitude = dividend_magnitude div divisor_magnitude;
               remainder_magnitude = dividend_magnitude mod divisor_magnitude
        in \<lparr>quotient = apply_sign quotient_magnitude (dividend_negative \<noteq> divisor_negative),
            remainder = apply_sign remainder_magnitude dividend_negative\<rparr>)"

definition execute_m_extension :: "decoded_instruction \<Rightarrow> u32 \<Rightarrow> u32 \<Rightarrow> u32 option" where
  "execute_m_extension i s1 s2 =
     (if function7 i \<noteq> 0x01 then None
      else let unsigned_product = (ucast s1 :: u64) * ucast s2
        in if function3 i = 0x0 then Some (ucast unsigned_product)
           else if function3 i = 0x1 then
             Some (ucast (drop_bit 32 (signed_product_bits s1 s2 True)))
           else if function3 i = 0x2 then
             Some (ucast (drop_bit 32 (signed_product_bits s1 s2 False)))
           else if function3 i = 0x3 then Some (ucast (drop_bit 32 unsigned_product))
           else if function3 i = 0x4 then Some (quotient (signed_divide s1 s2))
           else if function3 i = 0x5 then Some (if s2 = 0 then 0xFFFFFFFF else s1 div s2)
           else if function3 i = 0x6 then Some (remainder (signed_divide s1 s2))
           else if function3 i = 0x7 then Some (if s2 = 0 then s1 else s1 mod s2)
           else None)"

section \<open>Register-register operations\<close>

definition execute_op :: "decoded_instruction \<Rightarrow> u32 \<Rightarrow> u32 \<Rightarrow> u32 option" where
  "execute_op i s1 s2 =
     (if function7 i = 0x01 then execute_m_extension i s1 s2
      else let shift_amount = s2 AND 0x1F
        in if function3 i = 0x0 then
             (if function7 i = 0x00 then Some (s1 + s2)
              else if function7 i = 0x20 then Some (s1 - s2)
              else None)
           else if function3 i = 0x1 then
             (if function7 i \<noteq> 0x00 then None else Some (push_bit (unat shift_amount) s1))
           else if function3 i = 0x2 then
             (if function7 i \<noteq> 0x00 then None else Some (if signed_less_than s1 s2 then 1 else 0))
           else if function3 i = 0x3 then
             (if function7 i \<noteq> 0x00 then None else Some (if s1 < s2 then 1 else 0))
           else if function3 i = 0x4 then
             (if function7 i \<noteq> 0x00 then None else Some (s1 XOR s2))
           else if function3 i = 0x5 then
             (if function7 i = 0x00 then Some (drop_bit (unat shift_amount) s1)
              else if function7 i = 0x20 then Some (arithmetic_shift_right s1 shift_amount)
              else None)
           else if function3 i = 0x6 then
             (if function7 i \<noteq> 0x00 then None else Some (s1 OR s2))
           else if function3 i = 0x7 then
             (if function7 i \<noteq> 0x00 then None else Some (s1 AND s2))
           else None)"

section \<open>Branches, alignment and extension of loads\<close>

definition evaluate_branch :: "decoded_instruction \<Rightarrow> u32 \<Rightarrow> u32 \<Rightarrow> bool option" where
  "evaluate_branch i s1 s2 =
     (if function3 i = 0x0 then Some (s1 = s2)
      else if function3 i = 0x1 then Some (s1 \<noteq> s2)
      else if function3 i = 0x4 then Some (signed_less_than s1 s2)
      else if function3 i = 0x5 then Some (\<not> signed_less_than s1 s2)
      else if function3 i = 0x6 then Some (s1 < s2)
      else if function3 i = 0x7 then Some (s1 \<ge> s2)
      else None)"

definition is_instruction_aligned :: "u32 \<Rightarrow> bool" where
  "is_instruction_aligned address \<longleftrightarrow> address AND 0x3 = 0"

definition data_access_width :: "decoded_instruction \<Rightarrow> u8" where
  "data_access_width i =
     (if function3 i = 0x0 \<or> function3 i = 0x4 then 1
      else if function3 i = 0x1 \<or> function3 i = 0x5 then 2
      else if function3 i = 0x2 then 4
      else 0)"

definition sign_extend_byte :: "u8 \<Rightarrow> u32" where
  "sign_extend_byte v =
     (let extended = ucast v :: u32
      in if extended AND 0x80 \<noteq> 0 then extended OR 0xFFFFFF00 else extended)"

definition sign_extend_halfword :: "u16 \<Rightarrow> u32" where
  "sign_extend_halfword v =
     (let extended = ucast v :: u32
      in if extended AND 0x8000 \<noteq> 0 then extended OR 0xFFFF0000 else extended)"

section \<open>The helpers compute on signed values\<close>

text \<open>
  The code avoids the host's signed arithmetic: it flips sign bits, builds sign fills and
  works on magnitudes. Read through \<open>sint\<close>, each helper is the mathematical operation.
\<close>

lemma signed_less_than_iff: "signed_less_than a b \<longleftrightarrow> sint a < sint b"
  by (simp add: signed_less_than_def word_less_def uint_flip_sign)

lemma arithmetic_shift_right_eq:
  assumes "unat s < 32"
  shows "arithmetic_shift_right v s = signed_drop_bit (unat s) v"
proof (cases "s = 0")
  case True
  then show ?thesis by (simp add: arithmetic_shift_right_def)
next
  case False
  then have k: "unat (32 - s) = 32 - unat s" and p: "0 < unat s"
    using assms by (simp_all add: unat_sub word_le_nat_alt unat_gt_0)
  have m1: "(0xFFFFFFFF :: u32) = - 1" by simp
  show ?thesis
    unfolding arithmetic_shift_right_def m1
    by (rule bit_word_eqI)
      (use p assms in \<open>auto simp: False k Let_def sign_bit_test le_diff_conv bit_simps
        dest: bit_imp_le_length\<close>)
qed

lemma sint_arithmetic_shift_right:
  "unat s < 32 \<Longrightarrow> sint (arithmetic_shift_right v s) = sint v div 2 ^ unat s"
  by (simp add: arithmetic_shift_right_eq sint_signed_drop_bit_eq drop_bit_eq_div)

lemma is_negative_word_iff: "is_negative_word v \<longleftrightarrow> sint v < 0"
  by (simp add: is_negative_word_def sign_bit_test sint_neg_iff)

lemma uint_signed_magnitude: "uint (signed_magnitude v) = \<bar>sint v\<bar>"
proof (cases "bit v 31")
  case True
  then have "2147483648 \<le> uint v" by (simp add: sign_bit_iff)
  then have "uint (0 - v) = 4294967296 - uint v" using uint_lt_2_32 [of v]
    by (simp only: uint_sub_if') simp
  with True uint_lt_2_32 [of v] show ?thesis
    by (simp add: signed_magnitude_def is_negative_word_def sign_bit_test sint_eq_uint)
qed (simp add: signed_magnitude_def is_negative_word_def sign_bit_test sint_eq_uint)

lemma ucast_64_eq: "(ucast (x :: u32) :: u64) = word_of_int (uint x)"
  by simp

lemma signed_product_bits_signed:
  "signed_product_bits a b True = word_of_int (sint a * sint b)"
  by (simp only: signed_product_bits_def Let_def ucast_64_eq uint_signed_magnitude
      is_negative_word_iff if_True) (simp add: abs_if)

lemma signed_product_bits_unsigned:
  "signed_product_bits a b False = word_of_int (sint a * uint b)"
  by (simp only: signed_product_bits_def Let_def ucast_64_eq uint_signed_magnitude
      is_negative_word_iff if_False) (simp add: abs_if)

text \<open>Division that rounds towards zero, and the remainder that goes with it.\<close>

definition trunc_div :: "int \<Rightarrow> int \<Rightarrow> int" where
  "trunc_div a b = sgn a * sgn b * (\<bar>a\<bar> div \<bar>b\<bar>)"

definition trunc_rem :: "int \<Rightarrow> int \<Rightarrow> int" where
  "trunc_rem a b = a - b * trunc_div a b"

lemma trunc_rem_eq:
  assumes "b \<noteq> 0"
  shows "trunc_rem a b = (if a < 0 then - (\<bar>a\<bar> mod \<bar>b\<bar>) else \<bar>a\<bar> mod \<bar>b\<bar>)"
  using assms
  by (auto simp: trunc_rem_def trunc_div_def sgn_if abs_if minus_div_mult_eq_mod [symmetric]
      algebra_simps)

lemma signed_divide_eq:
  assumes "b \<noteq> 0"
  shows "quotient (signed_divide a b) = word_of_int (trunc_div (sint a) (sint b))"
    and "remainder (signed_divide a b) = word_of_int (trunc_rem (sint a) (sint b))"
proof -
  have w: "(x :: u32) div y = word_of_int (uint x div uint y)"
    "(x :: u32) mod y = word_of_int (uint x mod uint y)" for x y
    by (simp_all add: word_div_def word_mod_def)
  have nz: "sint b \<noteq> 0" using assms by (simp add: signed_eq_0_iff)
  show "quotient (signed_divide a b) = word_of_int (trunc_div (sint a) (sint b))"
    by (simp add: signed_divide_def assms Let_def apply_sign_def is_negative_word_iff w
        uint_signed_magnitude trunc_div_def) (use nz in \<open>auto simp: sgn_if abs_if\<close>)
  show "remainder (signed_divide a b) = word_of_int (trunc_rem (sint a) (sint b))"
    by (simp add: signed_divide_def assms Let_def apply_sign_def is_negative_word_iff w
        uint_signed_magnitude trunc_rem_eq nz)
qed

lemma sign_extend_byte_eq: "sign_extend_byte v = word_of_int (sint v)"
proof -
  have f: "(0xFFFFFF00 :: u32) = NOT (mask 8)" by (simp add: mask_eq_exp_minus_1)
  have "(ucast v :: u32) AND 0x80 = (if bit v 7 then 0x80 else 0)"
    by (rule word32_eqI) (simp add: bit_eval)
  then have t: "(ucast v :: u32) AND 0x80 \<noteq> 0 \<longleftrightarrow> bit v 7" by simp
  show ?thesis
    unfolding sign_extend_byte_def Let_def t f
    by (rule word32_eqI) (simp add: bit_eval sint_uint bit_uint_iff)
qed

lemma sign_extend_halfword_eq: "sign_extend_halfword v = word_of_int (sint v)"
proof -
  have f: "(0xFFFF0000 :: u32) = NOT (mask 16)" by (simp add: mask_eq_exp_minus_1)
  have "(ucast v :: u32) AND 0x8000 = (if bit v 15 then 0x8000 else 0)"
    by (rule word32_eqI) (simp add: bit_eval)
  then have t: "(ucast v :: u32) AND 0x8000 \<noteq> 0 \<longleftrightarrow> bit v 15" by simp
  show ?thesis
    unfolding sign_extend_halfword_def Let_def t f
    by (rule word32_eqI) (simp add: bit_eval sint_uint bit_uint_iff)
qed

lemma is_instruction_aligned_iff: "is_instruction_aligned a \<longleftrightarrow> unat a mod 4 = 0"
  by (simp add: is_instruction_aligned_def and_3_eq_0_iff)

text \<open>The products of the M extension, and the words of its operations in the order of their codes.\<close>

lemma ucast_word_of_int: "ucast (word_of_int k :: u64) = (word_of_int k :: u32)"
  by (rule bit_word_eqI) (auto simp: bit_simps)

lemma mul_low: "ucast ((ucast a :: u64) * ucast b) = (a * b :: u32)"
  using ucast_word_of_int [of "uint a * uint b"] by simp

lemma mulhu: "ucast (drop_bit 32 ((ucast a :: u64) * ucast b)) = (word_of_int (uint a * uint b div 2 ^ 32) :: u32)"
  using high_word_of_int [of "uint a * uint b"] by simp

lemma mulh: "ucast (drop_bit 32 (signed_product_bits a b True)) = (word_of_int (sint a * sint b div 2 ^ 32) :: u32)"
  "ucast (drop_bit 32 (signed_product_bits a b False)) = (word_of_int (sint a * uint b div 2 ^ 32) :: u32)"
  by (simp_all only: signed_product_bits_signed signed_product_bits_unsigned high_word_of_int)

definition m_operation :: "nat \<Rightarrow> u32 \<Rightarrow> u32 \<Rightarrow> int" where
  "m_operation code a b =
     [sint a * sint b,
      sint a * sint b div 2 ^ 32,
      sint a * uint b div 2 ^ 32,
      uint a * uint b div 2 ^ 32,
      if b = 0 then - 1 else trunc_div (sint a) (sint b),
      if b = 0 then - 1 else uint a div uint b,
      if b = 0 then sint a else trunc_rem (sint a) (sint b),
      if b = 0 then uint a else uint a mod uint b] ! code"

lemma signed_divide_cases:
  "signed_divide a b = (if b = 0 then \<lparr>quotient = - 1, remainder = a\<rparr>
     else \<lparr>quotient = word_of_int (trunc_div (sint a) (sint b)),
           remainder = word_of_int (trunc_rem (sint a) (sint b))\<rparr>)"
  by (cases "b = 0")
    (simp add: signed_divide_def, rule signed_division_result.equality, simp_all add: signed_divide_eq)

lemma execute_m_extension_eq:
  "execute_m_extension i a b = (if function7 i = 1 \<and> unat (function3 i) < 8
     then Some (word_of_int (m_operation (unat (function3 i)) a b)) else None)"
proof -
  have code: "function3 i = word_of_nat k \<longleftrightarrow> unat (function3 i) = k" if "k < 8" for k
  proof -
    have "unat (word_of_nat k :: u8) = k" using that by (simp add: unat_of_nat)
    then show ?thesis by (metis word_unat_eq_iff)
  qed
  note codes = code [of 0] code [of 1] code [of 2] code [of 3] code [of 4] code [of 5] code [of 6]
    code [of 7]
  show ?thesis
  proof (cases "function7 i = 1 \<and> unat (function3 i) < 8")
    case True
    then consider "unat (function3 i) = 0" | "unat (function3 i) = 1" | "unat (function3 i) = 2"
      | "unat (function3 i) = 3" | "unat (function3 i) = 4" | "unat (function3 i) = 5"
      | "unat (function3 i) = 6" | "unat (function3 i) = 7" by linarith
    then show ?thesis
      using True codes
      by cases (simp_all add: execute_m_extension_def m_operation_def mul_low mulhu mulh
          signed_divide_cases word_div_def word_mod_def)
  next
    case False
    with codes show ?thesis by (auto simp: execute_m_extension_def Let_def)
  qed
qed

section \<open>Properties\<close>

text \<open>
  C19: the signed comparison and the M extension are operations on integers. An instruction of
  function code 1 computes the product, its upper half for signed, mixed and unsigned factors,
  or the signed or unsigned quotient or remainder, rounded towards zero, each reduced to 32
  bits; any other is refused. Division by zero returns all ones and the dividend, and the least
  number divided by minus one returns itself, with remainder zero.
\<close>

theorem signed_arithmetic:
  "signed_less_than a b = (sint a < sint b) \<and>
   execute_m_extension i a b = (if function7 i = 1 \<and> unat (function3 i) < 8
     then Some (word_of_int (m_operation (unat (function3 i)) a b)) else None) \<and>
   signed_product_bits a b True = word_of_int (sint a * sint b) \<and>
   signed_product_bits a b False = word_of_int (sint a * uint b) \<and>
   signed_divide a b = (if b = 0 then \<lparr>quotient = - 1, remainder = a\<rparr>
     else \<lparr>quotient = word_of_int (trunc_div (sint a) (sint b)),
           remainder = word_of_int (trunc_rem (sint a) (sint b))\<rparr>) \<and>
   signed_divide 0x80000000 (- 1) = \<lparr>quotient = 0x80000000, remainder = 0\<rparr>"
proof -
  have "signed_divide 0x80000000 (- 1) = \<lparr>quotient = 0x80000000, remainder = 0\<rparr>" by code_simp
  then show ?thesis
    by (intro conjI signed_less_than_iff execute_m_extension_eq signed_product_bits_signed
        signed_product_bits_unsigned signed_divide_cases)
qed

text \<open>
  An arithmetic right shift divides the signed value by the power of two, rounding towards
  minus infinity, for every shift amount that an instruction can have.
\<close>

theorem arithmetic_shift_floor:
  assumes "unat s < 32"
  shows "sint (arithmetic_shift_right v s) = sint v div 2 ^ unat s"
  using assms by (rule sint_arithmetic_shift_right)

lemma arithmetic_shift_floor_witness:
  "sint (arithmetic_shift_right 0xFFFFFFF9 1) = - 4"
  using arithmetic_shift_floor [of 1 "0xFFFFFFF9"] by simp

end
