(* ===== verification/Execution_Engine.thy ===== *)
theory Execution_Engine
  imports Cpu_State Memory Alu
begin

text \<open>
  The fetch-decode-execute loop: \<^verbatim>\<open>class ExecutionEngine\<close> of
  \<^verbatim>\<open>include/rvemu/execution_engine.hpp\<close> and
  \<^verbatim>\<open>src/execution_engine.cpp\<close>, with the observations of
  \<^verbatim>\<open>include/rvemu/execution_observation.hpp\<close>. An engine refers to a processor
  state, a memory and an optional observer; the record below holds all three, the observer
  as a state of any type \<open>'o\<close> with the function that updates it (\<open>None\<close> is the null
  pointer). The outer \<open>option\<close> of a step is the \<open>std::out_of_range\<close> of a register access
  that would escape it.
\<close>

section \<open>Data\<close>

datatype trap_cause =
    InstructionAddressMisaligned
  | InstructionAccessFault
  | IllegalInstruction
  | Breakpoint
  | LoadAddressMisaligned
  | LoadAccessFault
  | StoreAddressMisaligned
  | StoreAccessFault
  | EnvironmentCallFromUserMode

fun trap_cause_value :: "trap_cause \<Rightarrow> u32" where
  "trap_cause_value InstructionAddressMisaligned = 0"
| "trap_cause_value InstructionAccessFault = 1"
| "trap_cause_value IllegalInstruction = 2"
| "trap_cause_value Breakpoint = 3"
| "trap_cause_value LoadAddressMisaligned = 4"
| "trap_cause_value LoadAccessFault = 5"
| "trap_cause_value StoreAddressMisaligned = 6"
| "trap_cause_value StoreAccessFault = 7"
| "trap_cause_value EnvironmentCallFromUserMode = 8"

record trap =
  cause :: trap_cause
  trap_program_counter :: u32
  trap_value :: u32

datatype data_memory_access_kind = LoadAccess | StoreAccess

record data_memory_access_observation =
  access_kind :: data_memory_access_kind
  access_address :: u32
  width_bytes :: u8

datatype control_flow_kind = ConditionalBranch | DirectJump | IndirectJump

record control_flow_observation =
  flow_kind :: control_flow_kind
  taken :: bool

record execution_observation =
  instruction :: decoded_instruction
  observed_program_counter :: u32
  next_program_counter :: u32
  data_memory_access :: "data_memory_access_observation option"
  control_flow :: "control_flow_observation option"

datatype step_result = StepCompleted execution_observation | StepTrapped trap

datatype run_result = InstructionLimitReached nat | RunTrapped nat trap

record 'o engine =
  state :: cpu_state
  memory_of :: memory
  observer :: 'o

type_synonym 'o observe = "(execution_observation \<Rightarrow> 'o \<Rightarrow> 'o) option"

definition kEcallInstruction :: u32 where
  "kEcallInstruction = 0x00000073"

definition kEbreakInstruction :: u32 where
  "kEbreakInstruction = 0x00100073"

section \<open>Loads and stores\<close>

record execution_failure =
  failure_cause :: trap_cause
  failure_value :: u32

text \<open>The \<open>catch\<close> clauses of a load and of a store.\<close>

fun load_fault :: "u32 \<Rightarrow> memory_error \<Rightarrow> execution_failure" where
  "load_fault address (MemoryMisalignmentError _ _ _) =
     \<lparr>failure_cause = LoadAddressMisaligned, failure_value = address\<rparr>"
| "load_fault address (MemoryOutOfBoundsError _ _ _) =
     \<lparr>failure_cause = LoadAccessFault, failure_value = address\<rparr>"

fun store_fault :: "u32 \<Rightarrow> memory_error \<Rightarrow> execution_failure" where
  "store_fault address (MemoryMisalignmentError _ _ _) =
     \<lparr>failure_cause = StoreAddressMisaligned, failure_value = address\<rparr>"
| "store_fault address (MemoryOutOfBoundsError _ _ _) =
     \<lparr>failure_cause = StoreAccessFault, failure_value = address\<rparr>"

definition execute_load ::
  "decoded_instruction \<Rightarrow> memory \<Rightarrow> u32 \<Rightarrow> execution_failure + u32" where
  "execute_load i m address =
     (if function3 i = 0x0 then map_sum (load_fault address) sign_extend_byte (read8 m address)
      else if function3 i = 0x1 then
        map_sum (load_fault address) sign_extend_halfword (read16 m address)
      else if function3 i = 0x2 then map_sum (load_fault address) id (read32 m address)
      else if function3 i = 0x4 then map_sum (load_fault address) ucast (read8 m address)
      else if function3 i = 0x5 then map_sum (load_fault address) ucast (read16 m address)
      else Inl \<lparr>failure_cause = IllegalInstruction, failure_value = raw i\<rparr>)"

definition execute_store ::
  "decoded_instruction \<Rightarrow> memory \<Rightarrow> u32 \<Rightarrow> u32 \<Rightarrow> execution_failure + memory" where
  "execute_store i m address value =
     (if function3 i = 0x0 then
        map_sum (store_fault address) id (write8 m address (ucast (value AND 0xFF)))
      else if function3 i = 0x1 then
        map_sum (store_fault address) id (write16 m address (ucast (value AND 0xFFFF)))
      else if function3 i = 0x2 then
        map_sum (store_fault address) id (write32 m address value)
      else Inl \<lparr>failure_cause = IllegalInstruction, failure_value = raw i\<rparr>)"

section \<open>One step\<close>

text \<open>The local variables of \<^verbatim>\<open>ExecutionEngine::step\<close> that the switch assigns.\<close>

record step_locals =
  next_pc :: u32
  destination_value :: "u32 option"
  local_access :: "data_memory_access_observation option"
  local_flow :: "control_flow_observation option"
  instruction_supported :: bool

definition initial_locals :: "u32 \<Rightarrow> step_locals" where
  "initial_locals pc =
     \<lparr>next_pc = pc + 4, destination_value = None, local_access = None, local_flow = None,
      instruction_supported = False\<rparr>"

text \<open>
  The switch over the opcode: \<open>Inl\<close> is an early return of a trap, \<open>Inr\<close> the values of the
  locals after the switch and the memory (which only a store changes).
\<close>

definition execute_opcode ::
  "decoded_instruction \<Rightarrow> u32 \<Rightarrow> cpu_state \<Rightarrow> memory \<Rightarrow>
     (execution_failure + step_locals \<times> memory) option" where
  "execute_opcode i pc s m =
     (let l = initial_locals pc
      in case opcode i of
        Lui \<Rightarrow>
          Some (Inr (l\<lparr>destination_value := Some (immediate i), instruction_supported := True\<rparr>, m))
      | Auipc \<Rightarrow>
          Some (Inr (l\<lparr>destination_value := Some (pc + immediate i),
            instruction_supported := True\<rparr>, m))
      | OpImmediate \<Rightarrow> do {
          a \<leftarrow> read_register s (unat (source1 i));
          let v = execute_op_immediate i a;
          Some (Inr (l\<lparr>destination_value := v, instruction_supported := v \<noteq> None\<rparr>, m))
        }
      | Op \<Rightarrow> do {
          a \<leftarrow> read_register s (unat (source1 i));
          b \<leftarrow> read_register s (unat (source2 i));
          let v = execute_op i a b;
          Some (Inr (l\<lparr>destination_value := v, instruction_supported := v \<noteq> None\<rparr>, m))
        }
      | Jal \<Rightarrow>
          let target = pc + immediate i
          in if \<not> is_instruction_aligned target
             then Some (Inl \<lparr>failure_cause = InstructionAddressMisaligned, failure_value = target\<rparr>)
             else Some (Inr (l\<lparr>next_pc := target, destination_value := Some (pc + 4),
               local_flow := Some \<lparr>flow_kind = DirectJump, taken = True\<rparr>,
               instruction_supported := True\<rparr>, m))
      | Jalr \<Rightarrow>
          if function3 i \<noteq> 0 then Some (Inr (l, m))
          else do {
            a \<leftarrow> read_register s (unat (source1 i));
            let target = (a + immediate i) AND NOT 1;
            if \<not> is_instruction_aligned target
            then Some (Inl \<lparr>failure_cause = InstructionAddressMisaligned, failure_value = target\<rparr>)
            else Some (Inr (l\<lparr>next_pc := target, destination_value := Some (pc + 4),
              local_flow := Some \<lparr>flow_kind = IndirectJump, taken = True\<rparr>,
              instruction_supported := True\<rparr>, m))
          }
      | Branch \<Rightarrow> do {
          a \<leftarrow> read_register s (unat (source1 i));
          b \<leftarrow> read_register s (unat (source2 i));
          case evaluate_branch i a b of
            None \<Rightarrow> Some (Inr (l, m))
          | Some branch_taken \<Rightarrow>
              if branch_taken \<and> \<not> is_instruction_aligned (pc + immediate i)
              then Some (Inl \<lparr>failure_cause = InstructionAddressMisaligned,
                failure_value = pc + immediate i\<rparr>)
              else Some (Inr (l\<lparr>next_pc := (if branch_taken then pc + immediate i else next_pc l),
                local_flow := Some \<lparr>flow_kind = ConditionalBranch, taken = branch_taken\<rparr>,
                instruction_supported := True\<rparr>, m))
        }
      | Load \<Rightarrow> do {
          a \<leftarrow> read_register s (unat (source1 i));
          let address = a + immediate i;
          case execute_load i m address of
            Inl failure \<Rightarrow> Some (Inl failure)
          | Inr v \<Rightarrow> Some (Inr (l\<lparr>destination_value := Some v,
              local_access := Some \<lparr>access_kind = LoadAccess, access_address = address,
                width_bytes = data_access_width i\<rparr>,
              instruction_supported := True\<rparr>, m))
        }
      | Store \<Rightarrow> do {
          a \<leftarrow> read_register s (unat (source1 i));
          b \<leftarrow> read_register s (unat (source2 i));
          let address = a + immediate i;
          case execute_store i m address b of
            Inl failure \<Rightarrow> Some (Inl failure)
          | Inr m' \<Rightarrow> Some (Inr (l\<lparr>
              local_access := Some \<lparr>access_kind = StoreAccess, access_address = address,
                width_bytes = data_access_width i\<rparr>,
              instruction_supported := True\<rparr>, m'))
        }
      | MiscMemory \<Rightarrow>
          Some (Inr (if function3 i = 0 then l\<lparr>instruction_supported := True\<rparr> else l, m))
      | System \<Rightarrow>
          if raw i = kEcallInstruction
          then Some (Inl \<lparr>failure_cause = EnvironmentCallFromUserMode, failure_value = 0\<rparr>)
          else if raw i = kEbreakInstruction
          then Some (Inl \<lparr>failure_cause = Breakpoint, failure_value = 0\<rparr>)
          else Some (Inr (l, m)))"

definition instruction_trap :: "cpu_state \<Rightarrow> trap_cause \<Rightarrow> u32 \<Rightarrow> trap" where
  "instruction_trap s c v =
     \<lparr>cause = c, trap_program_counter = program_counter s, trap_value = v\<rparr>"

definition notify :: "'o observe \<Rightarrow> execution_observation \<Rightarrow> 'o \<Rightarrow> 'o" where
  "notify obs ob o' = (case obs of None \<Rightarrow> o' | Some f \<Rightarrow> f ob o')"

definition step :: "'o observe \<Rightarrow> 'o engine \<Rightarrow> (step_result \<times> 'o engine) option" where
  "step obs e =
     (let s = state e; m = memory_of e; pc = program_counter s
      in if pc AND 0x3 \<noteq> 0
         then Some (StepTrapped (instruction_trap s InstructionAddressMisaligned pc), e)
         else case read32 m pc of
           Inl _ \<Rightarrow> Some (StepTrapped (instruction_trap s InstructionAccessFault pc), e)
         | Inr w \<Rightarrow>
             (case decode_instruction w of
               None \<Rightarrow> Some (StepTrapped (instruction_trap s IllegalInstruction w), e)
             | Some i \<Rightarrow> do {
                 outcome \<leftarrow> execute_opcode i pc s m;
                 case outcome of
                   Inl f \<Rightarrow>
                     Some (StepTrapped (instruction_trap s (failure_cause f) (failure_value f)), e)
                 | Inr (l, m') \<Rightarrow>
                     if \<not> instruction_supported l
                     then Some (StepTrapped (instruction_trap s IllegalInstruction w),
                       e\<lparr>memory_of := m'\<rparr>)
                     else do {
                       s' \<leftarrow> (case destination_value l of
                         None \<Rightarrow> Some s
                       | Some v \<Rightarrow> write_register s (unat (destination i)) v);
                       let ob = \<lparr>instruction = i, observed_program_counter = pc,
                         next_program_counter = next_pc l, data_memory_access = local_access l,
                         control_flow = local_flow l\<rparr>;
                       Some (StepCompleted ob,
                         e\<lparr>state := set_program_counter (next_pc l) s', memory_of := m',
                           observer := notify obs ob (observer e)\<rparr>)
                     }
               }))"

section \<open>Bounded runs\<close>

text \<open>
  The \<open>for\<close> loop of \<^verbatim>\<open>ExecutionEngine::run\<close>. The counter stays below the 64-bit
  limit, so it never wraps; both are natural numbers.
\<close>

function run_loop ::
  "'o observe \<Rightarrow> nat \<Rightarrow> nat \<Rightarrow> 'o engine \<Rightarrow> (run_result \<times> 'o engine) option" where
  "run_loop obs executed instruction_limit e =
     (if executed < instruction_limit then
        (case step obs e of
           None \<Rightarrow> None
         | Some (StepTrapped t, e') \<Rightarrow> Some (RunTrapped executed t, e')
         | Some (StepCompleted _, e') \<Rightarrow> run_loop obs (executed + 1) instruction_limit e')
      else Some (InstructionLimitReached instruction_limit, e))"
  by pat_completeness auto
termination
  by (relation "measure (\<lambda>(obs, executed, limit, e). limit - executed)") auto

declare run_loop.simps [simp del]

definition run :: "'o observe \<Rightarrow> nat \<Rightarrow> 'o engine \<Rightarrow> (run_result \<times> 'o engine) option" where
  "run obs instruction_limit e = run_loop obs 0 instruction_limit e"

section \<open>A step never throws, and a trap changes nothing\<close>

lemma execute_opcode_total:
  assumes "decode_instruction w = Some i"
  shows "\<exists>outcome. execute_opcode i pc s m = Some outcome"
  using decoded_indices [OF assms]
  by (cases "opcode i")
    (auto simp: execute_opcode_def Let_def split: option.splits sum.splits)

lemma step_not_None: "step obs e \<noteq> None"
proof
  assume "step obs e = None"
  then obtain w i where "decode_instruction w = Some i"
    and "execute_opcode i (program_counter (state e)) (state e) (memory_of e) = None"
    using decoded_indices(1)
    by (auto simp: step_def Let_def split: if_splits sum.splits option.splits bind_splits)
  with execute_opcode_total [of w i "program_counter (state e)" "state e" "memory_of e"]
  show False by auto
qed

lemma step_total: obtains r e' where "step obs e = Some (r, e')"
  using step_not_None [of obs e] by auto

lemma execute_opcode_memory:
  assumes "execute_opcode i pc s m = Some (Inr (l, m'))"
  shows "m' = m \<or> instruction_supported l \<and> (\<exists>a v. execute_store i m a v = Inr m'
    \<and> local_access l = Some \<lparr>access_kind = StoreAccess, access_address = a,
        width_bytes = data_access_width i\<rparr>)"
  using assms
  by (cases "opcode i")
    (auto simp: execute_opcode_def Let_def split: option.splits sum.splits bind_splits if_splits)

lemma step_trapped:
  assumes "step obs e = Some (StepTrapped t, e')"
  shows "e' = e" and "trap_program_counter t = program_counter (state e)"
  using assms
  by (auto simp: step_def Let_def instruction_trap_def dest: execute_opcode_memory
      split: if_splits sum.splits option.splits bind_splits)

section \<open>Completed steps as a relation\<close>

text \<open>
  \<open>completes obs e ob e'\<close>: the engine retires one instruction, reports \<open>ob\<close> and is left as
  \<open>e'\<close>. The one rule lists what a completed step consists of.
\<close>

inductive completes ::
  "'o observe \<Rightarrow> 'o engine \<Rightarrow> execution_observation \<Rightarrow> 'o engine \<Rightarrow> bool" where
  completesI: "\<lbrakk> unat (program_counter (state e)) mod 4 = 0;
     read32 (memory_of e) (program_counter (state e)) = Inr w;
     decode_instruction w = Some i;
     execute_opcode i (program_counter (state e)) (state e) (memory_of e) = Some (Inr (l, m'));
     instruction_supported l;
     ob = \<lparr>instruction = i, observed_program_counter = program_counter (state e),
           next_program_counter = next_pc l, data_memory_access = local_access l,
           control_flow = local_flow l\<rparr>;
     s' = (case destination_value l of None \<Rightarrow> state e
            | Some v \<Rightarrow> set_reg (unat (destination i)) v (state e)) \<rbrakk>
   \<Longrightarrow> completes obs e ob (e\<lparr>state := set_program_counter (next_pc l) s', memory_of := m',
        observer := notify obs ob (observer e)\<rparr>)"

inductive_cases completesE: "completes obs e ob e'"

lemma step_completed_iff: "step obs e = Some (StepCompleted ob, e') \<longleftrightarrow> completes obs e ob e'"
proof
  assume s: "step obs e = Some (StepCompleted ob, e')"
  then obtain w i l m' where parts: "unat (program_counter (state e)) mod 4 = 0"
     "read32 (memory_of e) (program_counter (state e)) = Inr w"
     "decode_instruction w = Some i"
     "execute_opcode i (program_counter (state e)) (state e) (memory_of e) = Some (Inr (l, m'))"
     "instruction_supported l"
    by (auto simp: step_def Let_def and_3_eq_0_iff split: if_splits sum.splits option.splits
        bind_splits)
  with s decoded_indices [OF parts(3)] show "completes obs e ob e'"
    by (auto simp: step_def Let_def and_3_eq_0_iff intro!: completesI split: option.splits)
next
  assume "completes obs e ob e'"
  then show "step obs e = Some (StepCompleted ob, e')"
    by cases (use decoded_indices in
      \<open>auto simp: step_def Let_def and_3_eq_0_iff split: option.splits\<close>)
qed

lemma step_outcomes [consumes 0, case_names completed trapped]:
  assumes "\<And>ob e'. step obs e = Some (StepCompleted ob, e') \<Longrightarrow> completes obs e ob e' \<Longrightarrow> P"
    and "\<And>t. step obs e = Some (StepTrapped t, e) \<Longrightarrow>
      trap_program_counter t = program_counter (state e) \<Longrightarrow> P"
  shows P
proof -
  obtain r e' where r: "step obs e = Some (r, e')" by (rule step_total)
  show P
  proof (cases r)
    case (StepCompleted ob)
    with r assms(1) show P by (simp add: step_completed_iff)
  next
    case (StepTrapped t)
    with r assms(2) [of t] step_trapped [of obs e t e'] show P by simp
  qed
qed

lemma completes_functional:
  "completes obs e ob e' \<Longrightarrow> completes obs e ob' e'' \<Longrightarrow> ob' = ob \<and> e'' = e'"
  by (simp flip: step_completed_iff)

section \<open>What a completed step may change\<close>

lemma completes_observation:
  assumes "completes obs e ob e'"
  shows "observed_program_counter ob = program_counter (state e)"
    and "next_program_counter ob = program_counter (state e')"
    and "observer e' = notify obs ob (observer e)"
  using assms by (auto elim!: completesE)

lemma completes_wf_cpu: "completes obs e ob e' \<Longrightarrow> wf_cpu (state e) \<Longrightarrow> wf_cpu (state e')"
  by (auto elim!: completesE simp: wf_cpu_set_reg split: option.splits)

lemma completes_reg_frame:
  assumes "completes obs e ob e'" and "wf_cpu (state e)" and "j < 32"
    and "j \<noteq> unat (destination (instruction ob))"
  shows "reg (state e') j = reg (state e) j"
  using assms decoded_indices
  by (auto elim!: completesE simp: reg_set_reg split: option.splits)

lemma execute_store_region: "execute_store i m a v = Inr m' \<Longrightarrow> same_region m m'"
  by (auto simp: execute_store_def map_sum_def write8_same_region write16_same_region
      write32_same_region split: if_splits sum.splits)

lemma execute_store_frame:
  assumes "execute_store i m a v = Inr m'" and "unat (data_access_width i) \<le> unat (c - a)"
  shows "cell m' c = cell m c"
  using assms
  by (auto simp: execute_store_def data_access_width_def map_sum_def cell_write8 cell_write16
      cell_write32 split: if_splits sum.splits)

lemma completes_region: "completes obs e ob e' \<Longrightarrow> same_region (memory_of e) (memory_of e')"
  by (auto elim!: completesE dest!: execute_opcode_memory dest: execute_store_region)

lemma completes_memory_frame:
  assumes "completes obs e ob e'"
    and "\<And>a w. data_memory_access ob =
        Some \<lparr>access_kind = StoreAccess, access_address = a, width_bytes = w\<rparr> \<Longrightarrow>
      unat w \<le> unat (c - a)"
  shows "cell (memory_of e') c = cell (memory_of e) c"
  using assms
  by (auto elim!: completesE dest!: execute_opcode_memory dest: execute_store_frame)

lemma execute_opcode_aligned:
  assumes "execute_opcode i pc s m = Some (Inr (l, m'))" and "unat pc mod 4 = 0"
  shows "unat (next_pc l) mod 4 = 0"
  using assms
  by (cases "opcode i")
    (auto simp: execute_opcode_def Let_def initial_locals_def unat_add_4_mod_4
      is_instruction_aligned_iff split: option.splits sum.splits bind_splits if_splits)

lemma completes_aligned:
  "completes obs e ob e' \<Longrightarrow> unat (program_counter (state e')) mod 4 = 0"
  by (auto elim!: completesE dest: execute_opcode_aligned)

section \<open>Runs as traces\<close>

text \<open>
  \<open>retires obs e tr e'\<close>: from \<open>e\<close> the engine completes the instructions observed in \<open>tr\<close>, in
  this order, and reaches \<open>e'\<close>.
\<close>

inductive retires ::
  "'o observe \<Rightarrow> 'o engine \<Rightarrow> execution_observation list \<Rightarrow> 'o engine \<Rightarrow> bool" where
  retires_Nil: "retires obs e [] e"
| retires_Cons: "completes obs e ob e' \<Longrightarrow> retires obs e' tr e'' \<Longrightarrow> retires obs e (ob # tr) e''"

inductive_cases retires_NilE: "retires obs e [] e'"
inductive_cases retires_ConsE: "retires obs e (ob # tr) e'"

lemma retires_append:
  "retires obs e tr e' \<Longrightarrow> retires obs e' tr' e'' \<Longrightarrow> retires obs e (tr @ tr') e''"
  by (induction rule: retires.induct) (auto intro: retires.intros)

lemma retires_invariant:
  assumes "retires obs e tr e'" and "P e"
    and "\<And>e ob e'. completes obs e ob e' \<Longrightarrow> P e \<Longrightarrow> P e'"
  shows "P e'"
  using assms by (induction rule: retires.induct) auto

lemma run_loop_cases:
  assumes "executed \<le> limit"
  obtains
    (limit) tr e' where "run_loop obs executed limit e = Some (InstructionLimitReached limit, e')"
      "retires obs e tr e'" "executed + length tr = limit"
  | (trap) tr e' t where
      "run_loop obs executed limit e = Some (RunTrapped (executed + length tr) t, e')"
      "retires obs e tr e'" "executed + length tr < limit"
      "step obs e' = Some (StepTrapped t, e')"
proof -
  have "(\<exists>tr e'. run_loop obs executed limit e = Some (InstructionLimitReached limit, e') \<and>
      retires obs e tr e' \<and> executed + length tr = limit) \<or>
    (\<exists>tr e' t. run_loop obs executed limit e = Some (RunTrapped (executed + length tr) t, e') \<and>
      retires obs e tr e' \<and> executed + length tr < limit \<and>
      step obs e' = Some (StepTrapped t, e'))" (is "?Q executed e")
    using assms
  proof (induction "limit - executed" arbitrary: executed e)
    case 0
    then show ?case
      by (subst (1 2) run_loop.simps) (auto intro: exI [of _ "[]"] retires_Nil)
  next
    case (Suc n)
    then have lt: "executed < limit" by simp
    show ?case
    proof (cases obs e rule: step_outcomes)
      case (completed ob e1)
      with lt have eq: "run_loop obs executed limit e = run_loop obs (executed + 1) limit e1"
        by (subst run_loop.simps) simp
      have "?Q (executed + 1) e1" using Suc.hyps(2) Suc.prems by (intro Suc.hyps(1)) auto
      then show ?thesis
      proof (elim disjE exE conjE)
        fix tr e'
        assume "run_loop obs (executed + 1) limit e1 = Some (InstructionLimitReached limit, e')"
          "retires obs e1 tr e'" "executed + 1 + length tr = limit"
        then show ?thesis
          unfolding eq using retires_Cons [OF completed(2)]
          by (intro disjI1 exI [of _ "ob # tr"] exI [of _ e']) simp
      next
        fix tr e' t
        assume "run_loop obs (executed + 1) limit e1 =
            Some (RunTrapped (executed + 1 + length tr) t, e')"
          "retires obs e1 tr e'" "executed + 1 + length tr < limit"
          "step obs e' = Some (StepTrapped t, e')"
        then show ?thesis
          unfolding eq using retires_Cons [OF completed(2)]
          by (intro disjI2 exI [of _ "ob # tr"] exI [of _ e'] exI [of _ t]) simp
      qed
    next
      case (trapped t)
      with lt show ?thesis
        by (subst (2) run_loop.simps)
          (auto intro!: disjI2 exI [of _ "[]"] retires_Nil)
    qed
  qed
  then show thesis using limit trap by blast
qed

lemma run_cases [case_names limit trap]:
  obtains
    (limit) tr e' where "run obs limit e = Some (InstructionLimitReached limit, e')"
      "retires obs e tr e'" "length tr = limit"
  | (trap) tr e' t where "run obs limit e = Some (RunTrapped (length tr) t, e')"
      "retires obs e tr e'" "length tr < limit" "step obs e' = Some (StepTrapped t, e')"
proof -
  have "0 \<le> limit" by simp
  then show thesis
    by (cases rule: run_loop_cases [where obs = obs and e = e]) (auto intro: that simp: run_def)
qed

lemma run_total: obtains r e' where "run obs limit e = Some (r, e')"
  by (cases rule: run_cases [where obs = obs and limit = limit and e = e]) auto

lemma run_limit_reached:
  assumes "run obs limit e = Some (InstructionLimitReached n, e')"
  shows "n = limit" and "\<exists>tr. retires obs e tr e' \<and> length tr = limit"
  using assms by (cases rule: run_cases [where obs = obs and limit = limit and e = e]; force)+

lemma run_trapped:
  assumes "run obs limit e = Some (RunTrapped n t, e')"
  shows "n < limit" and "\<exists>tr. retires obs e tr e' \<and> length tr = n"
    and "step obs e' = Some (StepTrapped t, e')"
  using assms by (cases rule: run_cases [where obs = obs and limit = limit and e = e]; force)+

lemma run_retires:
  assumes "run obs limit e = Some (r, e')"
  obtains tr where "retires obs e tr e'" "length tr \<le> limit"
  using assms by (cases rule: run_cases [where obs = obs and limit = limit and e = e]) auto

lemma retires_wf_cpu: "retires obs e tr e' \<Longrightarrow> wf_cpu (state e) \<Longrightarrow> wf_cpu (state e')"
  by (rule retires_invariant [where P = "\<lambda>e. wf_cpu (state e)"]) (auto dest: completes_wf_cpu)

lemma retires_region: "retires obs e tr e' \<Longrightarrow> same_region (memory_of e) (memory_of e')"
  by (induction rule: retires.induct) (auto dest: completes_region intro: same_region_trans)

lemma retires_aligned:
  "retires obs e tr e' \<Longrightarrow> unat (program_counter (state e)) mod 4 = 0 \<Longrightarrow>
     unat (program_counter (state e')) mod 4 = 0"
  by (rule retires_invariant [where P = "\<lambda>e. unat (program_counter (state e)) mod 4 = 0"])
    (auto dest: completes_aligned)

text \<open>The observer receives exactly the completed instructions, in order.\<close>

lemma retires_observer:
  "retires obs e tr e' \<Longrightarrow> observer e' = fold (notify obs) tr (observer e)"
  by (induction rule: retires.induct) (auto dest: completes_observation(3))

section \<open>The observer interface\<close>

text \<open>
  What the engine asks of an observer is one operation. A provider promises that it keeps
  an invariant of its state (\<open>observer_model\<close>) and, if it counts events, how much one
  observation adds to its 64-bit counter (\<open>counting_observer\<close>). Runs of the engine then
  keep the invariant and add up the weights of the retired instructions. A counter that grows by
  at most one (\<open>bounded_observer\<close>) is bounded by the number of retired instructions.
\<close>

locale observer_model =
  fixes observe :: "execution_observation \<Rightarrow> 'o \<Rightarrow> 'o"
    and valid :: "'o \<Rightarrow> bool"
  assumes observe_valid: "valid s \<Longrightarrow> valid (observe ob s)"
begin

lemma retires_valid:
  "retires (Some observe) e tr e' \<Longrightarrow> valid (observer e) \<Longrightarrow> valid (observer e')"
proof (induction "Some observe" e tr e' rule: retires.induct)
  case (retires_Cons e ob e' tr e'')
  then show ?case by (simp add: completes_observation(3) notify_def observe_valid)
qed

lemma run_valid:
  "run (Some observe) limit e = Some (r, e') \<Longrightarrow> valid (observer e) \<Longrightarrow> valid (observer e')"
  by (elim run_retires) (rule retires_valid)

end

locale counting_observer = observer_model observe valid
  for observe :: "execution_observation \<Rightarrow> 'o \<Rightarrow> 'o" and valid :: "'o \<Rightarrow> bool" +
  fixes events :: "'o \<Rightarrow> u64"
    and weight :: "execution_observation \<Rightarrow> nat"
  assumes observe_events: "valid s \<Longrightarrow> events (observe ob s) = events s + of_nat (weight ob)"
begin

lemma retires_events:
  assumes "retires (Some observe) e tr e'" and "valid (observer e)"
  shows "events (observer e') = events (observer e) + of_nat (sum_list (map weight tr))"
  using assms
proof (induction "Some observe" e tr e' rule: retires.induct)
  case (retires_Cons e ob e' tr e'')
  then show ?case
    by (simp add: completes_observation(3) notify_def observe_events observe_valid)
qed simp

end

locale bounded_observer = observer_model observe valid
  for observe :: "execution_observation \<Rightarrow> 'o \<Rightarrow> 'o" and valid :: "'o \<Rightarrow> bool" +
  fixes events :: "'o \<Rightarrow> u64"
  assumes observe_bounded: "valid s \<Longrightarrow> events (observe ob s) \<in> {events s, events s + 1}"
begin

lemma retires_bounded:
  assumes "retires (Some observe) e tr e'" and "valid (observer e)"
  shows "unat (events (observer e')) \<le> unat (events (observer e)) + length tr"
  using assms
proof (induction "Some observe" e tr e' rule: retires.induct)
  case (retires_Cons e ob e' tr e'')
  have e': "observer e' = observe ob (observer e)"
    using completes_observation(3) [OF retires_Cons(1)] by (simp add: notify_def)
  have "unat (events (observer e')) \<le> unat (events (observer e)) + 1"
    using observe_bounded [OF retires_Cons.prems, of ob] e' unat_increment_le
      [of "events (observer e)"] by auto
  with retires_Cons e' observe_valid show ?case by fastforce
qed simp

end

text \<open>A counter with weights of at most one is a bounded counter.\<close>

locale unit_observer = counting_observer observe valid events weight
  for observe :: "execution_observation \<Rightarrow> 'o \<Rightarrow> 'o" and valid :: "'o \<Rightarrow> bool"
    and events :: "'o \<Rightarrow> u64" and weight :: "execution_observation \<Rightarrow> nat" +
  assumes weight_le: "weight ob \<le> 1"

sublocale unit_observer \<subseteq> bounded_observer observe valid events
proof
  show "events (observe ob s) \<in> {events s, events s + 1}" if "valid s" for s ob
    using observe_events [OF that, of ob] weight_le [of ob] by (cases "weight ob") auto
qed

section \<open>Properties\<close>

definition sample_engine :: "'o \<Rightarrow> 'o engine" where
  "sample_engine o' = \<lparr>state = initial_cpu_state, memory_of = sample_memory, observer = o'\<rparr>"

text \<open>
  C17: traps are precise. When a step traps, the registers, the program counter, the memory and
  the observer are what they were before, and the trap names the program counter.
\<close>

theorem step_precise_traps:
  assumes "step obs e = Some (StepTrapped t, e')"
  shows "e' = e \<and> trap_program_counter t = program_counter (state e)"
  using step_trapped [OF assms] by simp

lemma step_precise_traps_witness:
  "\<exists>t. step None ((sample_engine ())\<lparr>state := set_program_counter 8 initial_cpu_state\<rparr>) =
     Some (StepTrapped t, (sample_engine ())\<lparr>state := set_program_counter 8 initial_cpu_state\<rparr>) \<and>
     trap_program_counter t = 8"
proof -
  let ?e = "(sample_engine ())\<lparr>state := set_program_counter 8 initial_cpu_state\<rparr>"
  have "map_option fst (step None ?e) = Some (StepTrapped \<lparr>cause = EnvironmentCallFromUserMode,
    trap_program_counter = 8, trap_value = 0\<rparr>)" by code_simp
  then obtain t e' where "step None ?e = Some (StepTrapped t, e')" by auto
  from step_precise_traps [OF this] this show ?thesis by auto
qed

text \<open>The addresses an instruction stores to, as its observation reports them.\<close>

definition stores_to :: "execution_observation \<Rightarrow> u32 \<Rightarrow> bool" where
  "stores_to ob c \<longleftrightarrow> (case data_memory_access ob of
     Some a \<Rightarrow> access_kind a = StoreAccess \<and> unat (c - access_address a) < unat (width_bytes a)
   | None \<Rightarrow> False)"

lemma completes_stores_frame:
  assumes "completes obs e ob e'" and "\<not> stores_to ob c"
  shows "cell (memory_of e') c = cell (memory_of e) c"
  by (rule completes_memory_frame [OF assms(1)]) (use assms(2) in \<open>simp add: stores_to_def\<close>)

text \<open>
  C18: what one retired instruction may change. Only its destination register and the bytes it
  reports as stored change; register zero stays zero, the region stays, the next program counter
  is aligned, and the observer is told of exactly this instruction with the two program counters.
\<close>

theorem step_frame:
  assumes "step obs e = Some (StepCompleted ob, e')" and "wf_cpu (state e)"
  shows "wf_cpu (state e') \<and> same_region (memory_of e) (memory_of e') \<and>
    unat (program_counter (state e')) mod 4 = 0 \<and>
    observed_program_counter ob = program_counter (state e) \<and>
    next_program_counter ob = program_counter (state e') \<and>
    observer e' = notify obs ob (observer e) \<and>
    (\<forall>j < 32. j \<noteq> unat (destination (instruction ob)) \<longrightarrow> reg (state e') j = reg (state e) j) \<and>
    (\<forall>c. \<not> stores_to ob c \<longrightarrow> cell (memory_of e') c = cell (memory_of e) c)"
proof -
  have c: "completes obs e ob e'" using assms(1) by (simp add: step_completed_iff)
  show ?thesis
    using completes_wf_cpu [OF c assms(2)] completes_region [OF c] completes_aligned [OF c]
      completes_observation [OF c] completes_reg_frame [OF c assms(2)]
      completes_stores_frame [OF c] by blast
qed

lemma step_frame_witness:
  "\<exists>ob e'. step None (sample_engine ()) = Some (StepCompleted ob, e') \<and>
     reg (state e') 6 = 0 \<and> cell (memory_of e') 12 = Some 0"
proof -
  have "case step None (sample_engine ()) of
      Some (StepCompleted ob, _) \<Rightarrow> destination (instruction ob) = 5 \<and> data_memory_access ob = None
    | _ \<Rightarrow> False" by code_simp
  then obtain ob e' where ob: "step None (sample_engine ()) = Some (StepCompleted ob, e')"
    "destination (instruction ob) = 5" "data_memory_access ob = None"
    by (auto split: option.splits step_result.splits)
  have "wf_cpu (state (sample_engine ()))" by (simp add: sample_engine_def)
  from step_frame [OF ob(1) this] ob(2,3) stores_to_def [of ob 12]
  have "reg (state e') 6 = reg (state (sample_engine ())) 6"
    "cell (memory_of e') 12 = cell (memory_of (sample_engine ())) 12" by simp_all
  moreover have "reg (state (sample_engine ())) 6 = 0"
    "cell (memory_of (sample_engine ())) 12 = Some 0" by code_simp+
  ultimately show ?thesis using ob(1) by metis
qed

text \<open>
  A bounded run always returns. It retires a trace of instructions, tells the observer of
  each of them in order, and either retires the limit or stops at the first trap, which the next
  step of the final state raises and leaves the state as it is.
\<close>

theorem run_traces:
  "\<exists>tr e'. retires obs e tr e' \<and> observer e' = fold (notify obs) tr (observer e) \<and>
     (length tr = limit \<and> run obs limit e = Some (InstructionLimitReached limit, e') \<or>
      length tr < limit \<and> (\<exists>t. step obs e' = Some (StepTrapped t, e') \<and>
        run obs limit e = Some (RunTrapped (length tr) t, e')))"
  by (cases rule: run_cases [of obs limit e]) (use retires_observer in blast)+

end
