(* ===== verification/Isa_Spec.thy ===== *)
theory Isa_Spec
  imports Execution_Engine
begin

text \<open>
  The architecture the emulator implements, stated independently of the code: RV32IM user
  level with 32-bit instruction alignment, over mathematical integers. Nothing here models
  a source line; \<open>Isa_Refinement\<close> proves that a step of the engine is a step of this
  machine. The state is a register file, a program counter and a partial map of bytes; the
  outcome of a step is the next state or an exception with its cause and value.
\<close>

section \<open>Instructions\<close>

datatype alu_op =
    Add | Sub | Sll | Slt | Sltu | Xor | Srl | Sra | Or | And
  | Mul | Mulh | Mulhsu | Mulhu | Div | Divu | Rem | Remu

datatype branch_cond = Beq | Bne | Blt | Bge | Bltu | Bgeu

datatype load_kind = Lb | Lh | Lw | Lbu | Lhu

datatype store_kind = Sb | Sh | Sw

datatype rv_instr =
    LUI nat int
  | AUIPC nat int
  | JAL nat int
  | JALR nat nat int
  | BRANCH branch_cond nat nat int
  | LOAD load_kind nat nat int
  | STORE store_kind nat nat int
  | ALUI alu_op nat nat int
  | ALU alu_op nat nat nat
  | FENCE
  | ECALL
  | EBREAK

section \<open>Encodings\<close>

text \<open>\<open>bitfield hi lo w\<close>: the number in bits \<open>hi\<close> down to \<open>lo\<close> of an instruction word.\<close>

definition bitfield :: "nat \<Rightarrow> nat \<Rightarrow> u32 \<Rightarrow> int" where
  "bitfield hi lo w = uint w div 2 ^ lo mod 2 ^ (hi - lo + 1)"

text \<open>The immediates as the architecture manual draws them: weighted fields, bit 31 negative.\<close>

definition imm_I :: "u32 \<Rightarrow> int" where
  "imm_I w = bitfield 30 20 w - 2048 * bitfield 31 31 w"

definition imm_S :: "u32 \<Rightarrow> int" where
  "imm_S w = bitfield 11 7 w + 32 * bitfield 30 25 w - 2048 * bitfield 31 31 w"

definition imm_B :: "u32 \<Rightarrow> int" where
  "imm_B w = 2 * bitfield 11 8 w + 32 * bitfield 30 25 w + 2048 * bitfield 7 7 w - 4096 * bitfield 31 31 w"

definition imm_U :: "u32 \<Rightarrow> int" where
  "imm_U w = 4096 * bitfield 31 12 w"

definition imm_J :: "u32 \<Rightarrow> int" where
  "imm_J w = 2 * bitfield 30 21 w + 2048 * bitfield 20 20 w + 4096 * bitfield 19 12 w
     - 1048576 * bitfield 31 31 w"

definition rd_of :: "u32 \<Rightarrow> nat" where
  "rd_of w = nat (bitfield 11 7 w)"

definition rs1_of :: "u32 \<Rightarrow> nat" where
  "rs1_of w = nat (bitfield 19 15 w)"

definition rs2_of :: "u32 \<Rightarrow> nat" where
  "rs2_of w = nat (bitfield 24 20 w)"

text \<open>The operation of a register-register instruction, from funct7 and funct3.\<close>

definition op_kind :: "int \<Rightarrow> int \<Rightarrow> alu_op option" where
  "op_kind f7 f3 =
     (if f7 = 0 then
        (if f3 = 0 then Some Add else if f3 = 1 then Some Sll else if f3 = 2 then Some Slt
         else if f3 = 3 then Some Sltu else if f3 = 4 then Some Xor else if f3 = 5 then Some Srl
         else if f3 = 6 then Some Or else if f3 = 7 then Some And else None)
      else if f7 = 32 then
        (if f3 = 0 then Some Sub else if f3 = 5 then Some Sra else None)
      else if f7 = 1 then
        (if f3 = 0 then Some Mul else if f3 = 1 then Some Mulh else if f3 = 2 then Some Mulhsu
         else if f3 = 3 then Some Mulhu else if f3 = 4 then Some Div else if f3 = 5 then Some Divu
         else if f3 = 6 then Some Rem else if f3 = 7 then Some Remu else None)
      else None)"

definition branch_kind :: "int \<Rightarrow> branch_cond option" where
  "branch_kind f3 =
     (if f3 = 0 then Some Beq else if f3 = 1 then Some Bne else if f3 = 4 then Some Blt
      else if f3 = 5 then Some Bge else if f3 = 6 then Some Bltu else if f3 = 7 then Some Bgeu
      else None)"

definition load_kind_of :: "int \<Rightarrow> load_kind option" where
  "load_kind_of f3 =
     (if f3 = 0 then Some Lb else if f3 = 1 then Some Lh else if f3 = 2 then Some Lw
      else if f3 = 4 then Some Lbu else if f3 = 5 then Some Lhu else None)"

definition store_kind_of :: "int \<Rightarrow> store_kind option" where
  "store_kind_of f3 =
     (if f3 = 0 then Some Sb else if f3 = 1 then Some Sh else if f3 = 2 then Some Sw else None)"

text \<open>Immediate operations: shifts take a five-bit amount and check funct7.\<close>

definition decode_op_imm :: "u32 \<Rightarrow> rv_instr option" where
  "decode_op_imm w =
     (let f3 = bitfield 14 12 w; f7 = bitfield 31 25 w; rd = rd_of w; rs1 = rs1_of w
      in if f3 = 1 then (if f7 = 0 then Some (ALUI Sll rd rs1 (bitfield 24 20 w)) else None)
         else if f3 = 5 then
           (if f7 = 0 then Some (ALUI Srl rd rs1 (bitfield 24 20 w))
            else if f7 = 32 then Some (ALUI Sra rd rs1 (bitfield 24 20 w)) else None)
         else map_option (\<lambda>oper. ALUI oper rd rs1 (imm_I w)) (op_kind 0 f3))"

definition rv_decode :: "u32 \<Rightarrow> rv_instr option" where
  "rv_decode w =
     (let opc = bitfield 6 0 w; f3 = bitfield 14 12 w; f7 = bitfield 31 25 w;
          rd = rd_of w; rs1 = rs1_of w; rs2 = rs2_of w
      in if opc = 0x37 then Some (LUI rd (imm_U w))
         else if opc = 0x17 then Some (AUIPC rd (imm_U w))
         else if opc = 0x6F then Some (JAL rd (imm_J w))
         else if opc = 0x67 then (if f3 = 0 then Some (JALR rd rs1 (imm_I w)) else None)
         else if opc = 0x63 then map_option (\<lambda>c. BRANCH c rs1 rs2 (imm_B w)) (branch_kind f3)
         else if opc = 0x03 then map_option (\<lambda>k. LOAD k rd rs1 (imm_I w)) (load_kind_of f3)
         else if opc = 0x23 then map_option (\<lambda>k. STORE k rs1 rs2 (imm_S w)) (store_kind_of f3)
         else if opc = 0x13 then decode_op_imm w
         else if opc = 0x33 then map_option (\<lambda>oper. ALU oper rd rs1 rs2) (op_kind f7 f3)
         else if opc = 0x0F then (if f3 = 0 then Some FENCE else None)
         else if w = 0x00000073 then Some ECALL
         else if w = 0x00100073 then Some EBREAK
         else None)"

section \<open>Operations over the integers\<close>

definition of_bool_word :: "bool \<Rightarrow> u32" where
  "of_bool_word b = (if b then 1 else 0)"

fun alu_result :: "alu_op \<Rightarrow> u32 \<Rightarrow> u32 \<Rightarrow> u32" where
  "alu_result Add a b = word_of_int (uint a + uint b)"
| "alu_result Sub a b = word_of_int (uint a - uint b)"
| "alu_result Sll a b = word_of_int (uint a * 2 ^ nat (uint b mod 32))"
| "alu_result Slt a b = of_bool_word (sint a < sint b)"
| "alu_result Sltu a b = of_bool_word (uint a < uint b)"
| "alu_result Xor a b = a XOR b"
| "alu_result Srl a b = word_of_int (uint a div 2 ^ nat (uint b mod 32))"
| "alu_result Sra a b = word_of_int (sint a div 2 ^ nat (uint b mod 32))"
| "alu_result Or a b = a OR b"
| "alu_result And a b = a AND b"
| "alu_result Mul a b = word_of_int (sint a * sint b)"
| "alu_result Mulh a b = word_of_int (sint a * sint b div 2 ^ 32)"
| "alu_result Mulhsu a b = word_of_int (sint a * uint b div 2 ^ 32)"
| "alu_result Mulhu a b = word_of_int (uint a * uint b div 2 ^ 32)"
| "alu_result Div a b =
     (if b = 0 then - 1 else word_of_int (trunc_div (sint a) (sint b)))"
| "alu_result Divu a b = (if b = 0 then - 1 else word_of_int (uint a div uint b))"
| "alu_result Rem a b = (if b = 0 then a else word_of_int (trunc_rem (sint a) (sint b)))"
| "alu_result Remu a b = (if b = 0 then a else word_of_int (uint a mod uint b))"

fun branch_holds :: "branch_cond \<Rightarrow> u32 \<Rightarrow> u32 \<Rightarrow> bool" where
  "branch_holds Beq a b \<longleftrightarrow> a = b"
| "branch_holds Bne a b \<longleftrightarrow> a \<noteq> b"
| "branch_holds Blt a b \<longleftrightarrow> sint a < sint b"
| "branch_holds Bge a b \<longleftrightarrow> sint b \<le> sint a"
| "branch_holds Bltu a b \<longleftrightarrow> uint a < uint b"
| "branch_holds Bgeu a b \<longleftrightarrow> uint b \<le> uint a"

section \<open>Memory as a map\<close>

text \<open>The little-endian number in \<open>n\<close> consecutive bytes, if all are mapped.\<close>

fun le_value :: "(u32 \<Rightarrow> u8 option) \<Rightarrow> u32 \<Rightarrow> nat \<Rightarrow> int option" where
  "le_value m a 0 = Some 0"
| "le_value m a (Suc n) =
     (case m a of None \<Rightarrow> None
      | Some b \<Rightarrow> map_option (\<lambda>v. uint b + 256 * v) (le_value m (a + 1) n))"

text \<open>The map after storing the low \<open>n\<close> bytes of a number, least significant first.\<close>

fun le_store :: "(u32 \<Rightarrow> u8 option) \<Rightarrow> u32 \<Rightarrow> nat \<Rightarrow> int \<Rightarrow> (u32 \<Rightarrow> u8 option)" where
  "le_store m a 0 v = m"
| "le_store m a (Suc n) v = le_store (m(a \<mapsto> word_of_int v)) (a + 1) n (v div 256)"

fun load_width :: "load_kind \<Rightarrow> nat" where
  "load_width Lb = 1" | "load_width Lbu = 1"
| "load_width Lh = 2" | "load_width Lhu = 2"
| "load_width Lw = 4"

text \<open>A number of \<open>n\<close> bits read as two's complement.\<close>

definition signed_value :: "nat \<Rightarrow> int \<Rightarrow> int" where
  "signed_value n v = (if v < 2 ^ (n - 1) then v else v - 2 ^ n)"

fun load_extend :: "load_kind \<Rightarrow> int \<Rightarrow> int" where
  "load_extend Lb v = signed_value 8 v"
| "load_extend Lh v = signed_value 16 v"
| "load_extend Lw v = v"
| "load_extend Lbu v = v"
| "load_extend Lhu v = v"

fun store_width :: "store_kind \<Rightarrow> nat" where
  "store_width Sb = 1" | "store_width Sh = 2" | "store_width Sw = 4"

section \<open>The machine\<close>

record arch =
  xreg :: "nat \<Rightarrow> u32"
  xpc :: u32
  xmem :: "u32 \<Rightarrow> u8 option"

datatype arch_outcome = Retire arch | Except trap_cause u32

definition put_reg :: "nat \<Rightarrow> u32 \<Rightarrow> arch \<Rightarrow> arch" where
  "put_reg r v A = (if r = 0 then A else A\<lparr>xreg := (xreg A)(r := v)\<rparr>)"

definition next_seq :: "arch \<Rightarrow> u32" where
  "next_seq A = word_of_int (uint (xpc A) + 4)"

definition go :: "u32 \<Rightarrow> arch \<Rightarrow> arch" where
  "go t A = A\<lparr>xpc := t\<rparr>"

text \<open>A control transfer: a misaligned target is an exception at the transfer itself.\<close>

definition jump_to :: "u32 \<Rightarrow> arch \<Rightarrow> arch_outcome" where
  "jump_to t A = (if uint t mod 4 = 0 then Retire (go t A)
     else Except InstructionAddressMisaligned t)"

fun exec :: "rv_instr \<Rightarrow> arch \<Rightarrow> arch_outcome" where
  "exec (LUI rd imm) A = Retire (go (next_seq A) (put_reg rd (word_of_int imm) A))"
| "exec (AUIPC rd imm) A =
     Retire (go (next_seq A) (put_reg rd (word_of_int (uint (xpc A) + imm)) A))"
| "exec (JAL rd imm) A =
     jump_to (word_of_int (uint (xpc A) + imm)) (put_reg rd (next_seq A) A)"
| "exec (JALR rd rs1 imm) A =
     jump_to (word_of_int (2 * ((uint (xreg A rs1) + imm) div 2))) (put_reg rd (next_seq A) A)"
| "exec (BRANCH c rs1 rs2 imm) A =
     (if branch_holds c (xreg A rs1) (xreg A rs2)
      then jump_to (word_of_int (uint (xpc A) + imm)) A
      else Retire (go (next_seq A) A))"
| "exec (LOAD k rd rs1 imm) A =
     (let a = word_of_int (uint (xreg A rs1) + imm)
      in if uint a mod int (load_width k) \<noteq> 0 then Except LoadAddressMisaligned a
         else case le_value (xmem A) a (load_width k) of
           None \<Rightarrow> Except LoadAccessFault a
         | Some v \<Rightarrow>
             Retire (go (next_seq A) (put_reg rd (word_of_int (load_extend k v)) A)))"
| "exec (STORE k rs1 rs2 imm) A =
     (let a = word_of_int (uint (xreg A rs1) + imm)
      in if uint a mod int (store_width k) \<noteq> 0 then Except StoreAddressMisaligned a
         else case le_value (xmem A) a (store_width k) of
           None \<Rightarrow> Except StoreAccessFault a
         | Some _ \<Rightarrow>
             Retire (go (next_seq A)
               (A\<lparr>xmem := le_store (xmem A) a (store_width k) (uint (xreg A rs2))\<rparr>)))"
| "exec (ALUI oper rd rs1 imm) A =
     Retire (go (next_seq A) (put_reg rd (alu_result oper (xreg A rs1) (word_of_int imm)) A))"
| "exec (ALU oper rd rs1 rs2) A =
     Retire (go (next_seq A) (put_reg rd (alu_result oper (xreg A rs1) (xreg A rs2)) A))"
| "exec FENCE A = Retire (go (next_seq A) A)"
| "exec ECALL A = Except EnvironmentCallFromUserMode 0"
| "exec EBREAK A = Except Breakpoint 0"

definition arch_step :: "arch \<Rightarrow> arch_outcome" where
  "arch_step A =
     (if uint (xpc A) mod 4 \<noteq> 0 then Except InstructionAddressMisaligned (xpc A)
      else case le_value (xmem A) (xpc A) 4 of
        None \<Rightarrow> Except InstructionAccessFault (xpc A)
      | Some v \<Rightarrow>
          (case rv_decode (word_of_int v) of
             None \<Rightarrow> Except IllegalInstruction (word_of_int v)
           | Some i \<Rightarrow> exec i A))"

end
