(* ===== verification/Isa_Refinement.thy ===== *)
theory Isa_Refinement
  imports Isa_Spec
begin

text \<open>
  The engine implements the architecture: fields and immediates of \<open>decode_instruction\<close>
  agree with the weighted fields of the specification, the pure helpers of \<open>Alu\<close> with the
  integer operations, memory accesses with the map of bytes, and so one call of
  \<open>step\<close> with one step of \<open>arch_step\<close>.
\<close>

section \<open>Fields and immediates\<close>

lemma bitfield_eq: "bitfield hi lo w = uint (take_bit (hi - lo + 1) (drop_bit lo w))"
proof -
  have "uint (take_bit (hi - lo + 1) (drop_bit lo w)) = take_bit (hi - lo + 1) (uint (drop_bit lo w))"
    by (rule unsigned_take_bit_eq)
  also have "uint (drop_bit lo w) = drop_bit lo (uint w)"
    by (rule bit_eqI) (auto simp: bit_simps dest: bit_imp_le_length)
  finally show ?thesis by (simp only: bitfield_def take_bit_eq_mod drop_bit_eq_div)
qed

lemma word_of_bitfield: "word_of_int (bitfield hi lo w) = (take_bit (hi - lo + 1) (drop_bit lo w) :: u32)"
  by (simp add: bitfield_eq)

lemma field5: "uint (field w k 0x1F) = bitfield (k + 4) k w"
proof -
  have "field w k 0x1F = ucast (take_bit 5 (drop_bit k w))" by (simp add: field_def mask_simps)
  then show ?thesis by (simp add: bitfield_eq unsigned_ucast_eq unsigned_take_bit_eq)
qed
lemma field3: "uint (field w k 0x07) = bitfield (k + 2) k w"
proof -
  have "field w k 0x07 = ucast (take_bit 3 (drop_bit k w))" by (simp add: field_def mask_simps)
  then show ?thesis by (simp add: bitfield_eq unsigned_ucast_eq unsigned_take_bit_eq)
qed
lemma field7: "uint (field w k 0x7F) = bitfield (k + 6) k w"
proof -
  have "field w k 0x7F = ucast (take_bit 7 (drop_bit k w))" by (simp add: field_def mask_simps)
  then show ?thesis by (simp add: bitfield_eq unsigned_ucast_eq unsigned_take_bit_eq)
qed

lemma sign_bit_bitfield: "take_bit 1 (drop_bit 31 (w :: u32)) = (if bit w 31 then 1 else 0)"
  by (rule word32_eqI) (simp add: bit_eval)

lemma immediate_S: "sign_extend (s_immediate w) 12 = word_of_int (imm_S w)"
proof -
  have "take_bit 11 (s_immediate w) = take_bit 5 (drop_bit 7 w) OR push_bit 5 (take_bit 6 (drop_bit 25 w))"
    by (rule word32_eqI) (simp add: s_immediate_def mask_simps bit_eval)
  also have "\<dots> = take_bit 5 (drop_bit 7 w) + push_bit 5 (take_bit 6 (drop_bit 25 w))"
    by (rule or_eq_add, rule word32_eqI) (simp add: bit_eval)
  finally have "take_bit 11 (s_immediate w) = \<dots>" .
  moreover have "bit (s_immediate w) 11 = bit w 31"
    by (simp add: s_immediate_def mask_simps bit_eval)
  ultimately show ?thesis
    by (simp add: sign_extend_eq_signed_take_bit signed_take_bit_word_eq imm_S_def word_of_bitfield push_bit_eq_mult sign_bit_bitfield[simplified])
qed

lemma immediate_I: "sign_extend (drop_bit 20 w) 12 = word_of_int (imm_I w)"
  by (simp add: sign_extend_eq_signed_take_bit signed_take_bit_word_eq imm_I_def word_of_bitfield push_bit_eq_mult
     sign_bit_bitfield[simplified] bit_drop_bit_eq)

lemma immediate_U: "w AND 0xFFFFF000 = word_of_int (imm_U w)"
proof -
  have "w AND 0xFFFFF000 = push_bit 12 (drop_bit 12 w)"
    by (rule word32_eqI) (simp add: bit_eval)
  also have "\<dots> = push_bit 12 (take_bit 20 (drop_bit 12 w))"
    by (rule word32_eqI) (simp add: bit_eval)
  finally show ?thesis by (simp add: imm_U_def word_of_bitfield push_bit_eq_mult)
qed

lemma immediate_B: "sign_extend (b_immediate w) 13 = word_of_int (imm_B w)"
proof -
  have "take_bit 12 (b_immediate w) = push_bit 1 (take_bit 4 (drop_bit 8 w)) OR push_bit 5 (take_bit 6 (drop_bit 25 w))
     OR push_bit 11 (take_bit 1 (drop_bit 7 w))"
    by (rule word32_eqI) (simp add: b_immediate_def mask_simps bit_eval)
  also have "\<dots> = push_bit 1 (take_bit 4 (drop_bit 8 w)) + push_bit 5 (take_bit 6 (drop_bit 25 w))
     + push_bit 11 (take_bit 1 (drop_bit 7 w))"
    by (simp only: add.assoc, (subst or_eq_add, rule word32_eqI, (simp add: bit_eval))+, rule refl)
  finally have "take_bit 12 (b_immediate w) = \<dots>" .
  moreover have "bit (b_immediate w) 12 = bit w 31"
    by (simp add: b_immediate_def mask_simps bit_eval)
  ultimately show ?thesis
    by (simp add: sign_extend_eq_signed_take_bit signed_take_bit_word_eq imm_B_def word_of_bitfield push_bit_eq_mult sign_bit_bitfield[simplified])
qed

lemma immediate_J: "sign_extend (j_immediate w) 21 = word_of_int (imm_J w)"
proof -
  have "take_bit 20 (j_immediate w) = push_bit 1 (take_bit 10 (drop_bit 21 w)) OR push_bit 11 (take_bit 1 (drop_bit 20 w))
     OR push_bit 12 (take_bit 8 (drop_bit 12 w))"
    by (rule word32_eqI) (simp add: j_immediate_def mask_simps bit_eval)
  also have "\<dots> = push_bit 1 (take_bit 10 (drop_bit 21 w)) + push_bit 11 (take_bit 1 (drop_bit 20 w))
     + push_bit 12 (take_bit 8 (drop_bit 12 w))"
    by (simp only: add.assoc, (subst or_eq_add, rule word32_eqI, (simp add: bit_eval))+, rule refl)
  finally have "take_bit 20 (j_immediate w) = \<dots>" .
  moreover have "bit (j_immediate w) 20 = bit w 31"
    by (simp add: j_immediate_def mask_simps bit_eval)
  ultimately show ?thesis
    by (simp add: sign_extend_eq_signed_take_bit signed_take_bit_word_eq imm_J_def word_of_bitfield push_bit_eq_mult sign_bit_bitfield[simplified])
qed

section \<open>Memory accesses\<close>

lemma le_value_eq_None_iff:
  "le_value f a n = None \<longleftrightarrow> (\<exists>i < n. f (a + of_nat i) = None)"
proof (induction n arbitrary: a)
  case (Suc n)
  have "(\<exists>i < Suc n. f (a + of_nat i) = None) \<longleftrightarrow> f a = None \<or> (\<exists>i < n. f (a + 1 + of_nat i) = None)"
    by (auto simp: less_Suc_eq_0_disj algebra_simps)
  then show ?case using Suc.IH [of "a + 1"] by (auto split: option.splits)
qed simp

lemma cells_mapped_iff:
  assumes "unat a + w \<le> 2 ^ 32" and "0 < w"
  shows "(\<exists>i < w. cell m (a + of_nat i) = None) \<longleftrightarrow> \<not> mapped m a w"
proof
  assume "\<exists>i < w. cell m (a + of_nat i) = None"
  then show "\<not> mapped m a w" using cell_nth [OF _ assms(1)] by fastforce
next
  obtain k where k: "w = Suc k" using assms(2) by (cases w) auto
  then have last: "unat (a + of_nat (w - 1)) = unat a + (w - 1)"
    using assms(1) by (simp, subst unat_add_lem [THEN iffD1]) (simp_all add: unat_of_nat)
  assume "\<not> mapped m a w"
  then have "cell m a = None \<or> cell m (a + of_nat (w - 1)) = None"
    using assms(2) last by (auto simp: cell_def mapped_def)
  then show "\<exists>i < w. cell m (a + of_nat i) = None"
    using assms(2) by (auto intro: exI [of _ 0] exI [of _ "w - 1"])
qed

lemma le_value_cell:
  assumes "unat a mod w = 0" and "w dvd 2 ^ 32" and "0 < w"
  shows "le_value (cell m) a w = None \<longleftrightarrow> \<not> mapped m a w"
  using cells_mapped_iff [OF aligned_no_wrap [OF assms(1,2)] assms(3)]
  by (simp add: le_value_eq_None_iff)

lemma le_value_1: "le_value f a 1 = map_option uint (f a)"
  by (simp split: option.splits)

lemma le_value_2:
  "le_value f a 2 = (case f a of None \<Rightarrow> None | Some b0 \<Rightarrow>
     map_option (\<lambda>b1. uint b0 + 256 * uint b1) (f (a + 1)))"
  by (simp add: numeral_2_eq_2 split: option.splits)

lemma le_value_4:
  assumes "f a = Some b0" "f (a + 1) = Some b1" "f (a + 2) = Some b2" "f (a + 3) = Some b3"
  shows "le_value f a 4 = Some (uint b0 + 256 * (uint b1 + 256 * (uint b2 + 256 * uint b3)))"
  using assms by (simp add: eval_nat_numeral add.assoc)

lemma join_bytes32_word_of_int:
  fixes b0 b1 b2 b3 :: u8
  shows "ucast b0 OR push_bit 8 (ucast b1) OR push_bit 16 (ucast b2) OR push_bit 24 (ucast b3)
    = (word_of_int (uint b0 + 256 * (uint b1 + 256 * (uint b2 + 256 * uint b3))) :: u32)"
proof -
  let ?j = "ucast b0 OR push_bit 8 (ucast b1) OR push_bit 16 (ucast b2) OR push_bit 24 (ucast b3) :: u32"
  let ?n = "unat b0 + 256 * (unat b1 + 256 * (unat b2 + 256 * unat b3))"
  have "?j = of_nat (unat ?j)" by simp
  also have "\<dots> = of_nat ?n" by (simp only: unat_join_bytes32)
  finally show ?thesis by simp
qed

lemma join_bytes16_word_of_int:
  fixes b0 b1 :: u8
  shows "ucast b0 OR push_bit 8 (ucast b1) = (word_of_int (uint b0 + 256 * uint b1) :: u16)"
proof -
  have "ucast b0 OR push_bit 8 (ucast b1) = (ucast b0 + push_bit 8 (ucast b1) :: u16)"
    by (rule or_eq_add, rule bit_word_eqI) (auto simp: bit_simps dest: bit_imp_le_length)
  then show ?thesis by (simp add: push_bit_eq_mult)
qed

lemma read32_le:
  "read32 m a =
     (if unat a mod 4 \<noteq> 0 then Inl (MemoryMisalignmentError a 4 Read)
      else case le_value (cell m) a 4 of
        None \<Rightarrow> Inl (MemoryOutOfBoundsError a 4 Read) | Some v \<Rightarrow> Inr (word_of_int v))"
proof (cases "unat a mod 4 = 0 \<and> mapped m a 4")
  case True
  then obtain b0 b1 b2 b3 where b: "cell m a = Some b0" "cell m (a + 1) = Some b1" "cell m (a + 2) = Some b2"
    "cell m (a + 3) = Some b3"
    using cell_nth [of m a 4 0] cell_nth [of m a 4 1] cell_nth [of m a 4 2] cell_nth [of m a 4 3] aligned_no_wrap [of a 4]
    by simp
  then show ?thesis using True
    by (simp add: read32_eq join_bytes32_word_of_int le_value_4)
next
  case False
  then show ?thesis using le_value_cell [of a 4 m] 
    by (auto simp: read32_eq)
qed

lemma read16_le:
  "read16 m a =
     (if unat a mod 2 \<noteq> 0 then Inl (MemoryMisalignmentError a 2 Read)
      else case le_value (cell m) a 2 of
        None \<Rightarrow> Inl (MemoryOutOfBoundsError a 2 Read) | Some v \<Rightarrow> Inr (word_of_int v))"
proof (cases "unat a mod 2 = 0 \<and> mapped m a 2")
  case True
  then obtain b0 b1 where b: "cell m a = Some b0" "cell m (a + 1) = Some b1"
    using cell_nth [of m a 2 0] cell_nth [of m a 2 1] aligned_no_wrap [of a 2]
    by simp
  then show ?thesis using True
    by (simp add: read16_eq join_bytes16_word_of_int le_value_2)
next
  case False
  then show ?thesis using le_value_cell [of a 2 m] 
    by (auto simp: read16_eq)
qed

lemma read8_le:
  "read8 m a = (case le_value (cell m) a 1 of
        None \<Rightarrow> Inl (MemoryOutOfBoundsError a 1 Read) | Some v \<Rightarrow> Inr (word_of_int v))"
  by (auto simp: read8_eq le_value_1 split: option.splits)

lemma le_store_eq:
  assumes "n \<le> 2 ^ 32"
  shows "le_store f a n v c =
    (if unat (c - a) < n then Some (word_of_int (v div 256 ^ unat (c - a))) else f c)"
  using assms
proof (induction n arbitrary: f a v)
  case (Suc n)
  show ?case
  proof (cases "c = a")
    case True
    have "unat (- 1 :: u32) = 2 ^ 32 - 1" by (simp add: unsigned_minus_1_eq_mask mask_eq_exp_minus_1)
    with True Suc show ?thesis by simp
  next
    case False
    then obtain k where k: "unat (c - a) = Suc k"
      by (metis right_minus_eq unat_eq_0 not0_implies_Suc)
    then have "unat (c - (a + 1)) = k"
      using unat_minus_one [of "c - a"] False by (simp add: diff_diff_eq)
    moreover have "v div 256 div 256 ^ k = v div 256 ^ Suc k"
      by (simp add: zdiv_zmult2_eq)
    ultimately show ?thesis using Suc False k by simp
  qed
qed simp

lemma fields [simp]:
  "unat (field w 7 31) = rd_of w" "unat (field w 15 31) = rs1_of w" "unat (field w 20 31) = rs2_of w"
  using field5 [of w 7] field5 [of w 15] field5 [of w 20] 
  by (simp_all add: rd_of_def rs1_of_def rs2_of_def nat_uint_eq[symmetric])

lemma function3_eq_iff: "field w 12 7 = v \<longleftrightarrow> bitfield 14 12 w = uint v"
  using field3 [of w 12] by (simp add: word_uint_eq_iff)

lemma function7_eq_iff: "field w 25 127 = v \<longleftrightarrow> bitfield 31 25 w = uint v"
  using field7 [of w 25] by (simp add: word_uint_eq_iff)

lemma opcode_bitfield: "decode_opcode w = Some opc \<longleftrightarrow> bitfield 6 0 w = uint (opcode_value opc)"
proof -
  have "w AND 0x7F = ucast (opcode_value opc) \<longleftrightarrow> uint (take_bit 7 w) = uint (ucast (opcode_value opc) :: u32)"
    by (simp add: mask_simps word_uint_eq_iff)
  moreover have "uint (ucast (opcode_value opc) :: u32) = uint (opcode_value opc)" by (cases opc) simp_all
  ultimately show ?thesis by (simp add: decode_opcode_eq_Some_iff bitfield_eq)
qed

lemma shift_amount: "unat (b AND (31::u32)) = nat (uint b mod 32)"
proof -
  have "uint (take_bit 5 b) = uint b mod 32"
    by (simp only: unsigned_take_bit_eq) (simp add: take_bit_eq_mod)
  then show ?thesis by (simp add: mask_simps nat_uint_eq[symmetric])
qed
lemma shift_amount_less: "unat (b AND (31::u32)) < 32"
  unfolding shift_amount by (simp add: nat_less_iff)

lemma push_bit_spec: "push_bit n a = (word_of_int (uint a * 2 ^ n) :: u32)"
  by (simp add: push_bit_eq_mult)
lemma drop_bit_spec: "drop_bit n a = (word_of_int (uint a div 2 ^ n) :: u32)"
  by (rule bit_word_eqI) (auto simp: bit_simps simp flip: drop_bit_eq_div)

lemma sra_spec2: "arithmetic_shift_right a (b AND 31) = word_of_int (sint a div 2 ^ nat (uint b mod 32))"
proof -
  have "word_of_int (sint (arithmetic_shift_right a (b AND 31))) = arithmetic_shift_right a (b AND 31)" by simp
  then show ?thesis by (simp only: sint_arithmetic_shift_right [OF shift_amount_less] shift_amount)
qed

lemma sra_zero [simp]: "arithmetic_shift_right a 0 = a"
  by (simp add: arithmetic_shift_right_def)

lemma signed_divide_zero [simp]:
  "signed_divide a 0 = \<lparr>quotient = 0xFFFFFFFF, remainder = a\<rparr>"
  by (simp add: signed_divide_def)

lemmas alu_spec_simps = mul_low mulhu mulh sra_spec2 shift_amount push_bit_spec drop_bit_spec signed_less_than_iff of_bool_word_def
   signed_divide_eq  word_less_def word_div_def word_mod_def

lemma execute_op_spec:
  assumes "function3 i = field w 12 7" and "function7 i = field w 25 127"
  shows "execute_op i a b = map_option (\<lambda>oper. alu_result oper a b) (op_kind (bitfield 31 25 w) (bitfield 14 12 w))"
  unfolding execute_op_def execute_m_extension_def op_kind_def Let_def assms function3_eq_iff function7_eq_iff
  by (simp add: alu_spec_simps)

lemma imm_I_shift: "word_of_int (imm_I w) AND (31 :: u32) = word_of_int (bitfield 24 20 w)"
  unfolding immediate_I [symmetric] word_of_bitfield
  by (rule word32_eqI) (simp add: sign_extend_eq_signed_take_bit bit_eval mask_simps min_def)

lemma bitfield_shift: "nat (uint (word_of_int (bitfield 24 20 w) :: u32) mod 32) = unat (word_of_int (bitfield 24 20 w) :: u32)"
proof -
  have "word_of_int (bitfield 24 20 w) AND (31 :: u32) = word_of_int (bitfield 24 20 w)"
    by (simp only: imm_I_shift [symmetric] and.assoc) simp
  from arg_cong [OF this, of unat] show ?thesis by (simp only: shift_amount)
qed

lemma execute_op_immediate_spec:
  assumes "function3 i = field w 12 7" and "function7 i = field w 25 127" "immediate i = word_of_int (imm_I w)"
  shows "map_option (\<lambda>v. (rd_of w, v)) (execute_op_immediate i a) = 
     (case decode_op_imm w of Some (ALUI oper rd rs1 imm) \<Rightarrow> Some (rd, alu_result oper a (word_of_int imm)) | _ \<Rightarrow> None)"
proof -
  have s: "nat (uint (word_of_int (bitfield 24 20 w) :: u32) mod 32) = nat (uint (word_of_int (imm_I w) :: u32) mod 32)"
    by (simp only: bitfield_shift) (simp only: shift_amount [symmetric] imm_I_shift)
  show ?thesis
  unfolding execute_op_immediate_def op_kind_def decode_op_imm_def Let_def assms function3_eq_iff function7_eq_iff
  by (simp add: alu_spec_simps s)
qed

definition abs_arch :: "cpu_state \<Rightarrow> memory \<Rightarrow> arch" where
  "abs_arch s m = \<lparr>xreg = (\<lambda>i. if i < 32 then reg s i else 0), xpc = program_counter s, xmem = cell m\<rparr>"

definition commit :: "decoded_instruction \<Rightarrow> step_locals \<Rightarrow> cpu_state \<Rightarrow> cpu_state" where
  "commit i l s = set_program_counter (next_pc l)
     (case destination_value l of None \<Rightarrow> s | Some v \<Rightarrow> set_reg (unat (destination i)) v s)"

definition outcome_of :: "decoded_instruction \<Rightarrow> cpu_state \<Rightarrow> execution_failure + step_locals \<times> memory \<Rightarrow> arch_outcome" where
  "outcome_of i s x = (case x of
     Inl f \<Rightarrow> Except (failure_cause f) (failure_value f)
   | Inr (l, m') \<Rightarrow> if instruction_supported l then Retire (abs_arch (commit i l s) m')
       else Except IllegalInstruction (raw i))"

lemma abs_arch_sel [simp]:
  "xpc (abs_arch s m) = program_counter s" "xmem (abs_arch s m) = cell m"
  "r < 32 \<Longrightarrow> xreg (abs_arch s m) r = reg s r"
  by (simp_all add: abs_arch_def)

lemma abs_arch_set_pc: "abs_arch (set_program_counter t s) m = go t (abs_arch s m)"
  by (auto simp: abs_arch_def go_def fun_eq_iff)

lemma abs_arch_set_reg:
  assumes "wf_cpu s" and "r < 32"
  shows "abs_arch (set_reg r v s) m = put_reg r v (abs_arch s m)"
  using assms by (auto simp: abs_arch_def put_reg_def reg_set_reg)

lemma next_seq_abs [simp]: "next_seq (abs_arch s m) = program_counter s + 4"
  by (simp add: next_seq_def)

lemma uint_mod_4: "uint (t :: u32) mod 4 = 0 \<longleftrightarrow> unat t mod 4 = 0"
proof -
  have "uint t mod 4 = int (unat t mod 4)" by (simp add: zmod_int)
  then show ?thesis by simp
qed

lemma rd_less: "rd_of w < 32" "rs1_of w < 32" "rs2_of w < 32"
  using field_register_less [of w 7] field_register_less [of w 15] field_register_less [of w 20] by simp_all

lemma even_target: "(a + word_of_int k) AND - 2 = 2 * (word_of_int ((uint a + k) div 2) :: u32)"
proof -
  have "(word_of_int y :: u32) AND NOT 1 = word_of_int (2 * (y div 2))" for y
  proof -
    have "bit (2 * (y div 2)) n \<longleftrightarrow> 0 < n \<and> bit y n" for n
      by (cases n) (simp_all add: bit_double_iff bit_Suc)
    then show ?thesis
      by (intro bit_word_eqI) (simp only: bit_word_of_int_iff bit_and_iff bit_not_iff bit_1_iff, auto)
  qed
  from this [of "uint a + k"] show ?thesis by simp
qed

text \<open>The fields of a decoded instruction, by its opcode.\<close>

lemma decoded_fields:
  assumes "decode_instruction w = Some i"
  shows "opcode i \<in> {Op} \<Longrightarrow> function7 i = field w 25 127 \<and> source2 i = field w 20 31"
    and "opcode i \<in> {Load, MiscMemory, OpImmediate, Jalr, System} \<Longrightarrow>
      function7 i = field w 25 127 \<and> immediate i = word_of_int (imm_I w)"
    and "opcode i \<in> {Op, Load, MiscMemory, OpImmediate, Jalr, System, Store, Branch} \<Longrightarrow>
      function3 i = field w 12 7 \<and> source1 i = field w 15 31"
    and "opcode i \<in> {Store, Branch} \<Longrightarrow> source2 i = field w 20 31"
    and "opcode i = Store \<Longrightarrow> immediate i = word_of_int (imm_S w)"
    and "opcode i = Branch \<Longrightarrow> immediate i = word_of_int (imm_B w)"
    and "opcode i = Jal \<Longrightarrow> immediate i = word_of_int (imm_J w)"
    and "opcode i \<in> {Lui, Auipc} \<Longrightarrow> immediate i = word_of_int (imm_U w)"
    and "opcode i \<notin> {Store, Branch} \<Longrightarrow> destination i = field w 7 31"
  using assms
  by (auto simp: decode_instruction_def Let_def default_instruction_def immediate_I immediate_S immediate_B
    immediate_U immediate_J split: option.splits instruction_format.splits elim!: format_for_opcode.elims)

definition spec_outcome :: "u32 \<Rightarrow> arch \<Rightarrow> arch_outcome" where
  "spec_outcome w A = (case rv_decode w of None \<Rightarrow> Except IllegalInstruction w | Some r \<Rightarrow> exec r A)"

lemma decoded_bitfield:
  "decode_instruction w = Some i \<Longrightarrow> bitfield 6 0 w = uint (opcode_value (opcode i))"
  by (simp add: opcode_bitfield [symmetric] decoded_opcode)

lemmas step_spec_simps = spec_outcome_def rv_decode_def Let_def execute_opcode_def outcome_of_def commit_def
  initial_locals_def abs_arch_set_pc abs_arch_set_reg rd_less

lemma op_upper:
  assumes "decode_instruction w = Some i" and "opcode i = Lui \<or> opcode i = Auipc" and "wf_cpu s"
    and "execute_opcode i (program_counter s) s m = Some x"
  shows "outcome_of i s x = spec_outcome w (abs_arch s m)"
  using assms decoded_bitfield [OF assms(1)] decoded_fields [OF assms(1)]
  by (auto simp: step_spec_simps)

lemma op_op:
  assumes "decode_instruction w = Some i" and "opcode i = Op" and "wf_cpu s"
    and "execute_opcode i (program_counter s) s m = Some x"
  shows "outcome_of i s x = spec_outcome w (abs_arch s m)"
  using assms decoded_bitfield [OF assms(1)] decoded_fields [OF assms(1)] execute_op_spec [of i w]
  by (auto simp: step_spec_simps decoded_raw)

lemma decode_op_imm_shape:
  "decode_op_imm w = Some r \<Longrightarrow> \<exists>oper imm. r = ALUI oper (rd_of w) (rs1_of w) imm"
  by (auto simp: decode_op_imm_def Let_def split: if_splits)

lemma execute_op_immediate_cases:
  assumes "function3 i = field w 12 7" and "function7 i = field w 25 127" "immediate i = word_of_int (imm_I w)"
  shows "execute_op_immediate i a = (case decode_op_imm w of Some (ALUI oper rd rs1 imm) \<Rightarrow>
     Some (alu_result oper a (word_of_int imm)) | _ \<Rightarrow> None)"
  using arg_cong [OF execute_op_immediate_spec [OF assms, of a], of "map_option snd"]
  by (auto simp: option.map_comp comp_def dest!: decode_op_imm_shape split: option.splits)

lemma op_imm:
  assumes "decode_instruction w = Some i" and "opcode i = OpImmediate" and "wf_cpu s"
    and "execute_opcode i (program_counter s) s m = Some x"
  shows "outcome_of i s x = spec_outcome w (abs_arch s m)"
  using assms decoded_bitfield [OF assms(1)] decoded_fields [OF assms(1)] 
  by (auto simp: step_spec_simps decoded_raw execute_op_immediate_cases [of i w] split: option.splits dest!: decode_op_imm_shape)

lemma op_misc:
  assumes "decode_instruction w = Some i" and "opcode i = MiscMemory \<or> opcode i = System" and "wf_cpu s"
    and "execute_opcode i (program_counter s) s m = Some x"
  shows "outcome_of i s x = spec_outcome w (abs_arch s m)"
  using assms decoded_bitfield [OF assms(1)] decoded_fields [OF assms(1)] function3_eq_iff [of w 0]
  by (auto simp: step_spec_simps decoded_raw kEcallInstruction_def kEbreakInstruction_def)

lemma op_jal:
  assumes "decode_instruction w = Some i" and "opcode i = Jal" and "wf_cpu s"
    and "execute_opcode i (program_counter s) s m = Some x"
  shows "outcome_of i s x = spec_outcome w (abs_arch s m)"
  using assms decoded_bitfield [OF assms(1)] decoded_fields [OF assms(1)]
  by (auto simp: step_spec_simps jump_to_def uint_mod_4 is_instruction_aligned_iff)

lemma op_jalr:
  assumes "decode_instruction w = Some i" and "opcode i = Jalr" and "wf_cpu s"
    and "execute_opcode i (program_counter s) s m = Some x"
  shows "outcome_of i s x = spec_outcome w (abs_arch s m)"
  using assms decoded_bitfield [OF assms(1)] decoded_fields [OF assms(1)] function3_eq_iff [of w 0]
  by (auto simp: step_spec_simps jump_to_def uint_mod_4 is_instruction_aligned_iff even_target decoded_raw)

lemma evaluate_branch_spec:
  assumes "function3 i = field w 12 7"
  shows "evaluate_branch i a b = map_option (\<lambda>c. branch_holds c a b) (branch_kind (bitfield 14 12 w))"
  unfolding evaluate_branch_def branch_kind_def Let_def assms function3_eq_iff
  by (auto simp: signed_less_than_iff word_less_def word_le_def)

lemma op_branch:
  assumes "decode_instruction w = Some i" and "opcode i = Branch" and "wf_cpu s"
    and "execute_opcode i (program_counter s) s m = Some x"
  shows "outcome_of i s x = spec_outcome w (abs_arch s m)"
proof (cases "branch_kind (bitfield 14 12 w)")
  case None
  then show ?thesis using assms decoded_bitfield [OF assms(1)] decoded_fields [OF assms(1)]
    by (auto simp: step_spec_simps decoded_raw evaluate_branch_spec [of i w])
next
  case (Some c)
  let ?a = "reg s (rs1_of w)" and ?b = "reg s (rs2_of w)"
  have "evaluate_branch i ?a ?b = Some (branch_holds c ?a ?b)"
    using Some decoded_fields [OF assms(1)] assms(2) by (simp add: evaluate_branch_spec [of i w])
  then show ?thesis using Some assms decoded_bitfield [OF assms(1)] decoded_fields [OF assms(1)]
    by (cases "branch_holds c ?a ?b") (auto simp: step_spec_simps jump_to_def uint_mod_4 is_instruction_aligned_iff)
qed

lemma le_value_range: "le_value f a n = Some v \<Longrightarrow> 0 \<le> v \<and> v < 256 ^ n"
proof (induction n arbitrary: a v)
  case (Suc n)
  obtain b where fa: "f a = Some b" using Suc.prems by (cases "f a") auto
  with Suc.prems obtain u where b: "v = uint b + 256 * u" "le_value f (a + 1) n = Some u" by auto
  have "uint b < 256" "0 \<le> uint b" using uint_lt2p [of b] by simp_all
  with b Suc.IH [OF b(2)] show ?case by simp
qed simp

lemma signed_value_eq:
  assumes "0 \<le> v" and "v < 2 ^ Suc n"
  shows "signed_take_bit n v = signed_value (Suc n) v"
proof (cases "v < 2 ^ n")
  case True
  have "- (2 ^ n) \<le> v" using assms(1) by (meson dual_order.trans neg_le_0_iff_le zero_le_numeral zero_le_power)
  with True show ?thesis by (simp add: signed_value_def signed_take_bit_int_eq_self)
next
  case False
  have "take_bit (Suc n) v = take_bit (Suc n) (v - 2 ^ Suc n)"
    by (simp only: take_bit_eq_mod minus_mod_self2)
  then have "signed_take_bit n v = signed_take_bit n (v - 2 ^ Suc n)"
    by (simp only: signed_take_bit_eq_iff_take_bit_eq)
  with False assms show ?thesis by (simp add: signed_value_def signed_take_bit_int_eq_self)
qed

lemma sint_word_of_int_8: "0 \<le> v \<Longrightarrow> v < 256 \<Longrightarrow> sint (word_of_int v :: u8) = signed_value 8 v"
  using signed_value_eq [of v 7] by (simp add: sint_sbintrunc')
  
lemma sint_word_of_int_16: "0 \<le> v \<Longrightarrow> v < 65536 \<Longrightarrow> sint (word_of_int v :: u16) = signed_value 16 v"
  using signed_value_eq [of v 15] by (simp add: sint_sbintrunc')

lemma uint_word_of_int_range:
  "0 \<le> v \<Longrightarrow> v < 256 \<Longrightarrow> uint (word_of_int v :: u8) = v"
  "0 \<le> v \<Longrightarrow> v < 65536 \<Longrightarrow> uint (word_of_int v :: u16) = v"
  by (simp_all add: unsigned_of_int take_bit_int_eq_self)

lemma le_extend:
  "le_value f a 1 = Some v \<Longrightarrow> sign_extend_byte (word_of_int v) = word_of_int (signed_value 8 v)"
  "le_value f a 2 = Some v \<Longrightarrow> sign_extend_halfword (word_of_int v) = word_of_int (signed_value 16 v)"
  "le_value f a 1 = Some v \<Longrightarrow> ucast (word_of_int v :: u8) = (word_of_int v :: u32)"
  "le_value f a 2 = Some v \<Longrightarrow> ucast (word_of_int v :: u16) = (word_of_int v :: u32)"
  by (drule le_value_range, simp add: sign_extend_byte_eq sign_extend_halfword_eq sint_word_of_int_8
      sint_word_of_int_16 uint_word_of_int_range del: word_of_int_uint, 
     (simp only: ucast_eq uint_word_of_int_range)?)+

lemma uint_mod_2: "uint (t :: u32) mod 2 = 0 \<longleftrightarrow> unat t mod 2 = 0"
proof -
  have "uint t mod 2 = int (unat t mod 2)" by (simp add: zmod_int)
  then show ?thesis by simp
qed

lemma execute_load_spec:
  assumes "function3 i = field w 12 7" and "raw i = w"
  shows "execute_load i m a = (case load_kind_of (bitfield 14 12 w) of
      None \<Rightarrow> Inl \<lparr>failure_cause = IllegalInstruction, failure_value = w\<rparr>
    | Some k \<Rightarrow>
        if uint a mod int (load_width k) \<noteq> 0
        then Inl \<lparr>failure_cause = LoadAddressMisaligned, failure_value = a\<rparr>
        else case le_value (cell m) a (load_width k) of
          None \<Rightarrow> Inl \<lparr>failure_cause = LoadAccessFault, failure_value = a\<rparr>
        | Some v \<Rightarrow> Inr (word_of_int (load_extend k v)))"
  unfolding execute_load_def load_kind_of_def assms function3_eq_iff
  by (auto simp: read8_le read16_le read32_le uint_mod_2 uint_mod_4 le_extend simp del: One_nat_def split: option.splits)

lemma op_load:
  assumes "decode_instruction w = Some i" and "opcode i = Load" and "wf_cpu s"
    and "execute_opcode i (program_counter s) s m = Some x"
  shows "outcome_of i s x = spec_outcome w (abs_arch s m)"
  using assms decoded_bitfield [OF assms(1)] decoded_fields [OF assms(1)] 
  by (auto simp: step_spec_simps decoded_raw execute_load_spec [of i w] split: option.splits sum.splits if_splits)

lemma byte_of_uint:
  fixes v :: u32
  shows "byte_of k v = word_of_int (uint v div 256 ^ k)"
proof -
  have "byte_of k v = word_of_int (drop_bit (8 * k) (uint v))"
    by (rule bit_word_eqI) (auto simp: byte_of_def bit_simps ac_simps)
  then show ?thesis by (simp add: drop_bit_eq_div power_mult)
qed

lemma byte_of_ucast: "k = 0 \<Longrightarrow> byte_of k (ucast (v AND 255) :: u8) = byte_of k v"
  "k < 2 \<Longrightarrow> byte_of k (ucast (v AND 65535) :: u16) = byte_of k (v :: u32)"
  by (rule bit_word_eqI; auto simp: byte_of_def bit_simps mask_simps dest: less_2_cases)+

lemma write_le:
  fixes v :: u32
  shows "write8 m a (ucast (v AND 255)) = Inr m' \<Longrightarrow> cell m' = le_store (cell m) a 1 (uint v)"
    and "write16 m a (ucast (v AND 65535)) = Inr m' \<Longrightarrow> cell m' = le_store (cell m) a 2 (uint v)"
    and "write32 m a v = Inr m' \<Longrightarrow> cell m' = le_store (cell m) a 4 (uint v)"
proof -
  have b0: "ucast (v AND 255) = byte_of 0 v" by (rule byte_of_low)
  show "write8 m a (ucast (v AND 255)) = Inr m' \<Longrightarrow> cell m' = le_store (cell m) a 1 (uint v)"
    by (auto simp: fun_eq_iff cell_write8 le_store_eq byte_of_uint b0 unat_eq_0
      simp del: One_nat_def le_store.simps)
qed (auto simp: fun_eq_iff cell_write16 cell_write32 le_store_eq byte_of_ucast
      byte_of_uint [symmetric] simp del: le_store.simps)

lemma write_mapped:
  "mapped m a 1 \<longleftrightarrow> le_value (cell m) a 1 \<noteq> None"
  "unat a mod 2 = 0 \<Longrightarrow> mapped m a 2 \<longleftrightarrow> le_value (cell m) a 2 \<noteq> None"
  "unat a mod 4 = 0 \<Longrightarrow> mapped m a 4 \<longleftrightarrow> le_value (cell m) a 4 \<noteq> None"
  using le_value_cell [of a 1 m] le_value_cell [of a 2 m] le_value_cell [of a 4 m] by auto

text \<open>A store succeeds exactly when it is aligned and mapped; its error tells which.\<close>

lemma write_outcome:
  "write8 m a b = Inl f \<longleftrightarrow> le_value (cell m) a 1 = None \<and> f = MemoryOutOfBoundsError a 1 Write"
  "write16 m a h = Inl f \<longleftrightarrow>
     (if unat a mod 2 \<noteq> 0 then f = MemoryMisalignmentError a 2 Write
      else le_value (cell m) a 2 = None \<and> f = MemoryOutOfBoundsError a 2 Write)"
  "write32 m a v = Inl f \<longleftrightarrow>
     (if unat a mod 4 \<noteq> 0 then f = MemoryMisalignmentError a 4 Write
      else le_value (cell m) a 4 = None \<and> f = MemoryOutOfBoundsError a 4 Write)"
  using write_mapped(1) [of m a] write_mapped(2) [of a m] write_mapped(3) [of a m]
  by (auto simp: write8_def write16_def write32_def checked_offset_eq check_alignment_eq simp del: One_nat_def)

definition store_spec :: "store_kind \<Rightarrow> u32 \<Rightarrow> u32 \<Rightarrow> u32 \<Rightarrow> arch \<Rightarrow> arch_outcome" where
  "store_spec k a v t A =
     (if uint a mod int (store_width k) \<noteq> 0 then Except StoreAddressMisaligned a
      else case le_value (xmem A) a (store_width k) of
        None \<Rightarrow> Except StoreAccessFault a
      | Some _ \<Rightarrow> Retire (go t (A\<lparr>xmem := le_store (xmem A) a (store_width k) (uint v)\<rparr>)))"

definition stored :: "u32 \<Rightarrow> cpu_state \<Rightarrow> execution_failure + memory \<Rightarrow> arch_outcome" where
  "stored t s x = (case x of
      Inl f \<Rightarrow> Except (failure_cause f) (failure_value f)
    | Inr m' \<Rightarrow> Retire (go t (abs_arch s m')))"

lemma stored_eq:
  assumes "store_width k = n"
    and "\<And>f. x = Inl f \<Longrightarrow> f = (if uint a mod int n \<noteq> 0 then MemoryMisalignmentError a n Write
        else MemoryOutOfBoundsError a n Write)"
    and "(\<exists>m'. x = Inr m') \<longleftrightarrow> uint a mod int n = 0 \<and> le_value (cell m) a n \<noteq> None"
    and "\<And>m'. x = Inr m' \<Longrightarrow> cell m' = le_store (cell m) a n (uint v)"
  shows "stored t s (map_sum (store_fault a) id x) = store_spec k a v t (abs_arch s m)"
proof (cases x)
  case (Inl f)
  with assms(1,3) assms(2) [of f] show ?thesis by (auto simp: stored_def store_spec_def)
next
  case (Inr m')
  with assms(1,3) assms(4) [of m'] show ?thesis by (auto simp: stored_def store_spec_def abs_arch_def)
qed

lemma stored_writes:
  "stored t s (map_sum (store_fault a) id (write8 m a (ucast (v AND 255)))) = store_spec Sb a v t (abs_arch s m)"
  "stored t s (map_sum (store_fault a) id (write16 m a (ucast (v AND 65535)))) = store_spec Sh a v t (abs_arch s m)"
  "stored t s (map_sum (store_fault a) id (write32 m a v)) = store_spec Sw a v t (abs_arch s m)"
proof -
  show "stored t s (map_sum (store_fault a) id (write8 m a (ucast (v AND 255)))) = store_spec Sb a v t (abs_arch s m)"
    by (rule stored_eq [where n = 1])
      (auto simp: write8_eq_Inr_iff write_mapped write_le simp del: One_nat_def le_value.simps le_store.simps
        dest!: write8_error)
  show "stored t s (map_sum (store_fault a) id (write16 m a (ucast (v AND 65535)))) = store_spec Sh a v t (abs_arch s m)"
    by (rule stored_eq [where n = 2], use write_mapped(2) [of a m] in
      \<open>auto simp: write16_eq_Inr_iff write_le uint_mod_2 dest!: write16_error\<close>)
  show "stored t s (map_sum (store_fault a) id (write32 m a v)) = store_spec Sw a v t (abs_arch s m)"
    by (rule stored_eq [where n = 4], use write_mapped(3) [of a m] in
      \<open>auto simp: write32_eq_Inr_iff write_le uint_mod_4 dest!: write32_error\<close>)
qed

lemma execute_store_spec:
  assumes "function3 i = field w 12 7" and "raw i = w"
  shows "stored t s (execute_store i m a v) = 
   (case store_kind_of (bitfield 14 12 w) of
      None \<Rightarrow> Except IllegalInstruction w
    | Some k \<Rightarrow> store_spec k a v t (abs_arch s m))"
  unfolding execute_store_def store_kind_of_def assms function3_eq_iff
  by (simp add: stored_writes)  (simp add: stored_def)

lemma op_store:
  assumes "decode_instruction w = Some i" and "opcode i = Store" and "wf_cpu s"
    and "execute_opcode i (program_counter s) s m = Some x"
  shows "outcome_of i s x = spec_outcome w (abs_arch s m)"
proof -
  let ?a = "reg s (rs1_of w) + word_of_int (imm_S w)" and ?b = "reg s (rs2_of w)"
  have f: "function3 i = field w 12 7" "source1 i = field w 15 31" "source2 i = field w 20 31"
     "immediate i = word_of_int (imm_S w)" using assms(2) decoded_fields [OF assms(1)] by simp_all
  have "outcome_of i s x = stored (program_counter s + 4) s (execute_store i m ?a ?b)"
    using assms(2,4) by (auto simp: stored_def execute_opcode_def f rd_less Let_def outcome_of_def commit_def initial_locals_def
       abs_arch_set_pc split: sum.splits)
  also have "\<dots> = spec_outcome w (abs_arch s m)"
    using decoded_bitfield [OF assms(1)] assms(2)
    by (simp add: execute_store_spec [OF f(1) decoded_raw [OF assms(1)]] spec_outcome_def rv_decode_def rd_less store_spec_def
      Let_def split: option.splits)
  finally show ?thesis .
qed

lemma opcode_outcome:
  assumes "decode_instruction w = Some i" and "wf_cpu s"
    and "execute_opcode i (program_counter s) s m = Some x"
  shows "outcome_of i s x = spec_outcome w (abs_arch s m)"
  using op_upper [OF assms(1) _ assms(2,3)] op_op [OF assms(1) _ assms(2,3)]
    op_imm [OF assms(1) _ assms(2,3)] op_misc [OF assms(1) _ assms(2,3)]
    op_jal [OF assms(1) _ assms(2,3)] op_jalr [OF assms(1) _ assms(2,3)]
    op_branch [OF assms(1) _ assms(2,3)] op_load [OF assms(1) _ assms(2,3)]
    op_store [OF assms(1) _ assms(2,3)]
  by (cases "opcode i") simp_all

lemma rv_decode_None: "decode_instruction w = None \<Longrightarrow> rv_decode w = None"
proof -
  assume "decode_instruction w = None"
  then have n: "\<And>opc. bitfield 6 0 w \<noteq> uint (opcode_value opc)"
    by (auto simp: decode_instruction_def opcode_bitfield [symmetric] Let_def split: option.splits)
  have "w \<noteq> 0x73" "w \<noteq> 0x100073" using n [of System] by (auto simp: bitfield_def)
  with n [of Load] n [of MiscMemory] n [of OpImmediate] n [of Auipc] n [of Store] n [of Op] n [of Lui]
    n [of Branch] n [of Jalr] n [of Jal]
  show ?thesis by (simp add: rv_decode_def Let_def)
qed

definition abs_engine :: "'o engine \<Rightarrow> arch" where
  "abs_engine e = abs_arch (state e) (memory_of e)"

fun observed_outcome :: "step_result \<times> 'o engine \<Rightarrow> arch_outcome" where
  "observed_outcome (StepCompleted _, e') = Retire (abs_engine e')"
| "observed_outcome (StepTrapped t, _) = Except (cause t) (trap_value t)"

lemma arch_step_eq:
  "arch_step (abs_arch s m) = (if unat (program_counter s) mod 4 \<noteq> 0 then Except InstructionAddressMisaligned (program_counter s)
     else case read32 m (program_counter s) of Inl _ \<Rightarrow> Except InstructionAccessFault (program_counter s)
       | Inr w \<Rightarrow> spec_outcome w (abs_arch s m))"
  by (auto simp: arch_step_def read32_le uint_mod_4 spec_outcome_def split: option.splits)

lemma step_refines:
  assumes "wf_cpu (state e)" and "step obs e = Some r"
  shows "observed_outcome r = arch_step (abs_engine e)"
proof -
  let ?pc = "program_counter (state e)"
  show ?thesis
  proof (cases "unat ?pc mod 4 = 0")
    case False
    then show ?thesis using assms(2)
      by (auto simp: step_def Let_def and_3_eq_0_iff abs_engine_def arch_step_eq instruction_trap_def)
  next
    case al: True
    show ?thesis
    proof (cases "read32 (memory_of e) ?pc")
      case (Inl f)
      then show ?thesis using assms(2) al
        by (auto simp: step_def Let_def and_3_eq_0_iff abs_engine_def arch_step_eq instruction_trap_def)
    next
      case rd: (Inr w)
      show ?thesis
      proof (cases "decode_instruction w")
        case None
        then show ?thesis using assms(2) al rd rv_decode_None [OF None]
          by (auto simp: step_def Let_def and_3_eq_0_iff abs_engine_def arch_step_eq instruction_trap_def spec_outcome_def)
      next
        case (Some i)
        from execute_opcode_total [OF Some] obtain x
          where x: "execute_opcode i ?pc (state e) (memory_of e) = Some x" by blast
        have "observed_outcome r = outcome_of i (state e) x"
          using assms(2) al rd Some x decoded_indices [OF Some] decoded_raw [OF Some]
          by (auto simp: step_def Let_def and_3_eq_0_iff abs_engine_def instruction_trap_def outcome_of_def commit_def
            split: sum.splits option.splits if_splits)
        then show ?thesis
          using opcode_outcome [OF Some assms(1) x] al rd by (simp add: abs_engine_def arch_step_eq)
      qed
    qed
  qed
qed

section \<open>Runs\<close>

fun arch_run :: "nat \<Rightarrow> arch \<Rightarrow> arch_outcome" where
  "arch_run 0 A = Retire A"
| "arch_run (Suc n) A = (case arch_step A of Retire A' \<Rightarrow> arch_run n A' | Except c v \<Rightarrow> Except c v)"

lemma completes_refines:
  "completes obs e ob e' \<Longrightarrow> wf_cpu (state e) \<Longrightarrow> arch_step (abs_engine e) = Retire (abs_engine e')"
  by (simp add: step_refines [where obs = obs and r = "(StepCompleted ob, e')", symmetric]
      step_completed_iff)

lemma retires_refines:
  assumes "retires obs e tr e'" and "wf_cpu (state e)"
  shows "arch_run (length tr) (abs_engine e) = Retire (abs_engine e')"
  using assms
  by (induction rule: retires.induct) (auto simp: completes_refines completes_wf_cpu)

section \<open>Properties\<close>

text \<open>
  C20: the decoder agrees with the instruction formats of the architecture: the opcode, the
  register numbers and the sign-extended immediate of a decoded instruction are the weighted bit
  fields of its word.
\<close>

theorem decode_fields:
  assumes "decode_instruction w = Some i"
  shows "raw i = w \<and> bitfield 6 0 w = uint (opcode_value (opcode i)) \<and>
    immediate i = (case format_for_opcode (opcode i) of
        FormatR \<Rightarrow> 0
      | FormatI \<Rightarrow> word_of_int (imm_I w) | FormatS \<Rightarrow> word_of_int (imm_S w)
      | FormatB \<Rightarrow> word_of_int (imm_B w) | FormatU \<Rightarrow> word_of_int (imm_U w)
      | FormatJ \<Rightarrow> word_of_int (imm_J w)) \<and>
    unat (destination i) = (if format_for_opcode (opcode i) \<in> {FormatS, FormatB} then 0 else rd_of w) \<and>
    unat (source1 i) = (if format_for_opcode (opcode i) \<in> {FormatU, FormatJ} then 0 else rs1_of w) \<and>
    unat (source2 i) = (if format_for_opcode (opcode i) \<in> {FormatR, FormatS, FormatB} then rs2_of w else 0)"
proof -
  have "decode_opcode w = Some (opcode i)" using assms by (rule decoded_opcode)
  with assms decoded_raw [OF assms] decoded_bitfield [OF assms] show ?thesis
    by (cases "opcode i") (auto simp: decode_instruction_def Let_def default_instruction_def
        immediate_I immediate_S immediate_B immediate_U immediate_J)
qed

lemma decode_fields_witness:
  "unat (destination (the (decode_instruction 0xFFF28313))) = 6 \<and>
   immediate (the (decode_instruction 0xFFF28313)) = - 1"
proof -
  obtain i where i: "decode_instruction 0xFFF28313 = Some i" "opcode i = OpImmediate"
  proof -
    have "map_option opcode (decode_instruction 0xFFF28313) = Some OpImmediate" by code_simp
    then show thesis using that by auto
  qed
  have "rd_of 0xFFF28313 = 6" "imm_I 0xFFF28313 = - 1" by code_simp+
  with decode_fields [OF i(1)] i show ?thesis by simp
qed

text \<open>
  C1: one step is one step of the RV32IM architecture. From a well-formed processor the engine
  retires an instruction exactly if the architecture does, with the same registers, program
  counter and memory, and otherwise traps with the architecture's cause and value.
\<close>

theorem step_implements_isa:
  assumes "wf_cpu (state e)"
  shows "\<exists>r e'. step obs e = Some (r, e') \<and>
    observed_outcome (r, e') = arch_step (abs_engine e)"
proof -
  obtain r e' where "step obs e = Some (r, e')" by (rule step_total)
  with step_refines [OF assms this] show ?thesis by blast
qed

lemma step_implements_isa_witness:
  "\<exists>r e'. step None (sample_engine ()) = Some (r, e') \<and>
    observed_outcome (r, e') = arch_step (abs_engine (sample_engine ()))"
  by (rule step_implements_isa) (simp add: sample_engine_def)

lemma arch_run_snoc:
  "arch_run n A = Retire A' \<Longrightarrow> arch_run (Suc n) A = arch_step A'"
proof (induction n arbitrary: A)
  case 0
  then show ?case by (simp split: arch_outcome.split)
next
  case (Suc n)
  from Suc.prems obtain B where B: "arch_step A = Retire B" "arch_run n B = Retire A'"
    by (auto split: arch_outcome.splits)
  from Suc.IH [OF B(2)] have "arch_run (Suc n) B = arch_step A'" .
  with B(1) show ?case by simp
qed

text \<open>
  C16: a bounded run implements the architecture: after \<open>n\<close> retired instructions its state is
  the architecture's after \<open>n\<close> steps, and a trap is the exception of the architecture's next step.
\<close>

theorem run_implements_isa:
  assumes "wf_cpu (state e)"
  shows "\<exists>r e'. run obs limit e = Some (r, e') \<and> (case r of
      InstructionLimitReached n \<Rightarrow> n = limit \<and> arch_run n (abs_engine e) = Retire (abs_engine e')
    | RunTrapped n t \<Rightarrow> n < limit \<and> arch_run n (abs_engine e) = Retire (abs_engine e') \<and>
        arch_run (Suc n) (abs_engine e) = Except (cause t) (trap_value t))"
proof (cases rule: run_cases [of obs limit e])
  case (limit tr e')
  with retires_refines [OF limit(2) assms] show ?thesis by auto
next
  case (trap tr e' t)
  note end' = retires_refines [OF trap(2) assms]
  have "wf_cpu (state e')" using trap(2) assms by (rule retires_wf_cpu)
  from step_refines [OF this trap(4)] arch_run_snoc [OF end']
  have "arch_run (Suc (length tr)) (abs_engine e) = Except (cause t) (trap_value t)" by simp
  with trap end' show ?thesis by (simp del: arch_run.simps)
qed

lemma run_implements_isa_witness:
  "\<exists>t e'. run None 5 (sample_engine ()) = Some (RunTrapped 2 t, e') \<and>
     arch_run 3 (abs_engine (sample_engine ())) = Except EnvironmentCallFromUserMode (trap_value t)"
proof -
  have wf: "wf_cpu (state (sample_engine ()))" by (simp add: sample_engine_def)
  from run_implements_isa [OF wf, of None 5] obtain r e' where
    r: "run None 5 (sample_engine ()) = Some (r, e')" and isa: "case r of
      InstructionLimitReached n \<Rightarrow> n = 5 \<and>
        arch_run n (abs_engine (sample_engine ())) = Retire (abs_engine e')
    | RunTrapped n t \<Rightarrow> n < 5 \<and>
        arch_run n (abs_engine (sample_engine ())) = Retire (abs_engine e') \<and>
        arch_run (Suc n) (abs_engine (sample_engine ())) = Except (cause t) (trap_value t)"
    by blast
  have "map_option fst (run None 5 (sample_engine ())) = Some (RunTrapped 2
    \<lparr>cause = EnvironmentCallFromUserMode, trap_program_counter = 8, trap_value = 0\<rparr>)"
    by code_simp
  with r have "r = RunTrapped 2
    \<lparr>cause = EnvironmentCallFromUserMode, trap_program_counter = 8, trap_value = 0\<rparr>" by simp
  with r isa show ?thesis by (auto simp: numeral_3_eq_3 simp del: arch_run.simps)
qed

end
