(* ===== verification/Program_Session.thy ===== *)
theory Program_Session
  imports Execution_Engine
begin

text \<open>
  A running program: \<^verbatim>\<open>class ProgramSession\<close> of
  \<^verbatim>\<open>include/rvemu/program_session.hpp\<close> and
  \<^verbatim>\<open>src/program_session.cpp\<close>. A session owns an engine and an environment that
  handles its environment calls. The environment is the interface
  \<^verbatim>\<open>EnvironmentCallHandler\<close>: any state \<open>'h\<close> with a function that answers a call
  from the memory, where \<open>None\<close> is an exception that escapes the handler. The counters of
  the statistics keep their 64 bits.
\<close>

section \<open>Data\<close>

definition kArgumentCount :: nat where
  "kArgumentCount = 6"

record environment_call =
  call_program_counter :: u32
  number :: u32
  arguments :: "u32 list"

datatype environment_call_result =
    EnvironmentCallResume u32
  | EnvironmentCallExit u32
  | EnvironmentCallNotHandled

type_synonym 'h handler =
  "environment_call \<Rightarrow> memory \<Rightarrow> 'h \<Rightarrow> (environment_call_result \<times> 'h) option"

datatype session_step_result =
    SessionInstructionCompleted execution_observation
  | SessionEnvironmentCallResumed environment_call u32 u32
  | SessionExited environment_call u32
  | SessionUnhandledEnvironmentCall environment_call trap
  | SessionTrap trap

record session_statistics =
  guest_steps :: u64
  instructions_retired :: u64
  environment_calls_handled :: u64

datatype session_run_result =
    SessionStepLimitReached session_statistics
  | SessionBreakpointReached session_statistics u32
  | SessionRunExited session_statistics environment_call u32
  | SessionRunUnhandledEnvironmentCall session_statistics environment_call trap
  | SessionRunTrapped session_statistics trap

record ('o, 'h) session =
  engine_of :: "'o engine"
  environment :: 'h

definition kReturnValueRegister :: nat where "kReturnValueRegister = 10"
definition kFirstArgumentRegister :: nat where "kFirstArgumentRegister = 10"
definition kEnvironmentCallNumberRegister :: nat where "kEnvironmentCallNumberRegister = 17"
definition kInstructionSize :: u32 where "kInstructionSize = 4"

lemmas session_constants = kArgumentCount_def kReturnValueRegister_def kFirstArgumentRegister_def
  kEnvironmentCallNumberRegister_def kInstructionSize_def

section \<open>One step\<close>

definition contains_breakpoint :: "u32 list \<Rightarrow> u32 \<Rightarrow> bool" where
  "contains_breakpoint breakpoints pc \<longleftrightarrow> List.member breakpoints pc"

definition capture_environment_call :: "cpu_state \<Rightarrow> u32 \<Rightarrow> environment_call option" where
  "capture_environment_call s pc = do {
     n \<leftarrow> read_register s kEnvironmentCallNumberRegister;
     args \<leftarrow> those (map (\<lambda>index. read_register s (kFirstArgumentRegister + index))
       [0..<kArgumentCount]);
     Some \<lparr>call_program_counter = pc, number = n, arguments = args\<rparr>
   }"

definition session_step ::
  "'o observe \<Rightarrow> 'h handler \<Rightarrow> ('o, 'h) session \<Rightarrow> (session_step_result \<times> ('o, 'h) session) option"
  where
  "session_step obs handle s = do {
     (r, e) \<leftarrow> step obs (engine_of s);
     let s = s\<lparr>engine_of := e\<rparr>;
     case r of
       StepCompleted ob \<Rightarrow> Some (SessionInstructionCompleted ob, s)
     | StepTrapped t \<Rightarrow>
         if cause t \<noteq> EnvironmentCallFromUserMode then Some (SessionTrap t, s)
         else do {
           call \<leftarrow> capture_environment_call (state e) (trap_program_counter t);
           (answer, h) \<leftarrow> handle call (memory_of e) (environment s);
           let s = s\<lparr>environment := h\<rparr>;
           case answer of
             EnvironmentCallResume v \<Rightarrow> do {
               cpu \<leftarrow> write_register (state e) kReturnValueRegister v;
               let cpu = advance_program_counter kInstructionSize cpu;
               Some (SessionEnvironmentCallResumed call v (program_counter cpu),
                 s\<lparr>engine_of := e\<lparr>state := cpu\<rparr>\<rparr>)
             }
           | EnvironmentCallExit code \<Rightarrow> Some (SessionExited call code, s)
           | EnvironmentCallNotHandled \<Rightarrow> Some (SessionUnhandledEnvironmentCall call t, s)
         }
   }"

section \<open>Bounded runs with breakpoints\<close>

definition count_instruction :: "session_statistics \<Rightarrow> session_statistics" where
  "count_instruction st = st\<lparr>guest_steps := guest_steps st + 1,
     instructions_retired := instructions_retired st + 1\<rparr>"

definition count_call :: "session_statistics \<Rightarrow> session_statistics" where
  "count_call st = st\<lparr>guest_steps := guest_steps st + 1,
     environment_calls_handled := environment_calls_handled st + 1\<rparr>"

lemma guest_steps_count [simp]:
  "guest_steps (count_instruction st) = guest_steps st + 1"
  "guest_steps (count_call st) = guest_steps st + 1"
  by (simp_all add: count_instruction_def count_call_def)

function session_run_loop ::
  "'o observe \<Rightarrow> 'h handler \<Rightarrow> u64 \<Rightarrow> u32 list \<Rightarrow> session_statistics \<Rightarrow> ('o, 'h) session \<Rightarrow>
    (session_run_result \<times> ('o, 'h) session) option" where
  "session_run_loop obs handle step_limit breakpoints st s =
     (if guest_steps st < step_limit then
        (let pc = program_counter (state (engine_of s))
         in if contains_breakpoint breakpoints pc
            then Some (SessionBreakpointReached st pc, s)
            else case session_step obs handle s of
              None \<Rightarrow> None
            | Some (SessionInstructionCompleted _, s') \<Rightarrow>
                session_run_loop obs handle step_limit breakpoints (count_instruction st) s'
            | Some (SessionEnvironmentCallResumed _ _ _, s') \<Rightarrow>
                session_run_loop obs handle step_limit breakpoints (count_call st) s'
            | Some (SessionExited call code, s') \<Rightarrow>
                Some (SessionRunExited (count_call st) call code, s')
            | Some (SessionUnhandledEnvironmentCall call t, s') \<Rightarrow>
                Some (SessionRunUnhandledEnvironmentCall st call t, s')
            | Some (SessionTrap t, s') \<Rightarrow> Some (SessionRunTrapped st t, s'))
      else Some (SessionStepLimitReached st, s))"
  by pat_completeness auto
termination
  by (relation "measure (\<lambda>(obs, handle, limit, bps, st, s). unat limit - unat (guest_steps st))")
    (auto simp: unat_increment word_less_nat_alt)

declare session_run_loop.simps [simp del]

definition initial_statistics :: session_statistics where
  "initial_statistics =
     \<lparr>guest_steps = 0, instructions_retired = 0, environment_calls_handled = 0\<rparr>"

definition session_run ::
  "'o observe \<Rightarrow> 'h handler \<Rightarrow> u64 \<Rightarrow> u32 list \<Rightarrow> ('o, 'h) session \<Rightarrow>
    (session_run_result \<times> ('o, 'h) session) option" where
  "session_run obs handle step_limit breakpoints s =
     session_run_loop obs handle step_limit breakpoints initial_statistics s"

section \<open>What a step of a session does\<close>

text \<open>The call the code captures: the number is in x17, the arguments in x10 to x15.\<close>

definition call_of :: "cpu_state \<Rightarrow> environment_call" where
  "call_of s = \<lparr>call_program_counter = program_counter s, number = reg s 17,
     arguments = map (reg s) [10..<16]\<rparr>"

lemma capture_environment_call_eq:
  "capture_environment_call s (program_counter s) = Some (call_of s)"
  by (simp add: capture_environment_call_def call_of_def session_constants upt_rec
      numeral_eq_Suc)

text \<open>
  The two steps after which a session goes on: an instruction is retired, or an environment
  call is answered with a value. \<open>session_event\<close> is what happened.
\<close>

datatype session_event = Retired execution_observation | Answered environment_call u32

definition resume :: "u32 \<Rightarrow> cpu_state \<Rightarrow> cpu_state" where
  "resume v s = set_program_counter (program_counter s + 4) (set_reg 10 v s)"

inductive advances ::
  "'o observe \<Rightarrow> 'h handler \<Rightarrow> ('o, 'h) session \<Rightarrow> session_event \<Rightarrow> ('o, 'h) session \<Rightarrow> bool"
  for obs handle where
  advances_retire: "completes obs (engine_of s) ob e' \<Longrightarrow>
     advances obs handle s (Retired ob) (s\<lparr>engine_of := e'\<rparr>)"
| advances_answer: "\<lbrakk> step obs (engine_of s) = Some (StepTrapped t, engine_of s);
     cause t = EnvironmentCallFromUserMode;
     handle (call_of (state (engine_of s))) (memory_of (engine_of s)) (environment s)
       = Some (EnvironmentCallResume v, h') \<rbrakk>
   \<Longrightarrow> advances obs handle s (Answered (call_of (state (engine_of s))) v)
        (s\<lparr>engine_of := (engine_of s)\<lparr>state := resume v (state (engine_of s))\<rparr>,
          environment := h'\<rparr>)"

inductive_cases advances_RetiredE: "advances obs handle s (Retired ob) s'"
inductive_cases advances_AnsweredE: "advances obs handle s (Answered call v) s'"

lemma wf_cpu_resume [simp]: "wf_cpu s \<Longrightarrow> wf_cpu (resume v s)"
  by (simp add: resume_def wf_cpu_set_reg)

lemma program_counter_resume [simp]: "program_counter (resume v s) = program_counter s + 4"
  by (simp add: resume_def)

lemma advance_eq: "advance_program_counter 4 s = set_program_counter (program_counter s + 4) s"
  by (simp add: advance_program_counter_def set_program_counter_def)

text \<open>The answer of the handler to the call an engine stopped at.\<close>

definition answer_of :: "'h handler \<Rightarrow> ('o, 'h) session \<Rightarrow> (environment_call_result \<times> 'h) option"
  where
  "answer_of handle s =
     handle (call_of (state (engine_of s))) (memory_of (engine_of s)) (environment s)"

lemma session_step_trap:
  assumes "step obs (engine_of s) = Some (StepTrapped t, engine_of s)"
  shows "session_step obs handle s =
    (if cause t \<noteq> EnvironmentCallFromUserMode then Some (SessionTrap t, s)
     else case answer_of handle s of
       None \<Rightarrow> None
     | Some (EnvironmentCallResume v, h') \<Rightarrow>
         Some (SessionEnvironmentCallResumed (call_of (state (engine_of s))) v
             (program_counter (state (engine_of s)) + 4),
           s\<lparr>engine_of := (engine_of s)\<lparr>state := resume v (state (engine_of s))\<rparr>,
             environment := h'\<rparr>)
     | Some (EnvironmentCallExit code, h') \<Rightarrow>
         Some (SessionExited (call_of (state (engine_of s))) code, s\<lparr>environment := h'\<rparr>)
     | Some (EnvironmentCallNotHandled, h') \<Rightarrow>
         Some (SessionUnhandledEnvironmentCall (call_of (state (engine_of s))) t,
           s\<lparr>environment := h'\<rparr>))"
proof -
  have "trap_program_counter t = program_counter (state (engine_of s))"
    using step_trapped [OF assms] by simp
  then show ?thesis
    using assms
    by (auto simp: session_step_def answer_of_def capture_environment_call_eq advance_eq resume_def
        kReturnValueRegister_def kInstructionSize_def
        split: environment_call_result.splits option.splits)
qed

lemma session_step_completed:
  assumes "step obs (engine_of s) = Some (StepCompleted ob, e')"
  shows "session_step obs handle s = Some (SessionInstructionCompleted ob, s\<lparr>engine_of := e'\<rparr>)"
  using assms by (simp add: session_step_def)

lemma session_step_cases [case_names retired answered exited unhandled trapped escaped]:
  obtains
    (retired) ob s' where "advances obs handle s (Retired ob) s'"
      "session_step obs handle s = Some (SessionInstructionCompleted ob, s')"
  | (answered) call v s' where "advances obs handle s (Answered call v) s'"
      "session_step obs handle s = Some (SessionEnvironmentCallResumed call v
         (program_counter (state (engine_of s'))), s')"
  | (exited) code h' t where "answer_of handle s = Some (EnvironmentCallExit code, h')"
      "session_step obs handle s =
        Some (SessionExited (call_of (state (engine_of s))) code, s\<lparr>environment := h'\<rparr>)"
      "step obs (engine_of s) = Some (StepTrapped t, engine_of s)"
      "cause t = EnvironmentCallFromUserMode"
  | (unhandled) t h' where "answer_of handle s = Some (EnvironmentCallNotHandled, h')"
      "session_step obs handle s = Some (SessionUnhandledEnvironmentCall
         (call_of (state (engine_of s))) t, s\<lparr>environment := h'\<rparr>)"
      "step obs (engine_of s) = Some (StepTrapped t, engine_of s)"
      "cause t = EnvironmentCallFromUserMode"
  | (trapped) t where "step obs (engine_of s) = Some (StepTrapped t, engine_of s)"
      "cause t \<noteq> EnvironmentCallFromUserMode" "session_step obs handle s = Some (SessionTrap t, s)"
  | (escaped) "answer_of handle s = None" "session_step obs handle s = None"
proof (cases obs "engine_of s" rule: step_outcomes)
  case (completed ob e')
  then show thesis
    using retired [of ob] session_step_completed [OF completed(1)] advances_retire by blast
next
  case (trapped t)
  note tr = trapped(1)
  note st = session_step_trap [OF tr, of handle]
  show thesis
  proof (cases "cause t = EnvironmentCallFromUserMode")
    case False
    with tr st that(5) show thesis by simp
  next
    case ec: True
    show thesis
    proof (cases "answer_of handle s")
      case None
      with st ec that(6) show thesis by simp
    next
      case (Some p)
      obtain r h' where p: "p = (r, h')" by (cases p)
      show thesis
      proof (cases r)
        case (EnvironmentCallResume v)
        then show thesis
          using answered [OF advances_answer [OF tr ec]] st Some p ec
          by (simp add: answer_of_def)
      next
        case (EnvironmentCallExit code)
        then show thesis using that(3) st Some p ec tr by simp
      next
        case EnvironmentCallNotHandled
        then show thesis using that(4) st Some p ec tr by simp
      qed
    qed
  qed
qed

section \<open>What a session preserves\<close>

lemma advances_wf_cpu:
  "advances obs handle s ev s' \<Longrightarrow> wf_cpu (state (engine_of s)) \<Longrightarrow> wf_cpu (state (engine_of s'))"
  by (auto elim!: advances.cases dest: completes_wf_cpu)

lemma advances_region:
  "advances obs handle s ev s' \<Longrightarrow> same_region (memory_of (engine_of s)) (memory_of (engine_of s'))"
  by (auto elim!: advances.cases dest: completes_region)

lemma advances_aligned:
  assumes "advances obs handle s ev s'" and "unat (program_counter (state (engine_of s))) mod 4 = 0"
  shows "unat (program_counter (state (engine_of s'))) mod 4 = 0"
  using assms by (auto elim!: advances.cases dest: completes_aligned simp: unat_add_4_mod_4)

text \<open>An answered call changes the program counter, x10 and the handler, nothing else.\<close>

lemma answered_call:
  assumes "advances obs handle s (Answered call v) s'"
  shows "call = call_of (state (engine_of s))"
    and "engine_of s' = (engine_of s)\<lparr>state := resume v (state (engine_of s))\<rparr>"
    and "answer_of handle s = Some (EnvironmentCallResume v, environment s')"
  using assms by (auto elim!: advances_AnsweredE simp: answer_of_def)

lemma reg_resume:
  "wf_cpu s \<Longrightarrow> i < 32 \<Longrightarrow> reg (resume v s) i = (if i = 10 then v else reg s i)"
  by (simp add: resume_def reg_set_reg)

section \<open>Runs as paths\<close>

text \<open>
  \<open>session_path\<close>: the events of a run, each step starting away from the breakpoints. The
  statistics are the tally of the events.
\<close>

inductive session_path ::
  "'o observe \<Rightarrow> 'h handler \<Rightarrow> u32 list \<Rightarrow> ('o, 'h) session \<Rightarrow> session_event list \<Rightarrow>
     ('o, 'h) session \<Rightarrow> bool"
  for obs handle bps where
  path_Nil: "session_path obs handle bps s [] s"
| path_Cons: "\<lbrakk> program_counter (state (engine_of s)) \<notin> set bps;
     advances obs handle s ev s'; session_path obs handle bps s' tr s'' \<rbrakk>
   \<Longrightarrow> session_path obs handle bps s (ev # tr) s''"

fun tally :: "session_event \<Rightarrow> session_statistics \<Rightarrow> session_statistics" where
  "tally (Retired _) st = count_instruction st"
| "tally (Answered _ _) st = count_call st"

fun is_retired :: "session_event \<Rightarrow> bool" where
  "is_retired (Retired _) = True"
| "is_retired (Answered _ _) = False"

lemma tally_event:
  "guest_steps (tally ev st) = guest_steps st + 1"
  "instructions_retired (tally ev st) =
     instructions_retired st + (if is_retired ev then 1 else 0)"
  "environment_calls_handled (tally ev st) =
     environment_calls_handled st + (if is_retired ev then 0 else 1)"
  by (cases ev; simp add: count_instruction_def count_call_def)+

lemma tally_statistics:
  "guest_steps (fold tally tr st) = guest_steps st + of_nat (length tr)"
  "instructions_retired (fold tally tr st) =
     instructions_retired st + of_nat (length (filter is_retired tr))"
  "environment_calls_handled (fold tally tr st) =
     environment_calls_handled st + of_nat (length (filter (\<lambda>ev. \<not> is_retired ev) tr))"
  by (induction tr arbitrary: st) (simp_all add: tally_event)

text \<open>The ways a run stops before its limit, with the result it returns.\<close>

inductive session_stops ::
  "'o observe \<Rightarrow> 'h handler \<Rightarrow> u32 list \<Rightarrow> session_statistics \<Rightarrow> ('o, 'h) session \<Rightarrow>
     (session_run_result \<times> ('o, 'h) session) option \<Rightarrow> bool"
  for obs handle bps st s where
  stop_breakpoint: "program_counter (state (engine_of s)) \<in> set bps \<Longrightarrow>
     session_stops obs handle bps st s
       (Some (SessionBreakpointReached st (program_counter (state (engine_of s))), s))"
| stop_exit: "\<lbrakk> program_counter (state (engine_of s)) \<notin> set bps;
     session_step obs handle s = Some (SessionExited call code, s') \<rbrakk>
   \<Longrightarrow> session_stops obs handle bps st s (Some (SessionRunExited (count_call st) call code, s'))"
| stop_unhandled: "\<lbrakk> program_counter (state (engine_of s)) \<notin> set bps;
     session_step obs handle s = Some (SessionUnhandledEnvironmentCall call t, s') \<rbrakk>
   \<Longrightarrow> session_stops obs handle bps st s
        (Some (SessionRunUnhandledEnvironmentCall st call t, s'))"
| stop_trap: "\<lbrakk> program_counter (state (engine_of s)) \<notin> set bps;
     session_step obs handle s = Some (SessionTrap t, s) \<rbrakk>
   \<Longrightarrow> session_stops obs handle bps st s (Some (SessionRunTrapped st t, s))"
| stop_escape: "\<lbrakk> program_counter (state (engine_of s)) \<notin> set bps;
     session_step obs handle s = None \<rbrakk>
   \<Longrightarrow> session_stops obs handle bps st s None"

lemma contains_breakpoint_iff [simp]: "contains_breakpoint bps pc \<longleftrightarrow> pc \<in> set bps"
  by (simp add: contains_breakpoint_def)

lemma session_run_loop_outcome:
  assumes "guest_steps st \<le> limit"
  shows "\<exists>tr s'. session_path obs handle bps s tr s' \<and>
    (unat (guest_steps st) + length tr = unat limit \<and>
       session_run_loop obs handle limit bps st s =
         Some (SessionStepLimitReached (fold tally tr st), s') \<or>
     unat (guest_steps st) + length tr < unat limit \<and>
       session_stops obs handle bps (fold tally tr st) s'
         (session_run_loop obs handle limit bps st s))"
    (is "\<exists>tr s'. ?Q st s tr s'")
  using assms
proof (induction "unat limit - unat (guest_steps st)" arbitrary: st s)
  case 0
  then have "\<not> guest_steps st < limit" and "unat (guest_steps st) = unat limit"
    by (auto simp: word_less_nat_alt word_le_nat_alt)
  then have "?Q st s [] s" by (subst (1 2) session_run_loop.simps) (simp add: path_Nil)
  then show ?case by blast
next
  case (Suc n)
  then have lt: "guest_steps st < limit" by (simp add: word_less_nat_alt)
  let ?pc = "program_counter (state (engine_of s))"
  note unfold = session_run_loop.simps [of obs handle limit bps st s]
  have stop: "\<exists>tr s'. ?Q st s tr s'"
    if "session_stops obs handle bps st s (session_run_loop obs handle limit bps st s)"
    using that lt by (intro exI [of _ "[]"] exI [of _ s]) (simp add: path_Nil word_less_nat_alt)
  have continue: "\<exists>tr s'. ?Q st s tr s'"
    if "advances obs handle s ev s1" and "?pc \<notin> set bps"
      and "session_run_loop obs handle limit bps st s =
        session_run_loop obs handle limit bps (tally ev st) s1" for ev s1
  proof -
    have inc: "unat (guest_steps (tally ev st)) = unat (guest_steps st) + 1"
      using lt by (cases ev) (simp_all add: unat_increment)
    with Suc.hyps(2) lt have "n = unat limit - unat (guest_steps (tally ev st))"
      and "guest_steps (tally ev st) \<le> limit"
      by (auto simp: word_less_nat_alt word_le_nat_alt)
    from Suc.hyps(1) [OF this, of s1] obtain tr s' where "?Q (tally ev st) s1 tr s'" by blast
    then have "?Q st s (ev # tr) s'"
      using inc that(3) path_Cons [OF that(2,1)] by auto
    then show ?thesis by blast
  qed
  show ?case
  proof (cases "?pc \<in> set bps")
    case True
    then show ?thesis using lt by (intro stop) (subst unfold, simp add: Let_def stop_breakpoint)
  next
    case bp: False
    show ?thesis
    proof (cases obs handle s rule: session_step_cases)
      case (retired ob s1)
      then show ?thesis using lt bp by (intro continue [of "Retired ob" s1]) (simp_all add: unfold)
    next
      case (answered call v s1)
      then show ?thesis
        using lt bp by (intro continue [of "Answered call v" s1]) (simp_all add: unfold)
    next
      case (exited code h')
      then show ?thesis
        using lt bp stop_exit [OF bp exited(2)] by (intro stop) (simp add: unfold)
    next
      case (unhandled t h')
      then show ?thesis
        using lt bp stop_unhandled [OF bp unhandled(2)] by (intro stop) (simp add: unfold)
    next
      case (trapped t)
      then show ?thesis
        using lt bp stop_trap [OF bp trapped(3)] by (intro stop) (simp add: unfold)
    next
      case escaped
      then show ?thesis
        using lt bp stop_escape [OF bp escaped(2)] by (intro stop) (simp add: unfold)
    qed
  qed
qed

lemma session_path_invariant:
  assumes "session_path obs handle bps s tr s'" and "P s"
    and "\<And>s ev s'. advances obs handle s ev s' \<Longrightarrow> P s \<Longrightarrow> P s'"
  shows "P s'"
  using assms by (induction rule: session_path.induct) auto

lemma session_path_wf_cpu:
  "session_path obs handle bps s tr s' \<Longrightarrow> wf_cpu (state (engine_of s)) \<Longrightarrow>
     wf_cpu (state (engine_of s'))"
  by (rule session_path_invariant [where P = "\<lambda>s. wf_cpu (state (engine_of s))"])
    (auto dest: advances_wf_cpu)

lemma session_path_region:
  "session_path obs handle bps s tr s' \<Longrightarrow>
     same_region (memory_of (engine_of s)) (memory_of (engine_of s'))"
  by (induction rule: session_path.induct) (auto dest: advances_region intro: same_region_trans)

lemma session_path_aligned:
  "session_path obs handle bps s tr s' \<Longrightarrow> unat (program_counter (state (engine_of s))) mod 4 = 0 \<Longrightarrow>
     unat (program_counter (state (engine_of s'))) mod 4 = 0"
  by (rule session_path_invariant
      [where P = "\<lambda>s. unat (program_counter (state (engine_of s))) mod 4 = 0"])
    (auto dest: advances_aligned)

text \<open>The observer of the engine sees the retired instructions and nothing of the calls.\<close>

fun observed :: "session_event \<Rightarrow> execution_observation list" where
  "observed (Retired ob) = [ob]"
| "observed (Answered _ _) = []"

lemma session_path_observer:
  "session_path obs handle bps s tr s' \<Longrightarrow>
     observer (engine_of s') =
       fold (notify obs) (concat (map observed tr)) (observer (engine_of s))"
  by (induction rule: session_path.induct)
    (auto elim!: advances.cases dest: completes_observation(3))

lemma initial_statistics_le [simp]: "guest_steps initial_statistics \<le> limit"
  by (simp add: initial_statistics_def)

lemma session_run_outcome [case_names limit stopped]:
  obtains
    (limit) tr s' where "session_path obs handle bps s tr s'" "length tr = unat limit"
      "session_run obs handle limit bps s =
        Some (SessionStepLimitReached (fold tally tr initial_statistics), s')"
  | (stopped) tr s' where "session_path obs handle bps s tr s'" "length tr < unat limit"
      "session_stops obs handle bps (fold tally tr initial_statistics) s'
        (session_run obs handle limit bps s)"
  using session_run_loop_outcome [of initial_statistics limit obs handle bps s]
  by (auto simp: session_run_def initial_statistics_def)

section \<open>The environment interface\<close>

text \<open>
  What a session may expect of an environment. The handler of the code is \<^verbatim>\<open>noexcept\<close>:
  it answers every call without an exception, and then a run always returns. An environment
  that moreover declines no call never ends a run with an unhandled one.
\<close>

locale noexcept_handler =
  fixes handle :: "'h handler"
    and valid :: "'h \<Rightarrow> bool"
  assumes handle_returns: "valid h \<Longrightarrow> \<exists>r h'. handle call m h = Some (r, h') \<and> valid h'"
begin

lemma answer_returns:
  assumes "valid (environment s)"
  obtains r h' where "answer_of handle s = Some (r, h')" "valid h'"
  using handle_returns [OF assms] by (metis answer_of_def)

lemma advances_valid:
  assumes "advances obs handle s ev s'" and "valid (environment s)"
  shows "valid (environment s')"
proof -
  from assms(2) obtain r h' where "answer_of handle s = Some (r, h')" "valid h'"
    by (rule answer_returns)
  with assms show ?thesis by (cases rule: advances.cases) (auto simp: answer_of_def)
qed

lemma path_valid:
  "session_path obs handle bps s tr s' \<Longrightarrow> valid (environment s) \<Longrightarrow> valid (environment s')"
  by (rule session_path_invariant [where P = "\<lambda>s. valid (environment s)"])
    (auto intro: advances_valid)

lemma session_step_defined:
  assumes "valid (environment s)"
  shows "session_step obs handle s \<noteq> None"
  by (rule answer_returns [OF assms], cases obs handle s rule: session_step_cases) auto

lemma session_run_defined:
  assumes "valid (environment s)"
  shows "\<exists>r s'. session_run obs handle limit bps s = Some (r, s')"
proof (cases rule: session_run_outcome [where obs = obs and handle = handle and bps = bps
      and s = s and limit = limit])
  case (stopped tr s')
  from session_step_defined [OF path_valid [OF stopped(1) assms], of obs] stopped(3) show ?thesis
    by (auto elim!: session_stops.cases)
qed simp

end

locale environment_handler = noexcept_handler +
  assumes handle_answers: "valid h \<Longrightarrow> handle call m h = Some (r, h') \<Longrightarrow>
    r \<noteq> EnvironmentCallNotHandled"
begin

lemma answer_answers:
  assumes "valid (environment s)"
  obtains r h' where "answer_of handle s = Some (r, h')" "r \<noteq> EnvironmentCallNotHandled" "valid h'"
proof -
  from assms obtain r h' where "answer_of handle s = Some (r, h')" "valid h'"
    by (rule answer_returns)
  with handle_answers [OF assms] show thesis by (intro that) (auto simp: answer_of_def)
qed

lemma session_step_returns:
  assumes "valid (environment s)"
  shows "\<exists>r s'. session_step obs handle s = Some (r, s') \<and>
    (\<forall>call t. r \<noteq> SessionUnhandledEnvironmentCall call t)"
  by (rule answer_answers [OF assms], cases obs handle s rule: session_step_cases) auto

lemma session_run_returns:
  assumes "valid (environment s)"
  shows "\<exists>r s'. session_run obs handle limit bps s = Some (r, s') \<and>
    (\<forall>st call t. r \<noteq> SessionRunUnhandledEnvironmentCall st call t)"
proof (cases rule: session_run_outcome [where obs = obs and handle = handle and bps = bps
      and s = s and limit = limit])
  case (limit tr s')
  then show ?thesis by simp
next
  case (stopped tr s')
  have "valid (environment s')" using path_valid [OF stopped(1) assms] .
  from session_step_returns [OF this, of obs] stopped(3) show ?thesis
    by (auto elim!: session_stops.cases)
qed

end

context counting_observer
begin

text \<open>A counting observer under a session counts the retired instructions alone.\<close>

lemma session_path_events:
  assumes "session_path (Some observe) handle bps s tr s'" and "valid (observer (engine_of s))"
  shows "valid (observer (engine_of s')) \<and> events (observer (engine_of s')) =
    events (observer (engine_of s)) + of_nat (sum_list (map weight (concat (map observed tr))))"
  using assms
proof (induction rule: session_path.induct)
  case (path_Cons s ev s' tr s'')
  from path_Cons.hyps(2) path_Cons.prems path_Cons.IH show ?case
    by (cases rule: advances.cases)
      (auto simp: completes_observation(3) notify_def observe_events observe_valid)
qed simp

end

section \<open>Properties\<close>

fun result_statistics :: "session_run_result \<Rightarrow> session_statistics" where
  "result_statistics (SessionStepLimitReached st) = st"
| "result_statistics (SessionBreakpointReached st _) = st"
| "result_statistics (SessionRunExited st _ _) = st"
| "result_statistics (SessionRunUnhandledEnvironmentCall st _ _) = st"
| "result_statistics (SessionRunTrapped st _) = st"

text \<open>The statistics of a path that fits in the budget are its numbers of events.\<close>

lemma unat_of_nat_le:
  assumes "n \<le> unat (limit :: u64)"
  shows "unat (of_nat n :: u64) = n"
  using assms unat_lt_2_64 [of limit] by (simp add: unsigned_of_nat take_bit_nat_eq_self_iff)

lemma path_statistics:
  fixes limit :: u64
  assumes "length tr \<le> unat limit"
  defines "st \<equiv> fold tally tr initial_statistics"
  shows "unat (guest_steps st) = length tr"
    and "unat (instructions_retired st) = length (filter is_retired tr)"
    and "unat (environment_calls_handled st) = length (filter (\<lambda>ev. \<not> is_retired ev) tr)"
proof -
  have fits: "unat (of_nat (length (filter P tr)) :: u64) = length (filter P tr)" for P
    using le_trans [OF length_filter_le assms(1)] by (rule unat_of_nat_le)
  from unat_of_nat_le [OF assms(1)] show "unat (guest_steps st) = length tr"
    by (simp add: st_def tally_statistics initial_statistics_def)
  show "unat (instructions_retired st) = length (filter is_retired tr)"
    and "unat (environment_calls_handled st) = length (filter (\<lambda>ev. \<not> is_retired ev) tr)"
    by (simp_all add: st_def tally_statistics initial_statistics_def fits)
qed

text \<open>A session for the witnesses: the sample program at an address, with an environment.\<close>

definition sample_session :: "u32 \<Rightarrow> 'h \<Rightarrow> (unit, 'h) session" where
  "sample_session pc h = \<lparr>engine_of =
     (sample_engine ())\<lparr>state := set_program_counter pc initial_cpu_state\<rparr>, environment = h\<rparr>"

definition sample_handler :: "unit handler" where
  "sample_handler call m h = Some (EnvironmentCallResume 42, h)"

text \<open>
  What a bounded run of a session does. It follows a path of retired instructions and
  answered calls that never starts at a breakpoint, and returns with the statistics of the
  path: when the path has used up the budget, or earlier, when the session stops at its end.
\<close>

theorem session_run_follows_path:
  "\<exists>tr s'. session_path obs handle bps s tr s' \<and>
     (length tr = unat limit \<and> session_run obs handle limit bps s =
        Some (SessionStepLimitReached (fold tally tr initial_statistics), s') \<or>
      length tr < unat limit \<and> session_stops obs handle bps (fold tally tr initial_statistics) s'
        (session_run obs handle limit bps s))"
  by (cases rule: session_run_outcome [of obs handle bps s limit]) blast+

text \<open>
  C4: the accounting of a run. The steps never exceed the budget, and are the retired
  instructions and the handled calls together, with no counter wrapping.
\<close>

theorem session_run_accounting:
  assumes "session_run obs handle limit bps s = Some (r, s')"
  shows "guest_steps (result_statistics r) \<le> limit \<and>
    unat (guest_steps (result_statistics r)) = unat (instructions_retired (result_statistics r)) +
      unat (environment_calls_handled (result_statistics r))"
proof -
  have count: "length (filter is_retired tr) + length (filter (\<lambda>ev. \<not> is_retired ev) tr) = length tr"
    for tr by (rule sum_length_filter_compl)
  show ?thesis
  proof (cases rule: session_run_outcome [of obs handle bps s limit])
    case (limit tr s1)
    with assms path_statistics [of tr limit] count [of tr] show ?thesis
      by (auto simp: word_le_nat_alt)
  next
    case (stopped tr s1)
    let ?st = "fold tally tr initial_statistics"
    have "length tr \<le> unat limit" using stopped(2) by simp
    note st = path_statistics [OF this]
    have "result_statistics r = ?st \<or> (\<exists>call. result_statistics r = count_call ?st)"
      using stopped(3) unfolding assms by cases auto
    moreover have "count_call ?st = fold tally (tr @ [Answered call v]) initial_statistics"
      for call v by simp
    moreover have "length (tr @ [Answered call v]) \<le> unat limit" for call v
      using stopped(2) by simp
    note path_statistics [OF this]
    ultimately show ?thesis
      using st count [of tr] stopped(2) by (auto simp: word_le_nat_alt)
  qed
qed

lemma session_run_accounting_witness:
  "\<exists>r s'. session_run None sample_handler 3 [] (sample_session 0 ()) = Some (r, s') \<and>
     guest_steps (result_statistics r) \<le> 3 \<and>
     unat (guest_steps (result_statistics r)) = unat (instructions_retired (result_statistics r)) +
       unat (environment_calls_handled (result_statistics r))"
proof -
  have "case session_run None sample_handler 3 [] (sample_session 0 ()) of
    Some (SessionStepLimitReached st, _) \<Rightarrow> environment_calls_handled st = 1 | _ \<Rightarrow> False"
    by code_simp
  then obtain r s' where "session_run None sample_handler 3 [] (sample_session 0 ()) = Some (r, s')"
    by (auto split: option.splits)
  from session_run_accounting [OF this] this show ?thesis by blast
qed

text \<open>Where an event of a path starts.\<close>

fun event_address :: "session_event \<Rightarrow> u32" where
  "event_address (Retired ob) = observed_program_counter ob"
| "event_address (Answered call _) = call_program_counter call"

lemma event_address_advances:
  assumes "advances obs handle s ev s'"
  shows "event_address ev = program_counter (state (engine_of s))"
  using assms by cases (simp_all add: completes_observation call_of_def)

lemma session_path_addresses:
  "session_path obs handle bps s tr s' \<Longrightarrow> ev \<in> set tr \<Longrightarrow> event_address ev \<notin> set bps"
  by (induction rule: session_path.induct) (auto dest: event_address_advances)

text \<open>
  How a result comes out of the end of a path, with the number of its events: the limit is used
  up; or there is budget left and the end is a breakpoint; or it is none and the next step of
  the session is the exit, the unhandled call or the trap that the result reports.
\<close>

definition ends_run ::
  "'o observe \<Rightarrow> 'h handler \<Rightarrow> nat \<Rightarrow> u32 list \<Rightarrow> session_event list \<Rightarrow> ('o, 'h) session \<Rightarrow>
     session_run_result \<Rightarrow> ('o, 'h) session \<Rightarrow> bool" where
  "ends_run obs handle limit bps tr s1 r s' \<longleftrightarrow>
     (let st = fold tally tr initial_statistics; pc = program_counter (state (engine_of s1));
          goes_on = (length tr < limit \<and> pc \<notin> set bps)
      in case r of
        SessionStepLimitReached st' \<Rightarrow> length tr = limit \<and> s' = s1 \<and> st' = st
      | SessionBreakpointReached st' pc' \<Rightarrow>
          length tr < limit \<and> pc \<in> set bps \<and> s' = s1 \<and> st' = st \<and> pc' = pc
      | SessionRunExited st' call code \<Rightarrow> goes_on \<and> st' = count_call st \<and>
          session_step obs handle s1 = Some (SessionExited call code, s')
      | SessionRunUnhandledEnvironmentCall st' call t \<Rightarrow> goes_on \<and> st' = st \<and>
          session_step obs handle s1 = Some (SessionUnhandledEnvironmentCall call t, s')
      | SessionRunTrapped st' t \<Rightarrow> goes_on \<and> st' = st \<and>
          session_step obs handle s1 = Some (SessionTrap t, s'))"

text \<open>
  C25: breakpoints stop the guest before the instruction. A run of a session executes a path of
  which no instruction or call starts at a breakpoint, and ends where the path does: with budget
  left it reports a breakpoint if the path has arrived at one, and goes on to a further step only
  if it has not, whatever that step is.
\<close>

theorem session_run_breakpoints:
  assumes "session_run obs handle limit bps s = Some (r, s')"
  shows "\<exists>tr s1. session_path obs handle bps s tr s1 \<and>
    (\<forall>ev \<in> set tr. event_address ev \<notin> set bps) \<and>
    ends_run obs handle (unat limit) bps tr s1 r s'"
proof (cases rule: session_run_outcome [of obs handle bps s limit])
  case (limit tr s1)
  with assms show ?thesis
    by (intro exI [of _ tr] exI [of _ s1]) (auto simp: ends_run_def dest: session_path_addresses)
next
  case (stopped tr s1)
  have "ends_run obs handle (unat limit) bps tr s1 r s'"
    using stopped(3) unfolding assms by cases (use stopped(2) in \<open>auto simp: ends_run_def\<close>)
  then show ?thesis
    using stopped(1) by (intro exI [of _ tr] exI [of _ s1]) (auto dest: session_path_addresses)
qed

lemma session_run_breakpoints_witness:
  "\<exists>st s'. session_run None sample_handler 3 [4] (sample_session 0 ()) =
       Some (SessionBreakpointReached st 4, s') \<and>
     program_counter (state (engine_of s')) = 4"
proof -
  have "case session_run None sample_handler 3 [4] (sample_session 0 ()) of
    Some (SessionBreakpointReached st pc, _) \<Rightarrow> pc = 4 | _ \<Rightarrow> False" by code_simp
  then obtain st s' where run: "session_run None sample_handler 3 [4] (sample_session 0 ()) =
    Some (SessionBreakpointReached st 4, s')"
    by (auto split: option.splits session_run_result.splits)
  from session_run_breakpoints [OF this] this show ?thesis by (auto simp: ends_run_def Let_def)
qed

text \<open>What every run preserves.\<close>

lemma session_run_preserves:
  assumes "session_run obs handle limit bps s = Some (r, s')" and "wf_cpu (state (engine_of s))"
    and "unat (program_counter (state (engine_of s))) mod 4 = 0"
  shows "wf_cpu (state (engine_of s')) \<and> unat (program_counter (state (engine_of s'))) mod 4 = 0 \<and>
    same_region (memory_of (engine_of s)) (memory_of (engine_of s'))"
proof (cases rule: session_run_outcome [of obs handle bps s limit])
  case (limit tr s1)
  with assms show ?thesis
    using session_path_wf_cpu [OF limit(1)] session_path_aligned [OF limit(1)]
      session_path_region [OF limit(1)] by simp
next
  case (stopped tr s1)
  have "engine_of s' = engine_of s1"
    using stopped(3) unfolding assms(1)
  proof cases
    case (stop_exit call c)
    from stop_exit(3) show ?thesis
      by (cases rule: session_step_cases [of obs handle s1]) auto
  next
    case (stop_unhandled call t)
    from stop_unhandled(3) show ?thesis
      by (cases rule: session_step_cases [of obs handle s1]) auto
  qed simp_all
  with assms show ?thesis
    using session_path_wf_cpu [OF stopped(1)] session_path_aligned [OF stopped(1)]
      session_path_region [OF stopped(1)] by simp
qed

text \<open>
  C26: well-typed machines do not go wrong. From a well-formed machine (32 registers with
  register zero zero, an aligned program counter, a region inside the address space) a bounded
  run of a session always returns, unless the environment's handler throws: no register access
  of the emulator is out of range; and the machine it returns is well formed again, over the
  same memory region.
\<close>

theorem session_type_soundness:
  assumes "wf_cpu (state (engine_of s))" and "unat (program_counter (state (engine_of s))) mod 4 = 0"
    and "wf_memory (memory_of (engine_of s))"
  shows "case session_run obs handle limit bps s of
     None \<Rightarrow> \<exists>call m h. handle call m h = None
   | Some (r, s') \<Rightarrow> wf_cpu (state (engine_of s')) \<and>
       unat (program_counter (state (engine_of s'))) mod 4 = 0 \<and>
       wf_memory (memory_of (engine_of s')) \<and>
       same_region (memory_of (engine_of s)) (memory_of (engine_of s'))"
proof (cases "session_run obs handle limit bps s")
  case None
  have "\<exists>call m h. handle call m h = None"
  proof (rule ccontr)
    assume "\<not> (\<exists>call m h. handle call m h = None)"
    then have "noexcept_handler handle (\<lambda>_. True)" by unfold_locales auto
    from noexcept_handler.session_run_defined [OF this TrueI, of obs limit bps s] None show False by simp
  qed
  with None show ?thesis by simp
next
  case (Some p)
  obtain r s' where p: "p = (r, s')" by fastforce
  note end' = session_run_preserves [OF Some [unfolded p] assms(1,2)]
  then have "wf_memory (memory_of (engine_of s'))" using assms(3) same_region_wf by blast
  with Some p end' show ?thesis by simp
qed

lemma session_type_soundness_witness:
  "\<exists>r s'. session_run None sample_handler 3 [] (sample_session 0 ()) = Some (r, s') \<and>
     wf_cpu (state (engine_of s'))"
proof -
  have "session_run None sample_handler 3 [] (sample_session 0 ()) \<noteq> None"
    by code_simp
  then obtain r s' where "session_run None sample_handler 3 [] (sample_session 0 ()) = Some (r, s')"
    by auto
  moreover have "wf_memory (memory_of (engine_of (sample_session 0 ())))"
    by (simp add: sample_session_def sample_engine_def wf_sample_memory)
  ultimately show ?thesis
    using session_type_soundness [where s = "sample_session 0 ()" and obs = None
      and handle = sample_handler and limit = 3 and bps = "[]"]
    by (simp add: sample_session_def)
qed

text \<open>
  C27: the effect of an answered environment call. The handler is given the number in x17, the
  arguments in x10 to x15 and the program counter; its value goes to x10, the program counter
  moves past the instruction, and no other register, no memory and no observer changes.
\<close>

theorem answered_call_frame:
  assumes "session_step obs handle s = Some (SessionEnvironmentCallResumed call v pc, s')"
    and "wf_cpu (state (engine_of s))"
  shows "call = \<lparr>call_program_counter = program_counter (state (engine_of s)),
      number = reg (state (engine_of s)) 17,
      arguments = map (reg (state (engine_of s))) [10, 11, 12, 13, 14, 15]\<rparr> \<and>
    handle call (memory_of (engine_of s)) (environment s) =
      Some (EnvironmentCallResume v, environment s') \<and>
    pc = program_counter (state (engine_of s)) + 4 \<and>
    program_counter (state (engine_of s')) = pc \<and>
    (\<forall>j < 32. reg (state (engine_of s')) j = (if j = 10 then v else reg (state (engine_of s)) j)) \<and>
    memory_of (engine_of s') = memory_of (engine_of s) \<and>
    observer (engine_of s') = observer (engine_of s)"
proof -
  have a: "advances obs handle s (Answered call v) s'" and
    pc: "pc = program_counter (state (engine_of s'))"
    using assms(1) by (cases rule: session_step_cases [of obs handle s]; simp)+
  have "[10..<16] = [10, 11, 12, 13, 14, 15 :: nat]" by code_simp
  with answered_call [OF a] pc reg_resume [OF assms(2)] show ?thesis
    by (simp add: call_of_def answer_of_def)
qed

lemma answered_call_frame_witness:
  "\<exists>call s'. session_step None sample_handler (sample_session 8 ()) =
       Some (SessionEnvironmentCallResumed call 42 12, s') \<and> reg (state (engine_of s')) 10 = 42"
proof -
  have "case session_step None sample_handler (sample_session 8 ()) of
    Some (SessionEnvironmentCallResumed _ v pc, _) \<Rightarrow> v = 42 \<and> pc = 12 | _ \<Rightarrow> False" by code_simp
  then obtain call s' where r: "session_step None sample_handler (sample_session 8 ()) =
    Some (SessionEnvironmentCallResumed call 42 12, s')"
    by (auto split: option.splits session_step_result.splits)
  have "wf_cpu (state (engine_of (sample_session 8 ())))" by (simp add: sample_session_def)
  from answered_call_frame [OF r this] r show ?thesis by auto
qed

end
