(* ===== verification/Linux_Syscalls.thy ===== *)
theory Linux_Syscalls
  imports Program_Session
begin

text \<open>
  The environment calls of a Linux process: \<^verbatim>\<open>class LinuxSyscallEnvironment\<close> of
  \<^verbatim>\<open>include/rvemu/linux_syscalls.hpp\<close> and
  \<^verbatim>\<open>src/linux_syscalls.cpp\<close>. The output sink is an interface of the code and
  a parameter here: a state \<open>'k\<close> and a function that takes a stream and the bytes, and
  returns a result (\<open>None\<close> if it throws) with its next state.
\<close>

section \<open>Data\<close>

datatype output_stream = StandardOutput | StandardError

datatype output_write_result = OutputWriteCompleted nat | OutputWriteFailed

type_synonym 'k sink = "output_stream \<Rightarrow> u8 list \<Rightarrow> 'k \<Rightarrow> output_write_result option \<times> 'k"

definition kWrite :: u32 where "kWrite = 64"
definition kExit :: u32 where "kExit = 93"
definition kExitGroup :: u32 where "kExitGroup = 94"

definition kStandardOutputFileDescriptor :: u32 where "kStandardOutputFileDescriptor = 1"
definition kStandardErrorFileDescriptor :: u32 where "kStandardErrorFileDescriptor = 2"
definition kMaximumWriteSize :: u32 where "kMaximumWriteSize = 0x7FFFF000"

definition kErrorIo :: u32 where "kErrorIo = 5"
definition kErrorBadFileDescriptor :: u32 where "kErrorBadFileDescriptor = 9"
definition kErrorFault :: u32 where "kErrorFault = 14"
definition kErrorNotImplemented :: u32 where "kErrorNotImplemented = 38"

section \<open>The handler\<close>

definition error_return :: "u32 \<Rightarrow> u32" where
  "error_return error_number = 0 - error_number"

definition error_result :: "u32 \<Rightarrow> environment_call_result" where
  "error_result error_number = EnvironmentCallResume (error_return error_number)"

definition handle_write ::
  "'k sink \<Rightarrow> environment_call \<Rightarrow> memory \<Rightarrow> 'k \<Rightarrow> environment_call_result \<times> 'k" where
  "handle_write output call m k =
     (let file_descriptor = arguments call ! 0;
          stream = (if file_descriptor = kStandardOutputFileDescriptor then Some StandardOutput
                    else if file_descriptor = kStandardErrorFileDescriptor then Some StandardError
                    else None)
      in case stream of
        None \<Rightarrow> (error_result kErrorBadFileDescriptor, k)
      | Some stream \<Rightarrow>
          let address = arguments call ! 1; requested_size = arguments call ! 2
          in if requested_size = 0 then (EnvironmentCallResume 0, k)
             else let effective_size = min requested_size kMaximumWriteSize
               in case read_span m address (unat effective_size) of
                 Inl _ \<Rightarrow> (error_result kErrorFault, k)
               | Inr bs \<Rightarrow>
                   let (output_result, k') = output stream bs k
                   in case output_result of
                     Some (OutputWriteCompleted bytes_written) \<Rightarrow>
                       if bytes_written \<le> length bs
                       then (EnvironmentCallResume (of_nat bytes_written), k')
                       else (error_result kErrorIo, k')
                   | _ \<Rightarrow> (error_result kErrorIo, k'))"

definition linux_handle ::
  "'k sink \<Rightarrow> environment_call \<Rightarrow> memory \<Rightarrow> 'k \<Rightarrow> environment_call_result \<times> 'k" where
  "linux_handle output call m k =
     (if number call = kWrite then handle_write output call m k
      else if number call = kExit \<or> number call = kExitGroup
      then (EnvironmentCallExit (arguments call ! 0 AND 0xFF), k)
      else (error_result kErrorNotImplemented, k))"

text \<open>The function is \<open>noexcept\<close>: as a handler of a session it never throws.\<close>

definition linux_handler :: "'k sink \<Rightarrow> 'k handler" where
  "linux_handler output call m k = Some (linux_handle output call m k)"

section \<open>What it does\<close>

lemmas linux_constants = kWrite_def kExit_def kExitGroup_def kStandardOutputFileDescriptor_def
  kStandardErrorFileDescriptor_def kErrorIo_def kErrorBadFileDescriptor_def kErrorFault_def
  kErrorNotImplemented_def

lemma error_result_eq: "error_result n = EnvironmentCallResume (- n)"
  by (simp add: error_result_def error_return_def)

lemma handle_write_answers: "fst (handle_write output call m k) \<noteq> EnvironmentCallNotHandled"
  by (auto simp: handle_write_def Let_def error_result_def
      split: option.splits sum.splits output_write_result.splits prod.splits)

lemma linux_handle_answers: "fst (linux_handle output call m k) \<noteq> EnvironmentCallNotHandled"
  by (auto simp: linux_handle_def handle_write_answers error_result_def)

text \<open>The environment of a Linux process is an environment in the sense of the session.\<close>

interpretation linux: environment_handler "linux_handler sink" "\<lambda>_. True" for sink
proof unfold_locales
  fix h call m r h'
  show "\<exists>r h'. linux_handler sink call m h = Some (r, h') \<and> True" by (simp add: linux_handler_def)
  show "r \<noteq> EnvironmentCallNotHandled" if "linux_handler sink call m h = Some (r, h')"
    using that linux_handle_answers [of sink call m h] by (auto simp: linux_handler_def)
qed

section \<open>Writes\<close>

text \<open>The stream of a file descriptor, and the number of bytes a request may transfer.\<close>

definition stream_of :: "u32 \<Rightarrow> output_stream option" where
  "stream_of fd = (if fd = 1 then Some StandardOutput else if fd = 2 then Some StandardError
     else None)"

definition transfer_size :: "u32 \<Rightarrow> nat" where
  "transfer_size n = min (unat n) 0x7FFFF000"

lemma transfer_size_eq: "unat (min n kMaximumWriteSize) = transfer_size n"
  by (simp add: transfer_size_def min_def word_le_nat_alt kMaximumWriteSize_def)

lemma transfer_size_bound: "transfer_size n < 2 ^ 31"
  by (simp add: transfer_size_def min_def)

lemma transfer_size_eq_0_iff [simp]: "transfer_size n = 0 \<longleftrightarrow> n = 0"
  by (auto simp: transfer_size_def min_def unat_eq_0)

text \<open>
  The three kinds of write: rejected without touching the sink, empty, and one call of the
  sink with the bytes of the guest.
\<close>

lemma handle_write_rejected:
  assumes "stream_of (arguments call ! 0) = None"
  shows "handle_write output call m k = (EnvironmentCallResume (- 9), k)"
  using assms
  by (auto simp: handle_write_def stream_of_def linux_constants error_result_eq split: if_splits)

lemma handle_write_eq:
  assumes "stream_of (arguments call ! 0) = Some stream"
  shows "handle_write output call m k =
    (if arguments call ! 2 = 0 then (EnvironmentCallResume 0, k)
     else if \<not> mapped m (arguments call ! 1) (transfer_size (arguments call ! 2))
     then (EnvironmentCallResume (- 14), k)
     else let bs = take (transfer_size (arguments call ! 2))
            (drop (unat (arguments call ! 1) - unat (base_address m)) (bytes m));
          (r, k') = output stream bs k
       in ((case r of Some (OutputWriteCompleted n) \<Rightarrow>
              EnvironmentCallResume (if n \<le> transfer_size (arguments call ! 2)
                then of_nat n else - 5)
            | _ \<Rightarrow> EnvironmentCallResume (- 5)), k'))"
proof -
  let ?n = "transfer_size (arguments call ! 2)" and ?a = "arguments call ! 1"
  have "length (take ?n (drop (unat ?a - unat (base_address m)) (bytes m))) = ?n"
    if "mapped m ?a ?n"
    using that by (auto simp: mapped_def end_address_exclusive_def)
  then show ?thesis
    using assms
    by (auto simp: handle_write_def stream_of_def linux_constants error_result_eq transfer_size_eq
        read_span_eq Let_def split: if_splits option.splits output_write_result.splits prod.splits)
qed

text \<open>The bytes handed to the sink are the guest's, in order.\<close>

lemma handle_write_bytes:
  assumes "wf_memory m" and "mapped m a n" and "i < n"
  shows "take n (drop (unat a - unat (base_address m)) (bytes m)) ! i = the (cell m (a + of_nat i))"
proof -
  have "read_span m a n = Inr (take n (drop (unat a - unat (base_address m)) (bytes m)))"
    using assms(2) by (simp add: read_span_eq)
  from read_span_nth [OF this assms(3,1)] show ?thesis by simp
qed

lemma written_bytes:
  assumes "wf_memory m" and "mapped m a n"
  shows "take n (drop (unat a - unat (base_address m)) (bytes m)) =
    map (\<lambda>i. the (cell m (a + of_nat i))) [0..<n]"
proof (rule nth_equalityI)
  show len: "length (take n (drop (unat a - unat (base_address m)) (bytes m))) =
    length (map (\<lambda>i. the (cell m (a + of_nat i))) [0..<n])"
    using assms(2) by (auto simp: mapped_def end_address_exclusive_def)
  show "take n (drop (unat a - unat (base_address m)) (bytes m)) ! i =
    map (\<lambda>i. the (cell m (a + of_nat i))) [0..<n] ! i"
    if "i < length (take n (drop (unat a - unat (base_address m)) (bytes m)))" for i
    using that handle_write_bytes [OF assms, of i] len by simp
qed

section \<open>Exits\<close>

lemma unat_and_255: "unat (v AND 0xFF :: u32) = unat v mod 256"
proof -
  have "v AND 0xFF = take_bit 8 v" by (simp only: mask_simps)
  then have "unat (v AND 0xFF) = take_bit 8 (unat v)"
    by (simp only: unsigned_take_bit_eq)
  then show ?thesis by (simp add: take_bit_eq_mod)
qed

lemma linux_exit:
  assumes "session_step obs (linux_handler sink) s = Some (SessionExited call c, s')"
  shows "call = call_of (state (engine_of s))" and "c = arguments call ! 0 AND 0xFF"
    and "number call = 93 \<or> number call = 94" and "unat c \<le> 255"
proof -
  have "call = call_of (state (engine_of s)) \<and>
    (\<exists>h'. answer_of (linux_handler sink) s = Some (EnvironmentCallExit c, h'))"
    using assms by (cases rule: session_step_cases [of obs "linux_handler sink" s]) auto
  then show call: "call = call_of (state (engine_of s))" and
    c: "c = arguments call ! 0 AND 0xFF" and "number call = 93 \<or> number call = 94"
    by (auto simp: answer_of_def linux_handler_def linux_handle_def kWrite_def kExit_def
        kExitGroup_def error_result_def handle_write_def Let_def split: if_splits option.splits sum.splits
        output_write_result.splits prod.splits)
  then show "unat c \<le> 255" using unat_and_255 [of "arguments call ! 0"] by simp
qed

section \<open>Properties\<close>

definition sample_call :: "u32 list \<Rightarrow> environment_call" where
  "sample_call args = \<lparr>call_program_counter = 8, number = 64, arguments = args\<rparr>"

definition sample_sink :: "(output_stream \<times> u8 list) list sink" where
  "sample_sink stream bs k = (Some (OutputWriteCompleted (length bs)), k @ [(stream, bs)])"

text \<open>
  C10: the environment calls of Linux. A write asks the sink for one transfer of the guest's
  bytes, at most 0x7FFFF000 of them, on the stream of the descriptor, and returns the bytes
  taken; a bad descriptor is EBADF, unmapped bytes are EFAULT, a sink that fails, throws or
  claims too many bytes is EIO, and only a transfer touches the sink. Both exit calls exit
  with the low byte of the argument. Every other call is ENOSYS.
\<close>

theorem linux_handle_functional:
  assumes "wf_memory m"
  shows "linux_handle sink call m k =
    (let fd = arguments call ! 0; a = arguments call ! 1; n = transfer_size (arguments call ! 2) in
     if number call = 64 then
       (case stream_of fd of
          None \<Rightarrow> (EnvironmentCallResume (- 9), k)
        | Some stream \<Rightarrow>
            if n = 0 then (EnvironmentCallResume 0, k)
            else if \<not> mapped m a n then (EnvironmentCallResume (- 14), k)
            else let (r, k') = sink stream (map (\<lambda>i. the (cell m (a + of_nat i))) [0..<n]) k
              in (EnvironmentCallResume (case r of
                    Some (OutputWriteCompleted w) \<Rightarrow> if w \<le> n then of_nat w else - 5
                  | _ \<Rightarrow> - 5), k'))
     else if number call = 93 \<or> number call = 94
     then (EnvironmentCallExit (of_nat (unat fd mod 256)), k)
     else (EnvironmentCallResume (- 38), k))"
proof (cases "number call = 64")
  case True
  let ?a = "arguments call ! 1" and ?n = "transfer_size (arguments call ! 2)"
  have bs: "take ?n (drop (unat ?a - unat (base_address m)) (bytes m)) =
    map (\<lambda>i. the (cell m (?a + of_nat i))) [0..<?n]" if "mapped m ?a ?n"
    using that by (rule written_bytes [OF assms])
  show ?thesis
  proof (cases "stream_of (arguments call ! 0)")
    case None
    with True handle_write_rejected [of call sink m k] show ?thesis
      by (simp add: linux_handle_def kWrite_def)
  next
    case (Some stream)
    with True handle_write_eq [OF Some, of sink m k] bs show ?thesis
      by (auto simp: linux_handle_def kWrite_def Let_def split: prod.splits option.splits
          output_write_result.splits)
  qed
next
  case False
  have "arguments call ! 0 AND 0xFF = of_nat (unat (arguments call ! 0) mod 256)"
    by (simp only: unat_and_255 [symmetric]) simp
  with False show ?thesis
    by (simp add: linux_handle_def kWrite_def kExit_def kExitGroup_def error_result_eq
        kErrorNotImplemented_def)
qed

lemma linux_handle_functional_witness:
  "linux_handle sample_sink (sample_call [1, 4, 3]) sample_memory [] =
     (EnvironmentCallResume 3, [(StandardOutput, [0x23, 0x26, 0x50])])"
proof -
  have "mapped sample_memory 4 3"
    "map (\<lambda>i. the (cell sample_memory (4 + of_nat i))) [0..<3] = [0x23, 0x26, 0x50]"
    "stream_of 1 = Some StandardOutput" by code_simp+
  moreover have "transfer_size 3 = 3" by (simp add: transfer_size_def)
  moreover have wf: "wf_memory sample_memory" by (rule wf_sample_memory)
  ultimately show ?thesis using linux_handle_functional [OF wf, of sample_sink "sample_call [1, 4, 3]" "[]"]
    by (simp add: sample_call_def sample_sink_def)
qed

text \<open>
  A guest in the Linux environment always comes to an end within its budget: every bounded
  run returns, with no call left unanswered, and an exit carries the low byte of its argument.
\<close>

theorem linux_session_returns:
  "\<exists>r s'. session_run obs (linux_handler sink) limit bps s = Some (r, s') \<and>
     (case r of SessionRunUnhandledEnvironmentCall _ _ _ \<Rightarrow> False
      | SessionRunExited st call c \<Rightarrow> (number call = 93 \<or> number call = 94) \<and>
          unat c = unat (arguments call ! 0) mod 256
      | _ \<Rightarrow> True)"
proof -
  obtain r s' where run: "session_run obs (linux_handler sink) limit bps s = Some (r, s')" and
    no: "\<And>st call t. r \<noteq> SessionRunUnhandledEnvironmentCall st call t"
    using linux.session_run_returns [where obs = obs and sink = sink and limit = limit and
      bps = bps and s = s] by auto
  have "(number call = 93 \<or> number call = 94) \<and> unat c = unat (arguments call ! 0) mod 256"
    if r: "r = SessionRunExited st call c" for st call c
  proof (cases rule: session_run_outcome [of obs "linux_handler sink" bps s limit])
    case (limit tr s1)
    with run r show ?thesis by simp
  next
    case (stopped tr s1)
    obtain s2 where "session_step obs (linux_handler sink) s1 = Some (SessionExited call c, s2)"
      using stopped(3) unfolding run r by cases auto
    from linux_exit [OF this] unat_and_255 show ?thesis by simp
  qed
  moreover have "\<not> (\<exists>st call t. r = SessionRunUnhandledEnvironmentCall st call t)"
    using no by blast
  ultimately show ?thesis using run by (cases r) simp_all
qed

end
