(* ===== verification/Elf_Loader.thy ===== *)
theory Elf_Loader
  imports Cpu_State Memory
begin

text \<open>
  The ELF32 program loader: \<^verbatim>\<open>include/rvemu/elf_loader.hpp\<close> and
  \<^verbatim>\<open>src/elf_loader.cpp\<close>. The file image is a list of bytes; an access beyond its
  end is undefined behaviour of the code and \<open>None\<close> here, as is the dereference of an empty
  optional or an exception of a store. A failure is the left side of the inner sum. The
  64-bit sums of the code add 32-bit quantities, at most 65534 of them, so they are natural
  numbers.
\<close>

section \<open>Data\<close>

datatype elf_load_error_code =
    FileOpenFailed
  | FileReadFailed
  | FileTooLarge
  | TruncatedHeader
  | InvalidMagic
  | UnsupportedClass
  | UnsupportedEndianness
  | UnsupportedIdentificationVersion
  | UnsupportedOsAbi
  | UnsupportedAbiVersion
  | UnsupportedFileType
  | UnsupportedMachine
  | UnsupportedFileVersion
  | UnsupportedIsaFlags
  | InvalidElfHeaderSize
  | InvalidProgramHeaderOffset
  | MissingProgramHeaderTable
  | UnsupportedProgramHeaderCount
  | InvalidProgramHeaderEntrySize
  | ProgramHeaderTableOutOfBounds
  | UnsupportedDynamicLinking
  | UnsupportedThreadLocalStorage
  | LoadSegmentsOutOfOrder
  | SegmentFileSizeExceedsMemorySize
  | SegmentFileRangeOutOfBounds
  | SegmentAddressRangeOverflow
  | SegmentOutsideMemory
  | InvalidSegmentAlignment
  | OverlappingLoadSegments
  | NoLoadableSegments
  | EntryPointMisaligned
  | EntryPointNotExecutable

record elf_load_failure =
  code :: elf_load_error_code
  program_header_index :: "nat option"

record elf_load_success =
  entry_point :: u32
  loadable_segments :: nat
  file_bytes_loaded :: nat
  zero_fill_bytes :: nat
  loaded_address_begin :: u32
  loaded_address_end_exclusive :: nat

record load_segment =
  file_offset :: u32
  virtual_address :: u32
  file_size :: u32
  memory_size :: u32
  segment_flags :: u32

definition kElf32HeaderSize :: nat where "kElf32HeaderSize = 52"
definition kElf32ProgramHeaderSize :: nat where "kElf32ProgramHeaderSize = 32"
definition kExtendedProgramHeaderCount :: u16 where "kExtendedProgramHeaderCount = 0xFFFF"
definition kGuestAddressSpaceSize :: nat where "kGuestAddressSpaceSize = 0x100000000"
definition kElfClass32 :: u8 where "kElfClass32 = 1"
definition kElfDataLittleEndian :: u8 where "kElfDataLittleEndian = 1"
definition kElfVersionCurrent :: u8 where "kElfVersionCurrent = 1"
definition kElfOsAbiNone :: u8 where "kElfOsAbiNone = 0"
definition kElfTypeExecutable :: u16 where "kElfTypeExecutable = 2"
definition kMachineRiscV :: u16 where "kMachineRiscV = 243"
definition kProgramHeaderLoad :: u32 where "kProgramHeaderLoad = 1"
definition kProgramHeaderDynamic :: u32 where "kProgramHeaderDynamic = 2"
definition kProgramHeaderInterpreter :: u32 where "kProgramHeaderInterpreter = 3"
definition kProgramHeaderTls :: u32 where "kProgramHeaderTls = 7"
definition kProgramFlagExecute :: u32 where "kProgramFlagExecute = 0x1"

fun elf_load_error_message :: "elf_load_error_code \<Rightarrow> string" where
  "elf_load_error_message FileOpenFailed =
     ''the ELF file could not be opened''"
| "elf_load_error_message FileReadFailed =
     ''the ELF file could not be read completely''"
| "elf_load_error_message FileTooLarge =
     ''the ELF file is too large for the host''"
| "elf_load_error_message TruncatedHeader =
     ''the ELF32 header is truncated''"
| "elf_load_error_message InvalidMagic =
     ''the file does not have ELF magic bytes''"
| "elf_load_error_message UnsupportedClass =
     ''only 32-bit ELF files are supported''"
| "elf_load_error_message UnsupportedEndianness =
     ''only little-endian ELF files are supported''"
| "elf_load_error_message UnsupportedIdentificationVersion =
     ''the ELF identification version is unsupported''"
| "elf_load_error_message UnsupportedOsAbi =
     ''the ELF OS ABI is unsupported''"
| "elf_load_error_message UnsupportedAbiVersion =
     ''the ELF ABI version is unsupported''"
| "elf_load_error_message UnsupportedFileType =
     ''only fixed-address executable ELF files are supported''"
| "elf_load_error_message UnsupportedMachine =
     ''the ELF file does not target RISC-V''"
| "elf_load_error_message UnsupportedFileVersion =
     ''the ELF file version is unsupported''"
| "elf_load_error_message UnsupportedIsaFlags =
     ''the ELF file requires an unsupported RISC-V ABI or ISA mode''"
| "elf_load_error_message InvalidElfHeaderSize =
     ''the ELF header size is invalid''"
| "elf_load_error_message InvalidProgramHeaderOffset =
     ''the program header table overlaps the ELF header''"
| "elf_load_error_message MissingProgramHeaderTable =
     ''the executable has no program header table''"
| "elf_load_error_message UnsupportedProgramHeaderCount =
     ''extended program header numbering is unsupported''"
| "elf_load_error_message InvalidProgramHeaderEntrySize =
     ''the ELF32 program header entry size is invalid''"
| "elf_load_error_message ProgramHeaderTableOutOfBounds =
     ''the program header table is outside the file''"
| "elf_load_error_message UnsupportedDynamicLinking =
     ''dynamic linking information is unsupported''"
| "elf_load_error_message UnsupportedThreadLocalStorage =
     ''thread-local storage is unsupported''"
| "elf_load_error_message LoadSegmentsOutOfOrder =
     ''loadable segments are not sorted by virtual address''"
| "elf_load_error_message SegmentFileSizeExceedsMemorySize =
     ''a loadable segment is smaller in memory than in the file''"
| "elf_load_error_message SegmentFileRangeOutOfBounds =
     ''a loadable segment refers outside the ELF file''"
| "elf_load_error_message SegmentAddressRangeOverflow =
     ''a loadable segment exceeds the 32-bit guest address space''"
| "elf_load_error_message SegmentOutsideMemory =
     ''a loadable segment is outside mapped guest memory''"
| "elf_load_error_message InvalidSegmentAlignment =
     ''a loadable segment has invalid ELF alignment''"
| "elf_load_error_message OverlappingLoadSegments =
     ''loadable segments overlap in guest memory''"
| "elf_load_error_message NoLoadableSegments =
     ''the executable has no nonempty loadable segments''"
| "elf_load_error_message EntryPointMisaligned =
     ''the entry point is not four-byte aligned''"
| "elf_load_error_message EntryPointNotExecutable =
     ''the entry point is not in an executable loadable segment''"

section \<open>Reading the image\<close>

definition byte_at :: "u8 list \<Rightarrow> nat \<Rightarrow> u8 option" where
  "byte_at img offset = (if offset < length img then Some (img ! offset) else None)"

definition read_u16_le :: "u8 list \<Rightarrow> nat \<Rightarrow> u16 option" where
  "read_u16_le img offset = do {
     b0 \<leftarrow> byte_at img offset;
     b1 \<leftarrow> byte_at img (offset + 1);
     Some (ucast b0 OR push_bit 8 (ucast b1))
   }"

definition read_u32_le :: "u8 list \<Rightarrow> nat \<Rightarrow> u32 option" where
  "read_u32_le img offset = do {
     b0 \<leftarrow> byte_at img offset;
     b1 \<leftarrow> byte_at img (offset + 1);
     b2 \<leftarrow> byte_at img (offset + 2);
     b3 \<leftarrow> byte_at img (offset + 3);
     Some (ucast b0 OR push_bit 8 (ucast b1) OR push_bit 16 (ucast b2) OR push_bit 24 (ucast b3))
   }"

definition range_fits :: "nat \<Rightarrow> nat \<Rightarrow> nat \<Rightarrow> bool" where
  "range_fits offset n limit \<longleftrightarrow> offset \<le> limit \<and> n \<le> limit - offset"

definition is_power_of_two :: "u32 \<Rightarrow> bool" where
  "is_power_of_two v \<longleftrightarrow> v \<noteq> 0 \<and> v AND (v - 1) = 0"

section \<open>Checks in sequence\<close>

text \<open>
  A computation of the loader: \<open>None\<close>, a failure, or a value. \<open>fail_if\<close> is an early
  return of a failure.
\<close>

type_synonym 'a elf = "(elf_load_failure + 'a) option"

definition fail_if ::
  "bool \<Rightarrow> elf_load_error_code \<Rightarrow> nat option \<Rightarrow> 'a elf \<Rightarrow> 'a elf" where
  "fail_if b c index rest =
     (if b then Some (Inl \<lparr>code = c, program_header_index = index\<rparr>) else rest)"

fun elf_bind :: "'a elf \<Rightarrow> ('a \<Rightarrow> 'b elf) \<Rightarrow> 'b elf" where
  "elf_bind None f = None"
| "elf_bind (Some (Inl e)) f = Some (Inl e)"
| "elf_bind (Some (Inr x)) f = f x"

section \<open>The ELF header\<close>

record elf_header =
  header_entry_point :: u32
  program_header_offset :: u32
  program_header_count :: u16

definition parse_header :: "u8 list \<Rightarrow> elf_header elf" where
  "parse_header img =
     fail_if (length img < kElf32HeaderSize) TruncatedHeader None (do {
     magic \<leftarrow> those (map (byte_at img) [0, 1, 2, 3]);
     fail_if (magic \<noteq> [0x7F, 0x45, 0x4C, 0x46]) InvalidMagic None (do {
     ei_class \<leftarrow> byte_at img 4;
     fail_if (ei_class \<noteq> kElfClass32) UnsupportedClass None (do {
     ei_data \<leftarrow> byte_at img 5;
     fail_if (ei_data \<noteq> kElfDataLittleEndian) UnsupportedEndianness None (do {
     ei_version \<leftarrow> byte_at img 6;
     fail_if (ei_version \<noteq> kElfVersionCurrent) UnsupportedIdentificationVersion None (do {
     os_abi \<leftarrow> byte_at img 7;
     fail_if (os_abi \<noteq> kElfOsAbiNone) UnsupportedOsAbi None (do {
     abi_version \<leftarrow> byte_at img 8;
     fail_if (abi_version \<noteq> 0) UnsupportedAbiVersion None (do {
     file_type \<leftarrow> read_u16_le img 16;
     fail_if (file_type \<noteq> kElfTypeExecutable) UnsupportedFileType None (do {
     machine \<leftarrow> read_u16_le img 18;
     fail_if (machine \<noteq> kMachineRiscV) UnsupportedMachine None (do {
     file_version \<leftarrow> read_u32_le img 20;
     fail_if (file_version \<noteq> ucast kElfVersionCurrent) UnsupportedFileVersion None (do {
     isa_flags \<leftarrow> read_u32_le img 36;
     fail_if (isa_flags \<noteq> 0) UnsupportedIsaFlags None (do {
     header_size \<leftarrow> read_u16_le img 40;
     fail_if (unat header_size \<noteq> kElf32HeaderSize) InvalidElfHeaderSize None (do {
     entry \<leftarrow> read_u32_le img 24;
     table_offset \<leftarrow> read_u32_le img 28;
     entry_size \<leftarrow> read_u16_le img 42;
     count \<leftarrow> read_u16_le img 44;
     fail_if (count = 0) MissingProgramHeaderTable None (
     fail_if (count = kExtendedProgramHeaderCount) UnsupportedProgramHeaderCount None (
     fail_if (unat entry_size \<noteq> kElf32ProgramHeaderSize) InvalidProgramHeaderEntrySize None (
     fail_if (unat table_offset < kElf32HeaderSize) InvalidProgramHeaderOffset None (
     fail_if (\<not> range_fits (unat table_offset) (unat count * unat entry_size) (length img))
       ProgramHeaderTableOutOfBounds None (
     Some (Inr \<lparr>header_entry_point = entry, program_header_offset = table_offset,
       program_header_count = count\<rparr>))))))})})})})})})})})})})})})"

section \<open>The program headers\<close>

text \<open>The locals that the loop over the program headers updates.\<close>

record scan =
  load_segments :: "load_segment list"
  previous_virtual_address :: "u32 option"
  first_nonempty_address :: "u32 option"
  previous_nonempty_end :: "nat option"

definition initial_scan :: scan where
  "initial_scan = \<lparr>load_segments = [], previous_virtual_address = None,
     first_nonempty_address = None, previous_nonempty_end = None\<rparr>"

definition segment_end :: "load_segment \<Rightarrow> nat" where
  "segment_end seg = unat (virtual_address seg) + unat (memory_size seg)"

text \<open>The checks and updates for one loadable segment.\<close>

definition scan_segment ::
  "u8 list \<Rightarrow> memory \<Rightarrow> nat \<Rightarrow> load_segment \<Rightarrow> u32 \<Rightarrow> scan \<Rightarrow> scan elf" where
  "scan_segment img m index seg alignment st =
     fail_if (\<exists>p \<in> set_option (previous_virtual_address st). virtual_address seg < p)
       LoadSegmentsOutOfOrder (Some index) (
     let st = st\<lparr>previous_virtual_address := Some (virtual_address seg)\<rparr>
     in fail_if (file_size seg > memory_size seg)
       SegmentFileSizeExceedsMemorySize (Some index) (
     fail_if (\<not> range_fits (unat (file_offset seg)) (unat (file_size seg)) (length img))
       SegmentFileRangeOutOfBounds (Some index) (
     fail_if (alignment > 1 \<and> (\<not> is_power_of_two alignment \<or>
         virtual_address seg mod alignment \<noteq> file_offset seg mod alignment))
       InvalidSegmentAlignment (Some index) (
     fail_if (segment_end seg > kGuestAddressSpaceSize)
       SegmentAddressRangeOverflow (Some index) (
     if memory_size seg \<noteq> 0 then
       fail_if (virtual_address seg < base_address m \<or> segment_end seg > end_address_exclusive m)
         SegmentOutsideMemory (Some index) (
       fail_if (\<exists>e \<in> set_option (previous_nonempty_end st). unat (virtual_address seg) < e)
         OverlappingLoadSegments (Some index) (
       Some (Inr (st\<lparr>
         first_nonempty_address := (case first_nonempty_address st of
           None \<Rightarrow> Some (virtual_address seg) | Some a \<Rightarrow> Some a),
         previous_nonempty_end := Some (segment_end seg),
         load_segments := load_segments st @ [seg]\<rparr>))))
     else Some (Inr (st\<lparr>load_segments := load_segments st @ [seg]\<rparr>)))))))"

text \<open>The fields of a program header, and one iteration of the loop.\<close>

definition read_segment :: "u8 list \<Rightarrow> nat \<Rightarrow> (load_segment \<times> u32) option" where
  "read_segment img header_offset = do {
     fo \<leftarrow> read_u32_le img (header_offset + 4);
     va \<leftarrow> read_u32_le img (header_offset + 8);
     fs \<leftarrow> read_u32_le img (header_offset + 16);
     ms \<leftarrow> read_u32_le img (header_offset + 20);
     fl \<leftarrow> read_u32_le img (header_offset + 24);
     al \<leftarrow> read_u32_le img (header_offset + 28);
     Some (\<lparr>file_offset = fo, virtual_address = va, file_size = fs, memory_size = ms,
       segment_flags = fl\<rparr>, al)
   }"

definition scan_header :: "u8 list \<Rightarrow> memory \<Rightarrow> u32 \<Rightarrow> nat \<Rightarrow> scan \<Rightarrow> scan elf" where
  "scan_header img m table_offset index st = do {
     let header_offset = unat table_offset + index * kElf32ProgramHeaderSize;
     header_type \<leftarrow> read_u32_le img header_offset;
     fail_if (header_type = kProgramHeaderDynamic \<or> header_type = kProgramHeaderInterpreter)
       UnsupportedDynamicLinking (Some index) (
     fail_if (header_type = kProgramHeaderTls) UnsupportedThreadLocalStorage (Some index) (
     if header_type \<noteq> kProgramHeaderLoad then Some (Inr st)
     else do {
       (seg, alignment) \<leftarrow> read_segment img header_offset;
       scan_segment img m index seg alignment st
     }))
   }"

fun scan_headers :: "u8 list \<Rightarrow> memory \<Rightarrow> u32 \<Rightarrow> nat \<Rightarrow> nat \<Rightarrow> scan \<Rightarrow> scan elf" where
  "scan_headers img m table_offset index 0 st = Some (Inr st)"
| "scan_headers img m table_offset index (Suc remaining) st =
     elf_bind (scan_header img m table_offset index st)
       (scan_headers img m table_offset (index + 1) remaining)"

section \<open>Loading\<close>

definition is_nonempty :: "load_segment \<Rightarrow> bool" where
  "is_nonempty seg \<longleftrightarrow> memory_size seg \<noteq> 0"

definition entry_in_segment :: "u32 \<Rightarrow> load_segment \<Rightarrow> bool" where
  "entry_in_segment entry seg \<longleftrightarrow>
     memory_size seg \<noteq> 0 \<and> segment_flags seg AND kProgramFlagExecute \<noteq> 0 \<and>
     entry \<ge> virtual_address seg \<and> unat entry < segment_end seg"

text \<open>The two copy loops of a segment.\<close>

definition copy_segment :: "u8 list \<Rightarrow> load_segment \<Rightarrow> memory \<Rightarrow> memory option" where
  "copy_segment img seg m = do {
     m \<leftarrow> write_range put8 (\<lambda>offset. byte_at img (unat (file_offset seg) + offset))
       (virtual_address seg) 0 (unat (file_size seg)) m;
     write_range put8 (\<lambda>_. Some 0) (virtual_address seg) (unat (file_size seg))
       (unat (memory_size seg) - unat (file_size seg)) m
   }"

fun copy_segments :: "u8 list \<Rightarrow> load_segment list \<Rightarrow> memory \<Rightarrow> memory option" where
  "copy_segments img [] m = Some m"
| "copy_segments img (seg # segs) m = do {
     m \<leftarrow> copy_segment img seg m;
     copy_segments img segs m
   }"

definition validate :: "u8 list \<Rightarrow> memory \<Rightarrow> (elf_header \<times> scan) elf" where
  "validate img m =
     elf_bind (parse_header img) (\<lambda>h.
     elf_bind (scan_headers img m (program_header_offset h) 0 (unat (program_header_count h))
       initial_scan) (\<lambda>st.
     fail_if (length (filter is_nonempty (load_segments st)) = 0) NoLoadableSegments None (
     fail_if (header_entry_point h AND 0x3 \<noteq> 0) EntryPointMisaligned None (
     fail_if (\<not> list_ex (entry_in_segment (header_entry_point h)) (load_segments st))
       EntryPointNotExecutable None (
     Some (Inr (h, st)))))))"

text \<open>The whole function: its result with the processor state and the memory it leaves.\<close>

definition load_elf32 ::
  "u8 list \<Rightarrow> cpu_state \<Rightarrow> memory \<Rightarrow>
     ((elf_load_failure + elf_load_success) \<times> cpu_state \<times> memory) option" where
  "load_elf32 img s m = do {
     checked \<leftarrow> validate img m;
     case checked of
       Inl e \<Rightarrow> Some (Inl e, s, m)
     | Inr (h, st) \<Rightarrow> do {
         m' \<leftarrow> copy_segments img (load_segments st) m;
         begin' \<leftarrow> first_nonempty_address st;
         end' \<leftarrow> previous_nonempty_end st;
         Some (Inr \<lparr>entry_point = header_entry_point h,
             loadable_segments = length (filter is_nonempty (load_segments st)),
             file_bytes_loaded = sum_list (map (\<lambda>seg. unat (file_size seg)) (load_segments st)),
             zero_fill_bytes =
               sum_list (map (\<lambda>seg. unat (memory_size seg - file_size seg)) (load_segments st)),
             loaded_address_begin = begin', loaded_address_end_exclusive = end'\<rparr>,
           set_program_counter (header_entry_point h) s, m')
       }
   }"

text \<open>
  Loading from a file. What the stream library answers is a parameter: whether the file
  opens, the end position (\<open>None\<close> for \<open>-1\<close>), and the bytes of a complete read.
\<close>

record input_file =
  is_open :: bool
  end_position :: "nat option"
  read_all :: "nat \<Rightarrow> u8 list option"

definition load_elf32_file ::
  "input_file \<Rightarrow> cpu_state \<Rightarrow> memory \<Rightarrow>
     ((elf_load_failure + elf_load_success) \<times> cpu_state \<times> memory) option" where
  "load_elf32_file file s m =
     (let fail = (\<lambda>c. Some (Inl \<lparr>code = c, program_header_index = None\<rparr>, s, m))
      in if \<not> is_open file then fail FileOpenFailed
         else case end_position file of
           None \<Rightarrow> fail FileReadFailed
         | Some n \<Rightarrow>
             if n > 2 ^ 64 - 1 \<or> n > 2 ^ 63 - 1 then fail FileTooLarge
             else case read_all file n of
               None \<Rightarrow> fail FileReadFailed
             | Some img \<Rightarrow> load_elf32 img s m)"

text \<open>A file load is the load of the contents of the file, where it has any.\<close>

definition file_contents :: "input_file \<Rightarrow> u8 list option" where
  "file_contents f = (if is_open f then Option.bind (end_position f)
     (\<lambda>n. if n > 2 ^ 63 - 1 then None else read_all f n) else None)"

lemma load_elf32_file_eq:
  "load_elf32_file f s m = (case file_contents f of
     Some img \<Rightarrow> load_elf32 img s m
   | None \<Rightarrow> Some (Inl \<lparr>code = (if \<not> is_open f then FileOpenFailed
       else if \<exists>n. end_position f = Some n \<and> n > 2 ^ 63 - 1 then FileTooLarge
       else FileReadFailed), program_header_index = None\<rparr>, s, m))"
  by (auto simp: load_elf32_file_def file_contents_def Let_def split: option.splits)

section \<open>The checks keep every access inside the image\<close>

lemma fail_if_eq_iffs [simp]:
  "fail_if b c i r = Some (Inr y) \<longleftrightarrow> \<not> b \<and> r = Some (Inr y)"
  "fail_if b c i r = None \<longleftrightarrow> \<not> b \<and> r = None"
  by (auto simp: fail_if_def)

lemma elf_bind_eq_iffs:
  "elf_bind x f = Some (Inr y) \<longleftrightarrow> (\<exists>z. x = Some (Inr z) \<and> f z = Some (Inr y))"
  "elf_bind x f = None \<longleftrightarrow> x = None \<or> (\<exists>z. x = Some (Inr z) \<and> f z = None)"
  by (cases "(x, f)" rule: elf_bind.cases; auto)+

lemma byte_at_total [simp]: "k < length img \<Longrightarrow> byte_at img k = Some (img ! k)"
  by (simp add: byte_at_def)

lemma read_u16_le_total [simp]:
  "k + 1 < length img \<Longrightarrow>
     read_u16_le img k = Some (ucast (img ! k) OR push_bit 8 (ucast (img ! (k + 1))))"
  by (simp add: read_u16_le_def)

lemma read_u32_le_total: "k + 4 \<le> length img \<Longrightarrow> \<exists>v. read_u32_le img k = Some v"
  by (simp add: read_u32_le_def)

lemma read_segment_total: "k + 32 \<le> length img \<Longrightarrow> \<exists>p. read_segment img k = Some p"
  using read_u32_le_total [of "k + 4" img] read_u32_le_total [of "k + 8" img]
    read_u32_le_total [of "k + 16" img] read_u32_le_total [of "k + 20" img]
    read_u32_le_total [of "k + 24" img] read_u32_le_total [of "k + 28" img]
  by (auto simp: read_segment_def)

lemma range_fits_iff: "range_fits a n k \<longleftrightarrow> a + n \<le> k"
  by (auto simp: range_fits_def)

lemma parse_header_total: "parse_header img \<noteq> None"
proof (cases "length img < kElf32HeaderSize")
  case False
  then have len: "52 \<le> length img" by (simp add: kElf32HeaderSize_def)
  obtain v20 v36 v24 v28 where "read_u32_le img 20 = Some v20" "read_u32_le img 36 = Some v36"
    "read_u32_le img 24 = Some v24" "read_u32_le img 28 = Some v28"
    using read_u32_le_total [of 20 img] read_u32_le_total [of 36 img]
      read_u32_le_total [of 24 img] read_u32_le_total [of 28 img] len by auto
  moreover have "byte_at img 0 = Some (img ! 0)" using len by (intro byte_at_total) linarith
  ultimately show ?thesis using len by (simp add: parse_header_def del: not_None_eq)
qed (simp add: parse_header_def del: not_None_eq)

lemma parse_header_table:
  assumes "parse_header img = Some (Inr h)"
  shows "unat (program_header_offset h) + unat (program_header_count h) * 32 \<le> length img"
  using assms
  by (auto simp: parse_header_def range_fits_iff kElf32ProgramHeaderSize_def split: bind_splits)

lemma scan_segment_total: "scan_segment img m index seg al st \<noteq> None"
  by (simp add: scan_segment_def Let_def del: not_None_eq)

lemma scan_header_total:
  assumes "unat off + (index + 1) * 32 \<le> length img"
  shows "scan_header img m off index st \<noteq> None"
proof -
  have "unat off + index * 32 + 32 \<le> length img" using assms by simp
  then obtain v seg al where "read_u32_le img (unat off + index * 32) = Some v"
    and "read_segment img (unat off + index * 32) = Some (seg, al)"
    using read_u32_le_total [of "unat off + index * 32" img]
      read_segment_total [of "unat off + index * 32" img] by fastforce
  then show ?thesis
    by (simp add: scan_header_def kElf32ProgramHeaderSize_def scan_segment_total Let_def
        del: not_None_eq)
qed

lemma scan_headers_total:
  assumes "unat off + (index + n) * 32 \<le> length img"
  shows "scan_headers img m off index n st \<noteq> None"
  using assms
proof (induction n arbitrary: index st)
  case (Suc n)
  have "scan_header img m off index st \<noteq> None"
    using Suc.prems by (intro scan_header_total) simp
  moreover have "scan_headers img m off (index + 1) n st' \<noteq> None" for st'
    using Suc.prems by (intro Suc.IH) simp
  ultimately show ?case by (simp add: elf_bind_eq_iffs(2))
qed simp

lemma validate_total: "validate img m \<noteq> None"
proof -
  have "scan_headers img m (program_header_offset h) 0 (unat (program_header_count h)) st \<noteq> None"
    if "parse_header img = Some (Inr h)" for h st
    using parse_header_table [OF that] by (intro scan_headers_total) simp
  then show ?thesis
    by (auto simp: validate_def elf_bind_eq_iffs(2) parse_header_total simp del: not_None_eq)
qed

section \<open>What the scan establishes\<close>

text \<open>
  A checked segment: its file range lies in the image, its address range in the address
  space and, unless it is empty, in guest memory. The nonempty segments of a scan are in
  ascending order and pairwise disjoint, and the two optionals hold their common bounds.
\<close>

definition segment_ok :: "u8 list \<Rightarrow> memory \<Rightarrow> load_segment \<Rightarrow> bool" where
  "segment_ok img m seg \<longleftrightarrow>
     unat (file_size seg) \<le> unat (memory_size seg) \<and>
     unat (file_offset seg) + unat (file_size seg) \<le> length img \<and>
     segment_end seg \<le> 2 ^ 32 \<and>
     (is_nonempty seg \<longrightarrow> unat (base_address m) \<le> unat (virtual_address seg) \<and>
        segment_end seg \<le> end_address_exclusive m)"

definition ascending :: "load_segment list \<Rightarrow> bool" where
  "ascending segs \<longleftrightarrow>
     sorted_wrt (\<lambda>a b. segment_end a \<le> unat (virtual_address b)) (filter is_nonempty segs)"

definition bounds_ok :: "scan \<Rightarrow> bool" where
  "bounds_ok st \<longleftrightarrow> (let segs = filter is_nonempty (load_segments st)
     in if segs = [] then first_nonempty_address st = None \<and> previous_nonempty_end st = None
        else first_nonempty_address st = Some (virtual_address (hd segs)) \<and>
          previous_nonempty_end st = Some (segment_end (last segs)))"

definition scan_ok :: "u8 list \<Rightarrow> memory \<Rightarrow> scan \<Rightarrow> bool" where
  "scan_ok img m st \<longleftrightarrow> (\<forall>seg \<in> set (load_segments st). segment_ok img m seg) \<and>
     ascending (load_segments st) \<and> bounds_ok st"

lemma scan_ok_initial: "scan_ok img m initial_scan"
  by (simp add: scan_ok_def initial_scan_def ascending_def bounds_ok_def)

lemma ascending_last:
  assumes "sorted_wrt (\<lambda>a b. segment_end a \<le> unat (virtual_address b)) segs" and "a \<in> set segs"
  shows "segment_end a \<le> segment_end (last segs)"
  using assms
proof (induction segs)
  case (Cons b segs)
  have "segment_end b \<le> segment_end (last segs)" if "segs \<noteq> []"
    using Cons.prems(1) last_in_set [OF that] by (force simp: segment_end_def)
  with Cons show ?case by auto
qed simp

lemma scan_segment_ok:
  assumes "scan_segment img m index seg al st = Some (Inr st')" and "scan_ok img m st"
  shows "scan_ok img m st' \<and> load_segments st' = load_segments st @ [seg]"
proof -
  let ?segs = "filter is_nonempty (load_segments st)"
  have seg: "segment_ok img m seg"
    using assms(1)
    by (auto simp: scan_segment_def segment_ok_def range_fits_iff kGuestAddressSpaceSize_def
        is_nonempty_def word_less_nat_alt Let_def split: if_splits)
  have st': "load_segments st' = load_segments st @ [seg]"
    using assms(1) by (auto simp: scan_segment_def Let_def split: if_splits)
  show ?thesis
  proof (cases "is_nonempty seg")
    case False
    then have "st' = st\<lparr>previous_virtual_address := Some (virtual_address seg),
        load_segments := load_segments st @ [seg]\<rparr>"
      using assms(1) by (simp add: scan_segment_def Let_def is_nonempty_def)
    with False seg assms(2) show ?thesis
      by (simp add: scan_ok_def ascending_def bounds_ok_def Let_def)
  next
    case True
    have after: "segment_end a \<le> unat (virtual_address seg)" if "a \<in> set ?segs" for a
    proof -
      from that have ne: "?segs \<noteq> []" by (metis empty_iff empty_set)
      then have "previous_nonempty_end st = Some (segment_end (last ?segs))"
        using assms(2) by (simp add: scan_ok_def bounds_ok_def Let_def)
      then have "segment_end (last ?segs) \<le> unat (virtual_address seg)"
        using assms(1) True by (simp add: scan_segment_def Let_def is_nonempty_def)
      moreover have "segment_end a \<le> segment_end (last ?segs)"
        using that assms(2) by (intro ascending_last) (simp_all add: scan_ok_def ascending_def)
      ultimately show ?thesis by simp
    qed
    have bounds: "previous_nonempty_end st' = Some (segment_end seg)"
      "first_nonempty_address st' = (case first_nonempty_address st of
         None \<Rightarrow> Some (virtual_address seg) | Some a \<Rightarrow> Some a)"
      using assms(1) True by (auto simp: scan_segment_def Let_def is_nonempty_def)
    have "bounds_ok st'"
      using assms(2) True bounds st'
      by (cases "?segs = []") (simp_all add: scan_ok_def bounds_ok_def Let_def)
    with seg st' after assms(2) True show ?thesis
      by (auto simp: scan_ok_def ascending_def sorted_wrt_append)
  qed
qed

text \<open>The loadable segments of a program header table, read off the image.\<close>

definition header_address :: "elf_header \<Rightarrow> nat \<Rightarrow> nat" where
  "header_address h i = unat (program_header_offset h) + i * 32"

definition is_load_header :: "u8 list \<Rightarrow> elf_header \<Rightarrow> nat \<Rightarrow> bool" where
  "is_load_header img h i \<longleftrightarrow> read_u32_le img (header_address h i) = Some 1"

definition table_segment :: "u8 list \<Rightarrow> elf_header \<Rightarrow> nat \<Rightarrow> load_segment" where
  "table_segment img h i = fst (the (read_segment img (header_address h i)))"

definition table_segments :: "u8 list \<Rightarrow> elf_header \<Rightarrow> load_segment list" where
  "table_segments img h = map (table_segment img h)
     (filter (is_load_header img h) [0..<unat (program_header_count h)])"

lemma scan_header_ok:
  assumes "scan_header img m (program_header_offset h) index st = Some (Inr st')"
    and "scan_ok img m st"
  shows "scan_ok img m st' \<and> load_segments st' = load_segments st @
    map (table_segment img h) (filter (is_load_header img h) [index])"
  using assms scan_segment_ok [of img m index _ _ st st']
  by (auto simp: scan_header_def header_address_def is_load_header_def table_segment_def
      kElf32ProgramHeaderSize_def kProgramHeaderLoad_def Let_def split: bind_splits if_splits)

lemma scan_headers_ok:
  assumes "scan_headers img m (program_header_offset h) index n st = Some (Inr st')"
    and "scan_ok img m st"
  shows "scan_ok img m st' \<and> load_segments st' = load_segments st @
    map (table_segment img h) (filter (is_load_header img h) [index..<index + n])"
  using assms
proof (induction n arbitrary: index st)
  case (Suc n)
  then obtain st1 where st1: "scan_header img m (program_header_offset h) index st = Some (Inr st1)"
    and rest: "scan_headers img m (program_header_offset h) (index + 1) n st1 = Some (Inr st')"
    by (auto simp: elf_bind_eq_iffs)
  have "[index..<index + Suc n] = index # [index + 1..<index + 1 + n]"
    by (simp add: upt_conv_Cons)
  with scan_header_ok [OF st1 Suc.prems(2)] Suc.IH [OF rest] show ?case by simp
qed simp

lemma validate_ok:
  assumes "validate img m = Some (Inr (h, st))"
  shows "parse_header img = Some (Inr h)" and "scan_ok img m st"
    and "load_segments st = table_segments img h"
    and "filter is_nonempty (load_segments st) \<noteq> []"
    and "unat (header_entry_point h) mod 4 = 0"
    and "\<exists>seg \<in> set (load_segments st). entry_in_segment (header_entry_point h) seg"
proof -
  from assms have h: "parse_header img = Some (Inr h)"
    and st: "scan_headers img m (program_header_offset h) 0 (unat (program_header_count h))
      initial_scan = Some (Inr st)"
    and rest: "length (filter is_nonempty (load_segments st)) \<noteq> 0"
      "header_entry_point h AND 0x3 = 0"
      "list_ex (entry_in_segment (header_entry_point h)) (load_segments st)"
    by (auto simp: validate_def elf_bind_eq_iffs)
  from scan_headers_ok [OF st scan_ok_initial] show "scan_ok img m st"
    and "load_segments st = table_segments img h"
    by (simp_all add: initial_scan_def table_segments_def)
  show "parse_header img = Some (Inr h)" by (rule h)
  show "filter is_nonempty (load_segments st) \<noteq> []" using rest(1) by (metis list.size(3))
  show "unat (header_entry_point h) mod 4 = 0" using rest(2) by (simp only: and_3_eq_0_iff)
  show "\<exists>seg \<in> set (load_segments st). entry_in_segment (header_entry_point h) seg"
    using rest(3) by (simp add: list_ex_iff)
qed

section \<open>What the copy loops store\<close>

definition covers :: "load_segment \<Rightarrow> u32 \<Rightarrow> bool" where
  "covers seg c \<longleftrightarrow> unat (virtual_address seg) \<le> unat c \<and> unat c < segment_end seg"

text \<open>Byte \<open>k\<close> of a segment: from the file, or zero beyond the file size.\<close>

definition segment_byte :: "u8 list \<Rightarrow> load_segment \<Rightarrow> nat \<Rightarrow> u8" where
  "segment_byte img seg k =
     (if k < unat (file_size seg) then img ! (unat (file_offset seg) + k) else 0)"

lemma copy_segment_eq:
  assumes "segment_ok img m seg"
  shows "copy_segment img seg m' = write_range put8
    (\<lambda>k. Some (segment_byte img seg k)) (virtual_address seg) 0 (unat (memory_size seg)) m'"
proof -
  let ?fs = "unat (file_size seg)" and ?ms = "unat (memory_size seg)" and ?va = "virtual_address seg"
  let ?f = "\<lambda>k. Some (segment_byte img seg k)"
  from assms have le: "?fs \<le> ?ms" and fits: "unat (file_offset seg) + ?fs \<le> length img"
    by (simp_all add: segment_ok_def)
  have copied: "write_range put8 (\<lambda>offset. byte_at img (unat (file_offset seg) + offset)) ?va 0 ?fs m1
      = write_range put8 ?f ?va 0 ?fs m1" for m1
    using fits by (intro write_range_cong) (simp add: segment_byte_def)
  have zero: "write_range put8 (\<lambda>_. Some 0) ?va ?fs (?ms - ?fs) m1
      = write_range put8 ?f ?va ?fs (?ms - ?fs) m1" for m1
    by (intro write_range_cong) (simp add: segment_byte_def)
  have "copy_segment img seg m' = Option.bind (write_range put8 ?f ?va 0 ?fs m')
     (write_range put8 ?f ?va (0 + ?fs) (?ms - ?fs))"
    by (simp add: copy_segment_def copied zero)
  also have "\<dots> = write_range put8 ?f ?va 0 (?fs + (?ms - ?fs)) m'"
    by (rule write_range_append)
  finally show ?thesis using le by simp
qed

lemma covers_iff:
  assumes "segment_end seg \<le> 2 ^ 32"
  shows "unat (c - virtual_address seg) < unat (memory_size seg) \<longleftrightarrow> covers seg c"
  using unat_diff_less_iff [of "virtual_address seg" "unat (memory_size seg)" c] assms
  by (simp add: covers_def segment_end_def)

lemma copy_segment_total:
  assumes "segment_ok img m seg" and "same_region m m1"
  shows "\<exists>m'. copy_segment img seg m1 = Some m'"
  unfolding copy_segment_eq [OF assms(1)]
proof (rule memory_store.write_range_succeeds)
  fix i assume i: "i < unat (memory_size seg)"
  let ?va = "virtual_address seg"
  have seg: "segment_end seg \<le> 2 ^ 32" using assms(1) by (simp add: segment_ok_def)
  have "mapped m ?va (unat (memory_size seg))"
    using assms(1) i by (auto simp: segment_ok_def is_nonempty_def mapped_def segment_end_def)
  then have "mapped m1 ?va (unat (memory_size seg))"
    by (simp add: same_region_mapped [OF assms(2)])
  from cell_nth [OF this _ i] seg
  show "Some (segment_byte img seg (0 + i)) \<noteq> None \<and> cell m1 (?va + of_nat (0 + i)) \<noteq> None"
    by (simp add: segment_end_def)
qed

lemma copy_segment_cell:
  assumes "segment_ok img m seg" and "copy_segment img seg m1 = Some m'"
  shows "cell m' c = (if covers seg c
    then Some (segment_byte img seg (unat c - unat (virtual_address seg))) else cell m1 c)"
proof -
  have seg: "segment_end seg \<le> 2 ^ 32" using assms(1) by (simp add: segment_ok_def)
  have "unat (memory_size seg) \<le> 2 ^ 32" using unat_lt_2_32 [of "memory_size seg"] by simp
  from memory_store.get_write_range [OF assms(2) [unfolded copy_segment_eq [OF assms(1)]] this, of c]
  show ?thesis
    by (simp add: covers_iff [OF seg]) (auto simp: covers_def unat_diff_eq)
qed

lemma copy_segment_region: "copy_segment img seg m = Some m' \<Longrightarrow> same_region m m'"
  by (auto simp: copy_segment_def split: bind_splits
      dest: write_range_same_region intro: same_region_trans)

lemma copy_segments_region: "copy_segments img segs m = Some m' \<Longrightarrow> same_region m m'"
  by (induction segs arbitrary: m)
    (auto split: bind_splits dest: copy_segment_region intro: same_region_trans)

lemma copy_segments_total:
  assumes "\<forall>seg \<in> set segs. segment_ok img m seg" and "same_region m m1"
  shows "\<exists>m'. copy_segments img segs m1 = Some m'"
  using assms
proof (induction segs arbitrary: m1)
  case (Cons seg segs)
  then obtain m2 where m2: "copy_segment img seg m1 = Some m2" using copy_segment_total by force
  with Cons show ?case
    using same_region_trans [OF Cons.prems(2) copy_segment_region [OF m2]] by simp
qed simp

lemma covers_nonempty: "covers seg c \<Longrightarrow> is_nonempty seg"
  by (auto simp: covers_def segment_end_def is_nonempty_def)

lemma copy_segments_frame:
  assumes "copy_segments img segs m1 = Some m'" and "\<forall>seg \<in> set segs. segment_ok img m seg"
    and "\<forall>seg \<in> set segs. \<not> covers seg c"
  shows "cell m' c = cell m1 c"
  using assms
  by (induction segs arbitrary: m1) (auto split: bind_splits simp: copy_segment_cell)

lemma copy_segments_cell:
  assumes "copy_segments img segs m1 = Some m'" and "\<forall>seg \<in> set segs. segment_ok img m seg"
    and "ascending segs" and "seg \<in> set segs" and "covers seg c"
  shows "cell m' c = Some (segment_byte img seg (unat c - unat (virtual_address seg)))"
  using assms
proof (induction segs arbitrary: m1)
  case (Cons first segs)
  from Cons.prems(1) obtain m2 where m2: "copy_segment img first m1 = Some m2"
    and rest: "copy_segments img segs m2 = Some m'" by (auto split: bind_splits)
  have asc: "ascending segs" using Cons.prems(3) by (auto simp: ascending_def split: if_splits)
  show ?case
  proof (cases "seg \<in> set segs")
    case True
    then show ?thesis using Cons.IH [OF rest _ asc] Cons.prems by simp
  next
    case False
    then have eq: "seg = first" using Cons.prems(4) by simp
    have "\<not> covers a c" if "a \<in> set segs" for a
    proof
      assume a: "covers a c"
      then have "segment_end first \<le> unat (virtual_address a)"
        using Cons.prems(3,5) that eq covers_nonempty [OF a] covers_nonempty [OF Cons.prems(5)]
        by (auto simp: ascending_def)
      with a Cons.prems(5) eq show False by (simp add: covers_def)
    qed
    then have "cell m' c = cell m2 c"
      using copy_segments_frame [OF rest, of m c] Cons.prems(2) by simp
    also have "\<dots> = Some (segment_byte img seg (unat c - unat (virtual_address seg)))"
      using copy_segment_cell [of img m first m1 m2 c] m2 Cons.prems(2,5) eq by simp
    finally show ?thesis .
  qed
qed simp


section \<open>The loader as a whole\<close>

lemma load_elf32_eq:
  assumes "validate img m = Some (Inr (h, st))"
  obtains m' where "copy_segments img (table_segments img h) m = Some m'"
    and "load_elf32 img s m = Some (Inr \<lparr>entry_point = header_entry_point h,
      loadable_segments = length (filter is_nonempty (table_segments img h)),
      file_bytes_loaded = sum_list (map (\<lambda>seg. unat (file_size seg)) (table_segments img h)),
      zero_fill_bytes =
        sum_list (map (\<lambda>seg. unat (memory_size seg - file_size seg)) (table_segments img h)),
      loaded_address_begin = virtual_address (hd (filter is_nonempty (table_segments img h))),
      loaded_address_end_exclusive = segment_end (last (filter is_nonempty (table_segments img h)))\<rparr>,
      set_program_counter (header_entry_point h) s, m')"
proof -
  note ok = validate_ok [OF assms]
  obtain m' where m': "copy_segments img (table_segments img h) m = Some m'"
    using copy_segments_total [of "table_segments img h" img m m] ok(2,3)
    by (auto simp: scan_ok_def)
  moreover have "first_nonempty_address st = Some (virtual_address (hd (filter is_nonempty (table_segments img h))))"
    "previous_nonempty_end st = Some (segment_end (last (filter is_nonempty (table_segments img h))))"
    using ok(2,3,4) by (simp_all add: scan_ok_def bounds_ok_def Let_def)
  ultimately show thesis using that assms ok(3) by (simp add: load_elf32_def)
qed

lemma load_elf32_cases:
  obtains (failed) e where "load_elf32 img s m = Some (Inl e, s, m)" "validate img m = Some (Inl e)"
  | (loaded) h st r m' where "validate img m = Some (Inr (h, st))"
      "load_elf32 img s m = Some (Inr r, set_program_counter (header_entry_point h) s, m')"
      "copy_segments img (table_segments img h) m = Some m'"
      "entry_point r = header_entry_point h"
proof (cases "validate img m")
  case None
  then show thesis using validate_total by blast
next
  case (Some x)
  show thesis
  proof (cases x)
    case (Inl e)
    then show thesis using Some failed by (simp add: load_elf32_def)
  next
    case (Inr p)
    obtain h st where "p = (h, st)" by (cases p)
    with Some Inr have v: "validate img m = Some (Inr (h, st))" by simp
    show thesis by (rule load_elf32_eq [OF v, of s]) (rule loaded [OF v], assumption+, simp)
  qed
qed

section \<open>Properties\<close>

text \<open>
  An executable for the witnesses: one segment of 12 bytes of code at \<open>0x1000\<close> with four
  bytes of zero fill; the code is \<open>li a7, 93\<close>, \<open>li a0, 42\<close>, \<open>ecall\<close>.
\<close>

definition sample_image :: "u8 list" where
  "sample_image =
    [0x7F, 0x45, 0x4C, 0x46, 1, 1, 1, 0, 0, 0, 0, 0, 0, 0, 0, 0,
     2, 0, 0xF3, 0, 1, 0, 0, 0, 0, 0x10, 0, 0, 0x34, 0, 0, 0,
     0, 0, 0, 0, 0, 0, 0, 0, 0x34, 0, 0x20, 0, 1, 0, 0, 0, 0, 0, 0, 0,
     1, 0, 0, 0, 0x54, 0, 0, 0, 0, 0x10, 0, 0, 0, 0x10, 0, 0,
     0x0C, 0, 0, 0, 0x10, 0, 0, 0, 5, 0, 0, 0, 1, 0, 0, 0,
     0x93, 0x08, 0xD0, 0x05, 0x13, 0x05, 0xA0, 0x02, 0x73, 0, 0, 0]"

definition sample_target :: memory where
  "sample_target = \<lparr>base_address = 0x1000, bytes = replicate 64 0\<rparr>"

definition sample_segment :: load_segment where
  "sample_segment = \<lparr>file_offset = 84, virtual_address = 0x1000, file_size = 12, load_segment.memory_size = 16,
     segment_flags = 5\<rparr>"

definition sample_header :: elf_header where
  "sample_header = \<lparr>header_entry_point = 0x1000, program_header_offset = 52,
     program_header_count = 1\<rparr>"

lemma sample_parse: "parse_header sample_image = Some (Inr sample_header)"
  by code_simp

lemma sample_table: "table_segments sample_image sample_header = [sample_segment]"
  by code_simp

lemma sample_scan:
  "scan_header sample_image sample_target 52 0 initial_scan = Some (Inr \<lparr>load_segments = [sample_segment],
     previous_virtual_address = Some 0x1000, first_nonempty_address = Some 0x1000,
     previous_nonempty_end = Some 0x1010\<rparr>)"
proof -
  have "read_u32_le sample_image 52 = Some 1" "read_segment sample_image 52 = Some (sample_segment, 1)"
    by code_simp+
  moreover have "length sample_image = 96" by code_simp
  ultimately show ?thesis
    by (simp add: scan_header_def scan_segment_def fail_if_def initial_scan_def sample_segment_def
      segment_end_def kGuestAddressSpaceSize_def sample_target_def end_address_exclusive_def
      range_fits_def kProgramHeaderDynamic_def kProgramHeaderInterpreter_def kProgramHeaderTls_def
      kProgramHeaderLoad_def kElf32ProgramHeaderSize_def)
qed

lemma sample_validate: "\<exists>st. validate sample_image sample_target = Some (Inr (sample_header, st))"
  using sample_scan
  by (simp add: validate_def sample_parse fail_if_def sample_header_def entry_in_segment_def
      sample_segment_def is_nonempty_def segment_end_def kProgramFlagExecute_def)

lemma sample_load:
  "\<exists>r m'. load_elf32 sample_image s sample_target = Some (Inr r, set_program_counter 0x1000 s, m') \<and>
     entry_point r = 0x1000"
proof (cases rule: load_elf32_cases [of sample_image s sample_target])
  case (loaded h st r m')
  then have "h = sample_header" using sample_validate by auto
  with loaded show ?thesis by (simp add: sample_header_def)
qed (use sample_validate in auto)

text \<open>
  Loading puts exactly the segments of the program header table into memory. Every byte a
  segment covers is the byte of the file, or zero beyond the file size; every byte that no
  segment covers is unchanged; of the processor only the program counter changes.
\<close>

lemma load_elf32_image:
  assumes "load_elf32 img s m = Some (Inr r, s', m')"
  shows "\<exists>h. parse_header img = Some (Inr h) \<and>
    (\<forall>seg \<in> set (table_segments img h). \<forall>c. covers seg c \<longrightarrow>
       cell m' c = Some (segment_byte img seg (unat c - unat (virtual_address seg)))) \<and>
    (\<forall>c. (\<forall>seg \<in> set (table_segments img h). \<not> covers seg c) \<longrightarrow> cell m' c = cell m c) \<and>
    entry_point r = header_entry_point h \<and> s' = set_program_counter (entry_point r) s"
proof (cases rule: load_elf32_cases [of img s m])
  case (failed e)
  with assms show ?thesis by simp
next
  case (loaded h st r1 m1)
  then have same: "r1 = r" "m1 = m'" "s' = set_program_counter (header_entry_point h) s"
    using assms by simp_all
  note ok = validate_ok [OF loaded(1)]
  have segs: "\<forall>seg \<in> set (table_segments img h). segment_ok img m seg"
    and asc: "ascending (table_segments img h)"
    using ok(2) by (auto simp: scan_ok_def ok(3))
  note copy = loaded(3) [unfolded same]
  show ?thesis
    using ok(1) copy_segments_cell [OF copy segs asc] copy_segments_frame [OF copy segs] loaded(4)
    by (intro exI [of _ h]) (simp add: same)
qed

lemma segment_sizes:
  assumes "\<forall>seg \<in> set segs. segment_ok img m seg"
  shows "sum_list (map (\<lambda>seg. unat (file_size seg)) segs) +
    sum_list (map (\<lambda>seg. unat (load_segment.memory_size seg - file_size seg)) segs) =
    sum_list (map (\<lambda>seg. unat (load_segment.memory_size seg)) segs)"
  using assms
proof (induction segs)
  case (Cons seg segs)
  then have "unat (load_segment.memory_size seg - file_size seg) =
      unat (load_segment.memory_size seg) - unat (file_size seg)"
    and "unat (file_size seg) \<le> unat (load_segment.memory_size seg)"
    by (auto simp: segment_ok_def unat_sub word_le_nat_alt)
  with Cons show ?case by simp
qed simp

text \<open>The first and the last nonempty segment bound what the segments cover.\<close>

lemma ascending_range:
  assumes "ascending segs" and "seg \<in> set segs" and "covers seg c"
  defines "ne \<equiv> filter is_nonempty segs"
  shows "unat (virtual_address (hd ne)) \<le> unat c \<and> unat c < segment_end (last ne)"
proof -
  have in_ne: "seg \<in> set ne" using assms(2,3) covers_nonempty by (auto simp: ne_def)
  have asc: "sorted_wrt (\<lambda>a b. segment_end a \<le> unat (virtual_address b)) ne"
    using assms(1) by (simp add: ascending_def ne_def)
  obtain a rest where a: "ne = a # rest" using in_ne by (cases ne) auto
  then have "seg = a \<or> segment_end a \<le> unat (virtual_address seg)"
    using in_ne asc by auto
  then have "unat (virtual_address (hd ne)) \<le> unat (virtual_address seg)"
    using a by (auto simp: segment_end_def)
  with ascending_last [OF asc in_ne] assms(3) show ?thesis by (simp add: covers_def)
qed

text \<open>
  C22: a program that loads can start and reports what it holds. Its entry point is four-byte
  aligned and inside an executable segment; the reported range encloses every covered address
  and lies in the memory; and file bytes and zero fill add up to the sizes of the segments.
\<close>

theorem load_elf32_summary:
  assumes "load_elf32 img s m = Some (Inr r, s', m')"
  shows "\<exists>h. parse_header img = Some (Inr h) \<and>
    unat (entry_point r) mod 4 = 0 \<and>
    (\<exists>seg \<in> set (table_segments img h). covers seg (entry_point r) \<and>
       segment_flags seg AND 1 \<noteq> 0) \<and>
    unat (base_address m) \<le> unat (loaded_address_begin r) \<and>
    loaded_address_end_exclusive r \<le> end_address_exclusive m \<and>
    (\<forall>seg \<in> set (table_segments img h). \<forall>c. covers seg c \<longrightarrow>
       unat (loaded_address_begin r) \<le> unat c \<and> unat c < loaded_address_end_exclusive r) \<and>
    file_bytes_loaded r + zero_fill_bytes r =
      sum_list (map (\<lambda>seg. unat (load_segment.memory_size seg)) (table_segments img h))"
proof (cases rule: load_elf32_cases [of img s m])
  case (failed e)
  with assms show ?thesis by simp
next
  case (loaded h st r1 m1)
  note ok = validate_ok [OF loaded(1)]
  let ?segs = "table_segments img h"
  let ?ne = "filter is_nonempty ?segs"
  obtain m2 where l: "load_elf32 img s m = Some (Inr \<lparr>entry_point = header_entry_point h,
      loadable_segments = length ?ne,
      file_bytes_loaded = sum_list (map (\<lambda>seg. unat (file_size seg)) ?segs),
      zero_fill_bytes = sum_list (map (\<lambda>seg. unat (load_segment.memory_size seg - file_size seg)) ?segs),
      loaded_address_begin = virtual_address (hd ?ne),
      loaded_address_end_exclusive = segment_end (last ?ne)\<rparr>,
      set_program_counter (header_entry_point h) s, m2)"
    by (rule load_elf32_eq [OF loaded(1), of s])
  have segs: "\<forall>seg \<in> set ?segs. segment_ok img m seg" and asc: "ascending ?segs" and ne: "?ne \<noteq> []"
    using ok(2,4) by (auto simp: scan_ok_def ok(3))
  have hd_last: "hd ?ne \<in> set ?ne" "last ?ne \<in> set ?ne"
    by (rule hd_in_set [OF ne], rule last_in_set [OF ne])
  have range: "unat (base_address m) \<le> unat (virtual_address (hd ?ne))"
    "segment_end (last ?ne) \<le> end_address_exclusive m"
    using hd_last segs by (auto simp: segment_ok_def)
  have r: "entry_point r = header_entry_point h" "loaded_address_begin r = virtual_address (hd ?ne)"
    "loaded_address_end_exclusive r = segment_end (last ?ne)"
    "file_bytes_loaded r + zero_fill_bytes r = sum_list (map (\<lambda>seg. unat (load_segment.memory_size seg)) ?segs)"
    using assms l segment_sizes [OF segs] by auto
  have "\<exists>seg \<in> set ?segs. covers seg (header_entry_point h) \<and> segment_flags seg AND 1 \<noteq> 0"
    using ok(6) by (auto simp: ok(3) entry_in_segment_def covers_def word_le_nat_alt
        kProgramFlagExecute_def)
  moreover note ascending_range [OF asc]
  ultimately show ?thesis
    using ok(1,5) range r by (intro exI [of _ h]) simp
qed

lemma load_elf32_summary_witness:
  "\<exists>r s' m'. load_elf32 sample_image initial_cpu_state sample_target = Some (Inr r, s', m') \<and>
     file_bytes_loaded r + zero_fill_bytes r = 16 \<and> unat (entry_point r) mod 4 = 0"
proof -
  obtain r m' where l: "load_elf32 sample_image initial_cpu_state sample_target =
    Some (Inr r, set_program_counter 0x1000 initial_cpu_state, m')"
    using sample_load by blast
  from load_elf32_summary [OF l] have "file_bytes_loaded r + zero_fill_bytes r = 16"
    by (auto simp: sample_parse sample_table) (simp add: sample_segment_def)
  moreover from load_elf32_summary [OF l] have "unat (entry_point r) mod 4 = 0" by blast
  ultimately show ?thesis using l by auto
qed

end
