(* ===== verification/Stack_Init.thy ===== *)
theory Stack_Init
  imports Cpu_State Memory
begin

text \<open>
  The initial stack of a freestanding program: \<^verbatim>\<open>include/rvemu/stack.hpp\<close> and
  \<^verbatim>\<open>src/stack.cpp\<close>. All addresses and sizes are 64-bit words, as in the code; the
  theorems read them as natural numbers, so every rounding and difference is shown not to
  wrap. The outer \<open>option\<close> is an exception inside the \<open>noexcept\<close> function.
\<close>

section \<open>Data and code\<close>

definition kDefaultFreestandingStackSize :: u64 where
  "kDefaultFreestandingStackSize = 1 * 1024 * 1024"

datatype stack_initialization_error_code =
    InvalidOccupiedRange
  | InvalidStackSize
  | StackDoesNotFit
  | StackOverlapsLoadedImage

record stack_initialization_success =
  initial_stack_pointer :: u32
  stack_bottom :: u64
  stack_top_exclusive :: u64
  stack_size_bytes :: u64

definition kStackPointerRegister :: nat where "kStackPointerRegister = 2"
definition kStackAlignment :: u64 where "kStackAlignment = 16"
definition kStackAddressSpaceSize :: u64 where "kStackAddressSpaceSize = 0x100000000"

fun stack_initialization_error_message :: "stack_initialization_error_code \<Rightarrow> string" where
  "stack_initialization_error_message InvalidOccupiedRange =
     ''the loaded image range is outside mapped memory''"
| "stack_initialization_error_message InvalidStackSize =
     ''the requested stack size is zero or cannot be aligned''"
| "stack_initialization_error_message StackDoesNotFit =
     ''the requested stack does not fit in mapped memory''"
| "stack_initialization_error_message StackOverlapsLoadedImage =
     ''the requested stack overlaps the loaded image''"

definition initialize_freestanding_stack ::
  "cpu_state \<Rightarrow> memory \<Rightarrow> u64 \<Rightarrow> u64 \<Rightarrow> u64 \<Rightarrow>
     ((stack_initialization_error_code + stack_initialization_success) \<times> cpu_state) option" where
  "initialize_freestanding_stack s m occupied_begin occupied_end requested_size =
     (let memory_base = (ucast (base_address m) :: u64);
          memory_end = (of_nat (end_address_exclusive m) :: u64)
      in if occupied_begin < memory_base \<or> occupied_begin > occupied_end \<or>
            occupied_end > memory_end
         then Some (Inl InvalidOccupiedRange, s)
         else if requested_size = 0 then Some (Inl InvalidStackSize, s)
         else if requested_size > kStackAddressSpaceSize \<or>
                 requested_size > - 1 - (kStackAlignment - 1)
         then Some (Inl InvalidStackSize, s)
         else let stack_size = (requested_size + kStackAlignment - 1) AND NOT (kStackAlignment - 1);
                  stack_top = memory_end AND NOT (kStackAlignment - 1)
           in if stack_top < memory_base \<or> stack_size > stack_top - memory_base
              then Some (Inl StackDoesNotFit, s)
              else let bottom = stack_top - stack_size
                in if occupied_end > bottom then Some (Inl StackOverlapsLoadedImage, s)
                   else do {
                     let stack_pointer = (ucast (stack_top AND 0xFFFFFFFF) :: u32);
                     s' \<leftarrow> write_register s kStackPointerRegister stack_pointer;
                     Some (Inr \<lparr>initial_stack_pointer = stack_pointer, stack_bottom = bottom,
                       stack_top_exclusive = stack_top, stack_size_bytes = stack_size\<rparr>, s')
                   })"

section \<open>Specification over the natural numbers\<close>

definition round_down :: "nat \<Rightarrow> nat" where
  "round_down n = n div 16 * 16"

definition round_up :: "nat \<Rightarrow> nat" where
  "round_up n = round_down (n + 15)"

text \<open>What the function decides: an error, or the bottom and the top of the stack.\<close>

definition stack_layout ::
  "memory \<Rightarrow> nat \<Rightarrow> nat \<Rightarrow> nat \<Rightarrow> stack_initialization_error_code + nat \<times> nat" where
  "stack_layout m occ_begin occ_end request =
     (let base = unat (base_address m); end' = end_address_exclusive m; upper = round_down end'
      in if occ_begin < base \<or> occ_end < occ_begin \<or> end' < occ_end then Inl InvalidOccupiedRange
         else if request = 0 \<or> 2 ^ 32 < request then Inl InvalidStackSize
         else if upper < base + round_up request then Inl StackDoesNotFit
         else if upper < occ_end + round_up request then Inl StackOverlapsLoadedImage
         else Inr (upper - round_up request, upper))"

lemma round_up_pos: "0 < n \<Longrightarrow> 0 < round_up n"
  by (simp add: round_up_def round_down_def div_greater_zero_iff)

lemma round_up_ge: "n \<le> round_up n"
  unfolding round_up_def round_down_def using div_mult_mod_eq [of "n + 15" 16]
    mod_less_divisor [of 16 "n + 15"] by linarith

lemma round_down_le: "round_down n \<le> n"
  by (simp add: round_down_def)

lemma round_down_mod [simp]: "round_down n mod 16 = 0" "round_up n mod 16 = 0"
  by (simp_all add: round_up_def round_down_def)

lemma unat_and_not_15: "unat ((x :: u64) AND - 16) = round_down (unat x)"
proof -
  have n: "(- 16 :: u64) = NOT (mask 4)" by (simp add: mask_eq_exp_minus_1)
  have "x = (x AND NOT (mask 4)) OR take_bit 4 x"
    by (rule bit_word_eqI) (auto simp: bit_simps)
  also have "\<dots> = (x AND NOT (mask 4)) + take_bit 4 x"
    by (rule or_eq_add) (auto intro!: bit_word_eqI simp: bit_simps)
  finally have "x AND NOT (mask 4) = x - take_bit 4 x" by (simp add: algebra_simps)
  moreover have low: "unat (take_bit 4 x) = unat x mod 16"
    by (simp only: unsigned_take_bit_eq) (simp add: take_bit_eq_mod)
  then have "take_bit 4 x \<le> x" by (simp only: word_le_nat_alt mod_less_eq_dividend)
  ultimately have "unat (x AND NOT (mask 4)) = unat x - unat x mod 16"
    by (simp only: unat_sub low)
  then show ?thesis
    by (simp only: n round_down_def minus_mod_eq_div_mult)
qed

lemma unat_ucast_32 [simp]: "unat (ucast (x :: u32) :: u64) = unat x"
  by (simp add: unsigned_ucast_eq take_bit_nat_eq_self_iff) (use unat_lt_2_32 [of x] in simp)

lemma unat_of_nat_64: "n < 2 ^ 64 \<Longrightarrow> unat (of_nat n :: u64) = n"
  by (simp add: unsigned_of_nat take_bit_nat_eq_self_iff)

lemma stack_pointer_eq: "ucast ((x :: u64) AND 0xFFFFFFFF) = (ucast x :: u32)"
  by (rule word32_eqI) (simp add: bit_eval)

lemma ucast_of_nat: "ucast (of_nat n :: u64) = (of_nat n :: u32)"
  by (rule bit_word_eqI) (auto simp: bit_simps)

text \<open>The code computes the layout, with no step of its 64-bit arithmetic wrapping.\<close>

lemma initialize_freestanding_stack_eq:
  assumes "wf_memory m"
  shows "initialize_freestanding_stack s m b e r = Some
    (case stack_layout m (unat b) (unat e) (unat r) of
       Inl c \<Rightarrow> (Inl c, s)
     | Inr (lower, upper) \<Rightarrow>
         (Inr \<lparr>initial_stack_pointer = of_nat upper, stack_bottom = of_nat lower,
            stack_top_exclusive = of_nat upper, stack_size_bytes = of_nat (round_up (unat r))\<rparr>,
          set_reg 2 (of_nat upper) s))"
proof -
  let ?stop = "of_nat (end_address_exclusive m) :: u64" and ?base = "ucast (base_address m) :: u64"
  let ?top = "?stop AND - 16" and ?size = "(15 + r) AND - 16"
  have e: "unat ?stop = end_address_exclusive m"
    using assms by (intro unat_of_nat_64) (simp add: wf_memory_def)
  then have top: "unat ?top = round_down (end_address_exclusive m)" by (simp only: unat_and_not_15)
  show ?thesis
  proof (cases "unat r = 0 \<or> 2 ^ 32 < unat r")
    case True
    then show ?thesis
      by (auto simp: initialize_freestanding_stack_def stack_layout_def Let_def word_less_nat_alt e
          kStackAddressSpaceSize_def kStackAlignment_def unat_eq_0)
  next
    case False
    then have "unat (15 + r) = unat r + 15" by (simp add: unat_word_ariths)
    then have size: "unat ?size = round_up (unat r)" by (simp only: unat_and_not_15 round_up_def)
    have up: "unat ?base \<le> unat ?top \<Longrightarrow> unat (?top - ?base) = unat ?top - unat ?base"
      by (simp only: unat_sub word_le_nat_alt)
    show ?thesis
    proof (cases "unat ?top < unat ?base + round_up (unat r)")
      case True
      then show ?thesis using False up round_up_pos [of "unat r"]
        by (auto simp: initialize_freestanding_stack_def stack_layout_def Let_def word_less_nat_alt
          kStackAddressSpaceSize_def kStackAlignment_def e top size unat_eq_0)
    next
      case fits: False
      have vals: "?top = of_nat (round_down (end_address_exclusive m))"
        "?size = of_nat (round_up (unat r))"
        by (simp_all only: top [symmetric] size [symmetric] of_nat_unat ucast_id)
      have bottom: "unat (?top - ?size) = unat ?top - round_up (unat r)"
        using fits by (subst unat_sub) (simp_all add: word_le_nat_alt size)
      show ?thesis using False fits up
        by (auto simp: initialize_freestanding_stack_def stack_layout_def Let_def word_less_nat_alt
          kStackAddressSpaceSize_def kStackAlignment_def kStackPointerRegister_def e top size bottom
          stack_pointer_eq unat_eq_0) (simp_all add: vals ucast_of_nat fits)
    qed
  qed
qed

text \<open>A layout that succeeds is a 16-byte aligned region of the memory above the image.\<close>

lemma stack_layout_Inr:
  assumes "stack_layout m b e r = Inr (lower, upper)"
  shows "unat (base_address m) \<le> lower" and "e \<le> lower" and "lower + round_up r = upper"
    and "upper \<le> end_address_exclusive m" and "lower mod 16 = 0" and "upper mod 16 = 0"
    and "r \<le> upper - lower" and "lower < upper"
proof -
  have all: "unat (base_address m) \<le> lower \<and> e \<le> lower \<and> lower + round_up r = upper
     \<and> upper = round_down (end_address_exclusive m) \<and> 0 < r"
    using assms by (auto simp: stack_layout_def Let_def split: if_splits)
  then show "unat (base_address m) \<le> lower" "e \<le> lower" "lower + round_up r = upper" by simp_all
  from all show "upper \<le> end_address_exclusive m" and "upper mod 16 = 0"
    by (simp_all add: round_down_le)
  from all show "r \<le> upper - lower" and "lower < upper"
    using round_up_ge [of r] round_up_pos [of r] by auto
  have "lower = upper - round_up r" using all by auto
  moreover have "round_up r \<le> upper" using all by auto
  ultimately show "lower mod 16 = 0"
    using all by (metis add_diff_cancel_right' diff_add dvd_diff_nat mod_0_imp_dvd mod_eq_0_iff_dvd
        round_down_mod)
qed

section \<open>Properties\<close>

text \<open>
  C23: where the stack goes. In a region of memory the code decides exactly as the layout over
  the natural numbers does, for all 64-bit inputs: the same error, or the same two ends.
\<close>

theorem stack_initialization_layout:
  assumes "wf_memory m"
  shows "map_option (\<lambda>(r, _). map_sum id (\<lambda>ok. (unat (stack_bottom ok),
      unat (stack_top_exclusive ok))) r) (initialize_freestanding_stack s m b e n) =
    Some (stack_layout m (unat b) (unat e) (unat n))"
proof (cases "stack_layout m (unat b) (unat e) (unat n)")
  case (Inl c)
  then show ?thesis by (simp add: initialize_freestanding_stack_eq [OF assms])
next
  case (Inr lu)
  obtain lower upper where lu: "lu = (lower, upper)" by (cases lu)
  note lay = stack_layout_Inr [OF Inr [unfolded lu]]
  have "upper < 2 ^ 64" "lower < 2 ^ 64"
    using assms lay(4,8) by (simp_all add: wf_memory_def)
  with Inr show ?thesis
    by (simp add: initialize_freestanding_stack_eq [OF assms] lu unat_of_nat_64)
qed

lemma stack_initialization_layout_witness:
  "map_option (\<lambda>(r, _). map_sum id (\<lambda>ok. (unat (stack_bottom ok),
      unat (stack_top_exclusive ok))) r)
    (initialize_freestanding_stack initial_cpu_state sample_memory 0 0 5) = Some (Inr (0, 16))"
proof -
  have "stack_layout sample_memory 0 0 5 = Inr (0, 16)"
    by (simp add: stack_layout_def sample_memory_def end_address_exclusive_def round_up_def
        round_down_def)
  with wf_sample_memory stack_initialization_layout [of sample_memory initial_cpu_state 0 0 5] show ?thesis by simp
qed

text \<open>
  C24: a stack that is set up is usable. It is a 16-byte aligned range inside the memory and
  above the loaded image, at least as large as requested; the stack pointer is its upper end
  (modulo the address space), and no other register and not the program counter changes.
\<close>

theorem stack_initialization_sound:
  assumes "initialize_freestanding_stack s m b e n = Some (Inr r, s')"
    and "wf_memory m" and "wf_cpu s"
  shows "unat (base_address m) \<le> unat (stack_bottom r) \<and> unat e \<le> unat (stack_bottom r) \<and>
    unat (stack_bottom r) + unat n \<le> unat (stack_top_exclusive r) \<and>
    unat (stack_bottom r) + unat (stack_size_bytes r) = unat (stack_top_exclusive r) \<and>
    unat (stack_top_exclusive r) \<le> end_address_exclusive m \<and>
    16 dvd unat (stack_bottom r) \<and> 16 dvd unat (stack_top_exclusive r) \<and>
    initial_stack_pointer r = ucast (stack_top_exclusive r) \<and>
    program_counter s' = program_counter s \<and>
    (\<forall>j < 32. reg s' j = (if j = 2 then initial_stack_pointer r else reg s j))"
proof -
  obtain lower upper where lay: "stack_layout m (unat b) (unat e) (unat n) = Inr (lower, upper)" and
    r: "r = \<lparr>initial_stack_pointer = of_nat upper, stack_bottom = of_nat lower,
       stack_top_exclusive = of_nat upper, stack_size_bytes = of_nat (round_up (unat n))\<rparr>"
    and s': "s' = set_reg 2 (of_nat upper) s"
    using assms(1) by (auto simp: initialize_freestanding_stack_eq [OF assms(2)] split: sum.splits)
  note lay = stack_layout_Inr [OF lay]
  have "unat (of_nat upper :: u64) = upper" "unat (of_nat lower :: u64) = lower"
    "unat (of_nat (round_up (unat n)) :: u64) = round_up (unat n)"
    using assms(2) lay(3,4,8) by (auto intro!: unat_of_nat_64 simp: wf_memory_def)
  with lay show ?thesis
    by (auto simp: r s' reg_set_reg [OF assms(3)] ucast_of_nat)
qed

lemma stack_initialization_sound_witness:
  "\<exists>r s'. initialize_freestanding_stack initial_cpu_state sample_memory 0 0 5 =
       Some (Inr r, s') \<and> reg s' 2 = initial_stack_pointer r \<and>
     unat (stack_bottom r) + 5 \<le> unat (stack_top_exclusive r)"
proof -
  have "case initialize_freestanding_stack initial_cpu_state sample_memory 0 0 5 of
    Some (Inr _, _) \<Rightarrow> True | _ \<Rightarrow> False" by code_simp
  then obtain r s' where r: "initialize_freestanding_stack initial_cpu_state sample_memory 0 0 5 =
    Some (Inr r, s')" by (auto split: option.splits sum.splits)
  from stack_initialization_sound [OF r wf_sample_memory] r show ?thesis by auto
qed

end
