(* ===== verification/Text_Format.thy ===== *)
theory Text_Format
  imports Prelude
begin

text \<open>
  Numbers as text: \<open>parse_unsigned\<close> and \<open>print_hex32\<close> of
  \<^verbatim>\<open>app/rvemu_cli.cpp\<close> (repeated in \<^verbatim>\<open>app/rvemu_debugger.cpp\<close>), what
  they use of \<^verbatim>\<open>std::from_chars\<close> and of the stream manipulators, and the splitting
  of a command line into words. Text is a list of characters; an output stream is the text
  written so far.
\<close>

section \<open>Digits\<close>

definition digit_value :: "char \<Rightarrow> nat option" where
  "digit_value c =
     (let n = of_char c :: nat
      in if 48 \<le> n \<and> n \<le> 57 then Some (n - 48)
         else if 97 \<le> n \<and> n \<le> 102 then Some (n - 87)
         else if 65 \<le> n \<and> n \<le> 70 then Some (n - 55)
         else None)"

definition is_digit :: "nat \<Rightarrow> char \<Rightarrow> bool" where
  "is_digit base c = (case digit_value c of Some d \<Rightarrow> d < base | None \<Rightarrow> False)"

definition digit_char :: "nat \<Rightarrow> char" where
  "digit_char d = (if d < 10 then char_of (48 + d) else char_of (87 + d))"

definition number_of :: "nat \<Rightarrow> string \<Rightarrow> nat" where
  "number_of base ds = foldl (\<lambda>acc c. acc * base + the (digit_value c)) 0 ds"

text \<open>
  \<^verbatim>\<open>std::from_chars\<close> on an unsigned type with greatest value \<open>limit\<close>: the longest
  prefix of digits is the number, the rest of the text is returned; no digit and a number
  out of range are errors.
\<close>

definition from_chars :: "nat \<Rightarrow> nat \<Rightarrow> string \<Rightarrow> (nat \<times> string) option" where
  "from_chars base limit s =
     (let ds = takeWhile (is_digit base) s
      in if ds = [] \<or> number_of base ds > limit then None
         else Some (number_of base ds, dropWhile (is_digit base) s))"

text \<open>The decimal or hexadecimal text of a number, as a stream inserts it.\<close>

function show_base :: "nat \<Rightarrow> nat \<Rightarrow> string" where
  "show_base base n =
     (if n < base \<or> base < 2 then [digit_char n]
      else show_base base (n div base) @ [digit_char (n mod base)])"
  by pat_completeness auto
termination
  by (relation "measure (\<lambda>(base, n). n)") auto

declare show_base.simps [simp del]

definition show_nat :: "nat \<Rightarrow> string" where
  "show_nat n = show_base 10 n"

section \<open>The code\<close>

definition parse_unsigned :: "string \<Rightarrow> 'a::len word option" where
  "parse_unsigned s =
     (if s = [] \<or> hd s = CHR ''+'' \<or> hd s = CHR ''-'' then None
      else let hex = (length s \<ge> 2 \<and> s ! 0 = CHR ''0'' \<and> (s ! 1 = CHR ''x'' \<or> s ! 1 = CHR ''X''));
               base = (if hex then 16 else 10);
               digits = (if hex then drop 2 s else s)
        in if digits = [] then None
           else case from_chars base (unat (- 1 :: 'a word)) digits of
             Some (v, []) \<Rightarrow> Some (of_nat v)
           | _ \<Rightarrow> None)"

definition print_hex32 :: "u32 \<Rightarrow> string" where
  "print_hex32 v =
     (let ds = show_base 16 (unat v)
      in ''0x'' @ replicate (8 - length ds) (CHR ''0'') @ ds)"

text \<open>Words of a line, separated by the white space of the C locale.\<close>

definition is_space :: "char \<Rightarrow> bool" where
  "is_space c \<longleftrightarrow> (let n = of_char c :: nat in n = 32 \<or> 9 \<le> n \<and> n \<le> 13)"

fun split_words :: "string \<Rightarrow> string \<Rightarrow> string list" where
  "split_words word [] = (if word = [] then [] else [word])"
| "split_words word (c # cs) =
     (if is_space c then (if word = [] then split_words [] cs else word # split_words [] cs)
      else split_words (word @ [c]) cs)"

definition split_command :: "string \<Rightarrow> string list" where
  "split_command line = split_words [] line"

section \<open>Printing and parsing are inverse\<close>

lemma digit_value_char: "d < 16 \<Longrightarrow> digit_value (digit_char d) = Some d"
  by (simp add: digit_value_def digit_char_def)

lemma is_digit_char: "d < base \<Longrightarrow> base \<le> 16 \<Longrightarrow> is_digit base (digit_char d)"
  by (simp add: is_digit_def digit_value_char)

lemma number_of_snoc: "number_of base (ds @ [c]) = number_of base ds * base + the (digit_value c)"
  by (simp add: number_of_def)

lemma number_of_zeros: "number_of base (replicate k (CHR ''0'') @ ds) = number_of base ds"
proof -
  have "digit_value (CHR ''0'') = Some 0" by (simp add: digit_value_def)
  then have "foldl (\<lambda>acc c. acc * base + the (digit_value c)) 0 (replicate k (CHR ''0'')) = 0"
    by (induction k) simp_all
  then show ?thesis by (simp add: number_of_def)
qed

lemma show_base_number:
  assumes "2 \<le> base" and "base \<le> 16"
  shows "number_of base (show_base base n) = n"
  using assms
proof (induction base n rule: show_base.induct)
  case (1 base n)
  show ?case
  proof (cases "n < base")
    case True
    with 1 show ?thesis
      by (subst show_base.simps) (simp add: number_of_def digit_value_char)
  next
    case False
    with 1 have "number_of base (show_base base (n div base)) = n div base" by simp
    moreover have "n mod base < 16" using 1(2,3) mod_less_divisor [of base n] by linarith
    ultimately show ?thesis using False 1
      by (subst show_base.simps) (simp add: number_of_snoc digit_value_char)
  qed
qed

lemma show_base_digits:
  assumes "2 \<le> base" and "base \<le> 16" and "c \<in> set (show_base base n)"
  shows "is_digit base c"
  using assms
proof (induction base n rule: show_base.induct)
  case (1 base n)
  have "show_base base n = (if n < base then [digit_char n]
      else show_base base (n div base) @ [digit_char (n mod base)])"
    using 1(2) by (subst show_base.simps) simp
  then have "is_digit base c \<or> \<not> n < base \<and> c \<in> set (show_base base (n div base))"
    using 1(2-4) by (auto simp: is_digit_char split: if_splits)
  then show ?case using 1 by auto
qed

lemma show_base_nonempty [simp]: "show_base base n \<noteq> []"
  by (subst show_base.simps) simp

lemma length_show_base:
  assumes "n < base ^ Suc k" and "2 \<le> base"
  shows "length (show_base base n) \<le> Suc k"
  using assms
proof (induction k arbitrary: n)
  case 0
  then show ?case by (subst show_base.simps) simp
next
  case (Suc k)
  have "n div base < base ^ Suc k"
    using Suc.prems by (simp add: less_mult_imp_div_less mult.commute)
  from Suc.IH [OF this Suc.prems(2)] show ?case by (subst show_base.simps) simp
qed

lemma from_chars_digits:
  assumes "ds \<noteq> []" and "\<forall>c \<in> set ds. is_digit base c" and "number_of base ds \<le> limit"
  shows "from_chars base limit ds = Some (number_of base ds, [])"
proof -
  have all: "takeWhile (is_digit base) ds = ds" "dropWhile (is_digit base) ds = []"
    using assms(2) by (simp_all add: takeWhile_eq_all_conv)
  show ?thesis using assms(1,3) unfolding from_chars_def Let_def all by simp
qed

lemma not_digits:
  "\<not> is_digit 10 (CHR ''+'')" "\<not> is_digit 10 (CHR ''-'')" "\<not> is_digit 10 (CHR ''x'')"
  "\<not> is_digit 10 (CHR ''X'')"
  by (simp_all add: is_digit_def digit_value_def)

text \<open>A decimal number in range is parsed to its value.\<close>

lemma parse_decimal:
  assumes "n \<le> unat (- 1 :: 'a::len word)"
  shows "parse_unsigned (show_nat n) = Some (of_nat n :: 'a word)"
proof -
  let ?s = "show_base 10 n"
  have digits: "\<forall>c \<in> set ?s. is_digit 10 c" using show_base_digits [of 10] by simp
  then have "hd ?s \<noteq> CHR ''+''" "hd ?s \<noteq> CHR ''-''"
    using not_digits by (metis hd_in_set show_base_nonempty)+
  moreover have "length ?s \<ge> 2 \<Longrightarrow> ?s ! 1 \<noteq> CHR ''x'' \<and> ?s ! 1 \<noteq> CHR ''X''"
    using digits not_digits by (metis Suc_le_eq nth_mem numeral_2_eq_2 One_nat_def)
  moreover have "from_chars 10 (unat (- 1 :: 'a word)) ?s = Some (n, [])"
    using from_chars_digits [of ?s 10] digits assms by (simp add: show_base_number)
  ultimately show ?thesis by (auto simp: parse_unsigned_def show_nat_def Let_def)
qed

text \<open>An address as it is printed is parsed to the same address.\<close>

lemma parse_show_word:
  fixes v :: "'a::len word"
  shows "parse_unsigned (show_nat (unat v)) = Some v"
  using parse_decimal [where 'a = 'a, of "unat v"] by (simp add: word_le_nat_alt [symmetric])

lemma parse_hex32: "parse_unsigned (print_hex32 v) = Some v"
proof -
  let ?ds = "show_base 16 (unat v)"
  let ?p = "replicate (8 - length ?ds) (CHR ''0'') @ ?ds"
  have zero: "is_digit 16 (CHR ''0'')" by (simp add: is_digit_def digit_value_def)
  have "\<forall>c \<in> set ?p. is_digit 16 c"
    using show_base_digits [of 16] zero by auto
  moreover have "number_of 16 ?p = unat v" by (simp add: number_of_zeros show_base_number)
  moreover have "unat v \<le> unat (- 1 :: u32)"
    using unat_lt_2_32 [of v] by (simp add: unsigned_minus_1_eq_mask mask_eq_exp_minus_1)
  ultimately have "from_chars 16 (unat (- 1 :: u32)) ?p = Some (unat v, [])"
    using from_chars_digits [of ?p 16] by simp
  then show ?thesis by (simp add: parse_unsigned_def print_hex32_def Let_def)
qed

lemma length_print_hex32: "length (print_hex32 v) = 10"
proof -
  have "length (show_base 16 (unat v)) \<le> 8"
    using length_show_base [of "unat v" 16 7] unat_lt_2_32 [of v] by simp
  then show ?thesis by (simp add: print_hex32_def Let_def)
qed

section \<open>Properties\<close>

lemma from_chars_exact:
  "from_chars base limit s = Some (n, []) \<longleftrightarrow>
     s \<noteq> [] \<and> (\<forall>c \<in> set s. is_digit base c) \<and> number_of base s = n \<and> n \<le> limit"
proof
  assume s: "from_chars base limit s = Some (n, [])"
  then have "dropWhile (is_digit base) s = []"
    by (auto simp: from_chars_def Let_def split: if_splits)
  then have all: "\<forall>c \<in> set s. is_digit base c" by (simp add: dropWhile_eq_Nil_conv)
  then have same: "takeWhile (is_digit base) s = s" by (simp add: takeWhile_eq_all_conv)
  from s have "s \<noteq> [] \<and> number_of base s = n \<and> n \<le> limit"
    unfolding from_chars_def Let_def same by (auto split: if_splits)
  with all show "s \<noteq> [] \<and> (\<forall>c \<in> set s. is_digit base c) \<and> number_of base s = n \<and> n \<le> limit"
    by blast
qed (use from_chars_digits in auto)

text \<open>The base, the prefix and the digits of a number that the code reads.\<close>

definition numeral_of :: "string \<Rightarrow> nat \<times> string" where
  "numeral_of s = (if take 2 s = ''0x'' \<or> take 2 s = ''0X'' then (16, drop 2 s) else (10, s))"

lemma hex_prefix_iff:
  "(length s \<ge> 2 \<and> s ! 0 = CHR ''0'' \<and> (s ! 1 = CHR ''x'' \<or> s ! 1 = CHR ''X'')) \<longleftrightarrow>
     take 2 s = ''0x'' \<or> take 2 s = ''0X''"
  by (cases s rule: remdups_adj.cases) auto

text \<open>
  C36: exactly the numerals in range are read. A text is parsed as the value \<open>v\<close> of a word type
  if and only if it is a nonempty sequence of digits, decimal or hexadecimal after \<open>0x\<close> or
  \<open>0X\<close>, whose number is \<open>v\<close>: no sign, no other character, no empty text, no wrap-around.
\<close>

theorem parse_unsigned_exact:
  fixes v :: "'a::len word"
  shows "parse_unsigned s = Some v \<longleftrightarrow> (case numeral_of s of (base, ds) \<Rightarrow>
    ds \<noteq> [] \<and> (\<forall>c \<in> set ds. is_digit base c) \<and> number_of base ds = unat v)"
proof (cases "s = [] \<or> hd s = CHR ''+'' \<or> hd s = CHR ''-''")
  case True
  then have none: "parse_unsigned s = (None :: 'a word option)" by (simp add: parse_unsigned_def)
  from True have "numeral_of s = (10, s)" by (cases s) (auto simp: numeral_of_def)
  with True none show ?thesis using not_digits(1,2) by (cases s) auto
next
  case False
  let ?base = "fst (numeral_of s)" and ?ds = "snd (numeral_of s)"
  have "parse_unsigned s = (if ?ds = [] then None
      else case from_chars ?base (unat (- 1 :: 'a word)) ?ds of
        Some (n, []) \<Rightarrow> Some (of_nat n :: 'a word) | _ \<Rightarrow> None)"
    unfolding parse_unsigned_def hex_prefix_iff Let_def if_not_P [OF False]
    by (cases "take 2 s = ''0x'' \<or> take 2 s = ''0X''")
      (simp_all only: numeral_of_def if_True if_False fst_conv snd_conv)
  also have "\<dots> = Some v \<longleftrightarrow> (\<exists>n. from_chars ?base (unat (- 1 :: 'a word)) ?ds = Some (n, []) \<and>
      of_nat n = v)"
    by (cases "?ds = []")
      (simp add: from_chars_def, auto split: option.splits list.splits)
  also have "\<dots> \<longleftrightarrow> ?ds \<noteq> [] \<and> (\<forall>c \<in> set ?ds. is_digit ?base c) \<and> number_of ?base ?ds = unat v"
  proof -
    have "of_nat n = v \<longleftrightarrow> n = unat v" if "n \<le> unat (- 1 :: 'a word)" for n
    proof -
      have "n < 2 ^ LENGTH('a)" using that unsigned_less by (rule le_less_trans)
      then have "unat (of_nat n :: 'a word) = n"
        by (simp add: unsigned_of_nat take_bit_nat_eq_self_iff)
      then show ?thesis by auto
    qed
    moreover have "unat v \<le> unat (- 1 :: 'a word)"
      by (simp flip: word_le_nat_alt)
    ultimately show ?thesis by (auto simp: from_chars_exact)
  qed
  finally show ?thesis by (simp add: split_beta)
qed

theorem parse_unsigned_exact_witness: "parse_unsigned ''0x1F'' = Some (31 :: u32)"
  by (subst parse_unsigned_exact) (simp add: numeral_of_def is_digit_def digit_value_def
    number_of_def)

text \<open>
  What is printed is read back: eight hexadecimal digits after \<open>0x\<close>, and decimals.
\<close>

theorem numbers_round_trip:
  fixes w :: "'a::len word"
  shows "parse_unsigned (print_hex32 v) = Some v \<and> length (print_hex32 v) = 10 \<and>
    parse_unsigned (show_nat (unat w)) = Some w"
  by (simp add: parse_hex32 length_print_hex32 parse_show_word)

end
