(* ===== verification/Debugger.thy ===== *)
theory Debugger
  imports Program_Session Text_Format
begin

text \<open>
  The interactive debugger: \<^verbatim>\<open>class InteractiveDebugger\<close> of
  \<^verbatim>\<open>app/rvemu_debugger.hpp\<close> and \<^verbatim>\<open>app/rvemu_debugger.cpp\<close>. The
  debugger holds the session it drives; the input stream is the list of its lines, the output
  stream the text written so far. As in the session, the observer and the environment are
  parameters and the outer \<open>option\<close> is an exception that escapes.
\<close>

section \<open>Data\<close>

datatype debugger_result =
    DebuggerQuit session_statistics
  | DebuggerStopped session_run_result

record ('o, 'h) debugger =
  session_of :: "('o, 'h) session"
  maximum_guest_steps :: u64
  debugger_statistics :: session_statistics
  breakpoints :: "u32 list"
  stopped_at_breakpoint :: bool
  console :: string

definition kMaximumMemoryDisplayBytes :: nat where "kMaximumMemoryDisplayBytes = 256"
definition kMemoryBytesPerLine :: nat where "kMemoryBytesPerLine = 16"

definition kApplicationRegisterNames :: "string list" where
  "kApplicationRegisterNames =
     [''zero'', ''ra'', ''sp'', ''gp'', ''tp'', ''t0'', ''t1'', ''t2'',
      ''s0'', ''s1'', ''a0'', ''a1'', ''a2'', ''a3'', ''a4'', ''a5'',
      ''a6'', ''a7'', ''s2'', ''s3'', ''s4'', ''s5'', ''s6'', ''s7'',
      ''s8'', ''s9'', ''s10'', ''s11'', ''t3'', ''t4'', ''t5'', ''t6'']"

definition make_debugger :: "('o, 'h) session \<Rightarrow> u64 \<Rightarrow> ('o, 'h) debugger" where
  "make_debugger s maximum =
     \<lparr>session_of = s, maximum_guest_steps = maximum, debugger_statistics = initial_statistics,
      breakpoints = [], stopped_at_breakpoint = False, console = []\<rparr>"

abbreviation guest_cpu :: "('o, 'h) debugger \<Rightarrow> cpu_state" where
  "guest_cpu d \<equiv> state (engine_of (session_of d))"

abbreviation guest_memory :: "('o, 'h) debugger \<Rightarrow> memory" where
  "guest_memory d \<equiv> memory_of (engine_of (session_of d))"

section \<open>Output\<close>

definition newline :: string where
  "newline = [CHR 0x0A]"

definition say :: "string \<Rightarrow> ('o, 'h) debugger \<Rightarrow> ('o, 'h) debugger" where
  "say s d = d\<lparr>console := console d @ s\<rparr>"

text \<open>The message of a memory exception.\<close>

fun operation_name :: "memory_operation \<Rightarrow> string" where
  "operation_name Read = ''read''"
| "operation_name Write = ''write''"

definition access_error_message :: "string \<Rightarrow> u32 \<Rightarrow> nat \<Rightarrow> memory_operation \<Rightarrow> string" where
  "access_error_message reason address width operation =
     ''memory '' @ operation_name operation @ '' '' @ reason @ '': address=0x'' @
     show_base 16 (unat address) @ '', width='' @ show_nat width"

fun error_what :: "memory_error \<Rightarrow> string" where
  "error_what (MemoryOutOfBoundsError a w oper) =
     access_error_message ''is out of bounds'' a w oper"
| "error_what (MemoryMisalignmentError a w oper) =
     access_error_message ''is misaligned'' a w oper"

definition print_help :: string where
  "print_help = concat (map (\<lambda>l. l @ newline)
     [''commands:'',
      ''  continue, c             run until a breakpoint or termination'',
      ''  step, s                 execute one guest step'',
      ''  break, b [ADDRESS]      list or add a breakpoint'',
      ''  delete, d ADDRESS|all   remove breakpoint(s)'',
      ''  registers, r            display PC and all integer registers'',
      ''  memory, x ADDRESS [N]   display 1-256 bytes (default 16)'',
      ''  help, h                 display this help'',
      ''  quit, q                 leave without running further''])"

definition print_registers :: "cpu_state \<Rightarrow> string option" where
  "print_registers s = do {
     rows \<leftarrow> those (map (\<lambda>index. do {
       v \<leftarrow> read_register s index;
       Some (''x'' @ show_nat index @ '' ('' @ kApplicationRegisterNames ! index @ '') = '' @
         print_hex32 v @ newline)
     }) [0..<kRegisterCount]);
     Some (''pc = '' @ print_hex32 (program_counter s) @ newline @ concat rows)
   }"

definition print_byte :: "u8 \<Rightarrow> string" where
  "print_byte b = (let ds = show_base 16 (unat b)
     in '' '' @ replicate (2 - length ds) (CHR ''0'') @ ds)"

fun print_rows :: "u32 \<Rightarrow> nat \<Rightarrow> u8 list \<Rightarrow> string" where
  "print_rows address offset [] = []"
| "print_rows address offset (b # bs) =
     (if offset mod kMemoryBytesPerLine = 0
      then (if offset \<noteq> 0 then newline else []) @ print_hex32 (address + of_nat offset) @ '':''
      else []) @ print_byte b @ print_rows address (offset + 1) bs"

definition print_memory :: "memory \<Rightarrow> u32 \<Rightarrow> nat \<Rightarrow> string" where
  "print_memory m address count =
     (case read_span m address count of
        Inl e \<Rightarrow> ''cannot inspect memory: '' @ error_what e @ newline
      | Inr bs \<Rightarrow> print_rows address 0 bs @ newline)"

definition print_breakpoints :: "u32 list \<Rightarrow> string" where
  "print_breakpoints bps =
     (if bps = [] then ''no breakpoints'' @ newline
      else concat (map (\<lambda>a. print_hex32 a @ newline) bps))"

section \<open>Breakpoints\<close>

text \<open>
  \<^verbatim>\<open>std::ranges::lower_bound\<close> on a sorted vector: the position of the first element
  that is not below the address.
\<close>

definition lower_bound :: "u32 list \<Rightarrow> u32 \<Rightarrow> nat" where
  "lower_bound bps address = length (takeWhile (\<lambda>b. b < address) bps)"

definition found_at :: "u32 list \<Rightarrow> nat \<Rightarrow> u32 \<Rightarrow> bool" where
  "found_at bps position address \<longleftrightarrow> position < length bps \<and> bps ! position = address"

definition add_breakpoint :: "u32 \<Rightarrow> ('o, 'h) debugger \<Rightarrow> ('o, 'h) debugger" where
  "add_breakpoint address d =
     (if address AND 0x3 \<noteq> 0
      then say (''breakpoint addresses must be four-byte aligned'' @ newline) d
      else case read_span (guest_memory d) address 4 of
        Inl e \<Rightarrow> say (''cannot set breakpoint: '' @ error_what e @ newline) d
      | Inr _ \<Rightarrow>
          let position = lower_bound (breakpoints d) address;
              d = (if found_at (breakpoints d) position address
                then say ''breakpoint already exists at '' d
                else say ''breakpoint added at '' (d\<lparr>breakpoints :=
                  take position (breakpoints d) @ address # drop position (breakpoints d)\<rparr>))
          in say (print_hex32 address @ newline) d)"

definition remove_breakpoint :: "u32 \<Rightarrow> ('o, 'h) debugger \<Rightarrow> ('o, 'h) debugger" where
  "remove_breakpoint address d =
     (let position = lower_bound (breakpoints d) address;
          d = (if \<not> found_at (breakpoints d) position address
            then say ''no breakpoint exists at '' d
            else let d = d\<lparr>breakpoints :=
                       take position (breakpoints d) @ drop (position + 1) (breakpoints d)\<rparr>;
                     d = (if address = program_counter (guest_cpu d)
                       then d\<lparr>stopped_at_breakpoint := False\<rparr> else d)
              in say ''breakpoint deleted at '' d)
      in say (print_hex32 address @ newline) d)"

section \<open>Execution\<close>

definition add_statistics :: "session_statistics \<Rightarrow> session_statistics \<Rightarrow> session_statistics" where
  "add_statistics whole additional = \<lparr>
     guest_steps = guest_steps whole + guest_steps additional,
     instructions_retired = instructions_retired whole + instructions_retired additional,
     environment_calls_handled =
       environment_calls_handled whole + environment_calls_handled additional\<rparr>"

definition exit_message :: "u32 \<Rightarrow> string" where
  "exit_message code = ''guest exited with status '' @ show_nat (unat code) @ newline"

definition execute_one ::
  "'o observe \<Rightarrow> 'h handler \<Rightarrow> bool \<Rightarrow> ('o, 'h) debugger \<Rightarrow>
     (debugger_result option \<times> ('o, 'h) debugger) option" where
  "execute_one obs handle report_success d = do {
     let d = d\<lparr>stopped_at_breakpoint := False\<rparr>;
     (result, s) \<leftarrow> session_step obs handle (session_of d);
     let d = d\<lparr>session_of := s\<rparr>;
     let report = (\<lambda>d. if report_success
       then say (''stepped to PC '' @ print_hex32 (program_counter (guest_cpu d)) @ newline) d
       else d);
     case result of
       SessionInstructionCompleted _ \<Rightarrow>
         Some (None, report (d\<lparr>debugger_statistics :=
           count_instruction (debugger_statistics d)\<rparr>))
     | SessionEnvironmentCallResumed _ _ _ \<Rightarrow>
         Some (None, report (d\<lparr>debugger_statistics := count_call (debugger_statistics d)\<rparr>))
     | SessionExited call code \<Rightarrow>
         let d = say (exit_message code) (d\<lparr>debugger_statistics :=
           count_call (debugger_statistics d)\<rparr>)
         in Some (Some (DebuggerStopped (SessionRunExited (debugger_statistics d) call code)), d)
     | SessionUnhandledEnvironmentCall call t \<Rightarrow>
         Some (Some (DebuggerStopped
           (SessionRunUnhandledEnvironmentCall (debugger_statistics d) call t)), d)
     | SessionTrap t \<Rightarrow>
         Some (Some (DebuggerStopped (SessionRunTrapped (debugger_statistics d) t)), d)
   }"

text \<open>The part of \<open>continue_execution\<close> that runs the session with the remaining budget.\<close>

definition run_remaining ::
  "'o observe \<Rightarrow> 'h handler \<Rightarrow> ('o, 'h) debugger \<Rightarrow>
     (debugger_result option \<times> ('o, 'h) debugger) option" where
  "run_remaining obs handle d = do {
     let remaining_steps = maximum_guest_steps d - guest_steps (debugger_statistics d);
     (result, s) \<leftarrow> session_run obs handle remaining_steps (breakpoints d) (session_of d);
     let d = d\<lparr>session_of := s\<rparr>;
     let add = (\<lambda>st. d\<lparr>debugger_statistics := add_statistics (debugger_statistics d) st\<rparr>);
     case result of
       SessionBreakpointReached st pc \<Rightarrow>
         Some (None, say (''breakpoint reached at PC '' @ print_hex32 pc @ newline)
           ((add st)\<lparr>stopped_at_breakpoint := True\<rparr>))
     | SessionStepLimitReached st \<Rightarrow>
         Some (Some (DebuggerStopped
           (SessionStepLimitReached (debugger_statistics (add st)))), add st)
     | SessionRunExited st call code \<Rightarrow>
         Some (Some (DebuggerStopped
           (SessionRunExited (debugger_statistics (add st)) call code)),
           say (exit_message code) (add st))
     | SessionRunUnhandledEnvironmentCall st call t \<Rightarrow>
         Some (Some (DebuggerStopped
           (SessionRunUnhandledEnvironmentCall (debugger_statistics (add st)) call t)), add st)
     | SessionRunTrapped st t \<Rightarrow>
         Some (Some (DebuggerStopped
           (SessionRunTrapped (debugger_statistics (add st)) t)), add st)
   }"

definition budget_exhausted :: "('o, 'h) debugger \<Rightarrow> bool" where
  "budget_exhausted d \<longleftrightarrow> guest_steps (debugger_statistics d) \<ge> maximum_guest_steps d"

definition limit_reached :: "('o, 'h) debugger \<Rightarrow> (debugger_result option \<times> ('o, 'h) debugger) option"
  where
  "limit_reached d =
     Some (Some (DebuggerStopped (SessionStepLimitReached (debugger_statistics d))), d)"

definition continue_execution ::
  "'o observe \<Rightarrow> 'h handler \<Rightarrow> ('o, 'h) debugger \<Rightarrow>
     (debugger_result option \<times> ('o, 'h) debugger) option" where
  "continue_execution obs handle d =
     (if budget_exhausted d then limit_reached d
      else if stopped_at_breakpoint d then do {
        (terminal, d) \<leftarrow> execute_one obs handle False d;
        case terminal of
          Some r \<Rightarrow> Some (Some r, d)
        | None \<Rightarrow> if budget_exhausted d then limit_reached d else run_remaining obs handle d
      }
      else run_remaining obs handle d)"

section \<open>Commands\<close>

definition is_command :: "string \<Rightarrow> string \<Rightarrow> string \<Rightarrow> bool" where
  "is_command word long_name short_name \<longleftrightarrow> word = long_name \<or> word = short_name"

definition memory_command :: "string list \<Rightarrow> ('o, 'h) debugger \<Rightarrow> ('o, 'h) debugger" where
  "memory_command ws d =
     (if length ws < 2 \<or> length ws > 3 then say (''usage: memory ADDRESS [COUNT]'' @ newline) d
      else let address = (parse_unsigned (ws ! 1) :: u32 option);
               count = (if length ws = 3 then map_option unat (parse_unsigned (ws ! 2) :: u64 option)
                 else Some 16)
        in case (address, count) of
             (Some a, Some n) \<Rightarrow>
               if n = 0 \<or> n > kMaximumMemoryDisplayBytes
               then say (''memory requires a 32-bit address and a count from 1 to '' @
                 show_nat kMaximumMemoryDisplayBytes @ newline) d
               else say (print_memory (guest_memory d) a n) d
           | _ \<Rightarrow> say (''memory requires a 32-bit address and a count from 1 to '' @
               show_nat kMaximumMemoryDisplayBytes @ newline) d)"

definition break_command :: "string list \<Rightarrow> ('o, 'h) debugger \<Rightarrow> ('o, 'h) debugger" where
  "break_command ws d =
     (if length ws = 1 then say (print_breakpoints (breakpoints d)) d
      else if length ws \<noteq> 2 then say (''usage: break [ADDRESS]'' @ newline) d
      else case parse_unsigned (ws ! 1) of
        None \<Rightarrow> say (''break requires a valid 32-bit address'' @ newline) d
      | Some address \<Rightarrow> add_breakpoint address d)"

definition delete_command :: "string list \<Rightarrow> ('o, 'h) debugger \<Rightarrow> ('o, 'h) debugger" where
  "delete_command ws d =
     (if length ws \<noteq> 2 then say (''usage: delete ADDRESS|all'' @ newline) d
      else if ws ! 1 = ''all''
      then say (''all breakpoints deleted'' @ newline)
        (d\<lparr>breakpoints := [], stopped_at_breakpoint := False\<rparr>)
      else case parse_unsigned (ws ! 1) of
        None \<Rightarrow> say (''delete requires a valid 32-bit address or '' @ [CHR 0x27] @ ''all'' @
          [CHR 0x27] @ newline) d
      | Some address \<Rightarrow> remove_breakpoint address d)"

text \<open>One iteration of the command loop on the words of a line.\<close>

definition execute_command ::
  "'o observe \<Rightarrow> 'h handler \<Rightarrow> string list \<Rightarrow> ('o, 'h) debugger \<Rightarrow>
     (debugger_result option \<times> ('o, 'h) debugger) option" where
  "execute_command obs handle ws d =
     (if ws = [] then Some (None, d)
      else let command = hd ws; alone = (length ws = 1)
        in if is_command command ''help'' ''h'' then
             Some (None, say (if alone then print_help else ''usage: help'' @ newline) d)
           else if is_command command ''step'' ''s'' then
             (if \<not> alone then Some (None, say (''usage: step'' @ newline) d)
              else if budget_exhausted d then limit_reached d
              else execute_one obs handle True d)
           else if is_command command ''continue'' ''c'' then
             (if \<not> alone then Some (None, say (''usage: continue'' @ newline) d)
              else continue_execution obs handle d)
           else if is_command command ''registers'' ''r'' then
             (if \<not> alone then Some (None, say (''usage: registers'' @ newline) d)
              else map_option (\<lambda>rows. (None, say rows d)) (print_registers (guest_cpu d)))
           else if is_command command ''memory'' ''x'' then Some (None, memory_command ws d)
           else if is_command command ''break'' ''b'' then Some (None, break_command ws d)
           else if is_command command ''delete'' ''d'' then Some (None, delete_command ws d)
           else if is_command command ''quit'' ''q'' then
             (if \<not> alone then Some (None, say (''usage: quit'' @ newline) d)
              else Some (Some (DebuggerQuit (debugger_statistics d)),
                say (''leaving debugger'' @ newline) d))
           else Some (None, say (''unknown debugger command: '' @ command @ ''; type '' @
             [CHR 0x27] @ ''help'' @ [CHR 0x27] @ '' for commands'' @ newline) d))"

fun command_loop ::
  "'o observe \<Rightarrow> 'h handler \<Rightarrow> string list \<Rightarrow> ('o, 'h) debugger \<Rightarrow>
     (debugger_result \<times> ('o, 'h) debugger) option" where
  "command_loop obs handle [] d =
     (let d = say ''(rvemu) '' d
      in Some (DebuggerQuit (debugger_statistics d),
           say (newline @ ''input closed; leaving debugger'' @ newline) d))"
| "command_loop obs handle (line # rest) d =
     (case execute_command obs handle (split_command line) (say ''(rvemu) '' d) of
        None \<Rightarrow> None
      | Some (Some r, d) \<Rightarrow> Some (r, d)
      | Some (None, d) \<Rightarrow> command_loop obs handle rest d)"

definition debugger_run ::
  "'o observe \<Rightarrow> 'h handler \<Rightarrow> string list \<Rightarrow> ('o, 'h) debugger \<Rightarrow>
     (debugger_result \<times> ('o, 'h) debugger) option" where
  "debugger_run obs handle lines d =
     command_loop obs handle lines (say (''rvemu interactive debugger; type '' @
       [CHR 0x27] @ ''help'' @ [CHR 0x27] @ '' for commands'' @ newline @ ''stopped at PC '' @
       print_hex32 (program_counter (guest_cpu d)) @ newline) d)"

section \<open>The breakpoint list\<close>

lemma say_fields [simp]:
  "session_of (say s d) = session_of d" "maximum_guest_steps (say s d) = maximum_guest_steps d"
  "debugger_statistics (say s d) = debugger_statistics d" "breakpoints (say s d) = breakpoints d"
  "stopped_at_breakpoint (say s d) = stopped_at_breakpoint d"
  "console (say s d) = console d @ s"
  by (simp_all add: say_def)

text \<open>Strictly ascending, and every address is aligned and mapped.\<close>

definition wf_breakpoints :: "memory \<Rightarrow> u32 list \<Rightarrow> bool" where
  "wf_breakpoints m bps \<longleftrightarrow> sorted_wrt (<) bps \<and>
     (\<forall>a \<in> set bps. unat a mod 4 = 0 \<and> mapped m a 4)"

lemma take_takeWhile: "take (length (takeWhile P xs)) xs = takeWhile P xs"
  by (metis append_eq_conv_conj takeWhile_dropWhile_id)

lemma drop_takeWhile: "drop (length (takeWhile P xs)) xs = dropWhile P xs"
  by (simp add: dropWhile_eq_drop)

text \<open>The list split at its lower bound: what is below the address, and what is not.\<close>

lemma lower_bound_split:
  fixes a :: u32
  assumes "sorted_wrt (<) bps"
  defines "p \<equiv> lower_bound bps a"
  shows "bps = take p bps @ drop p bps" and "\<forall>b \<in> set (take p bps). b < a"
    and "\<forall>b \<in> set (drop p bps). a \<le> b"
    and "found_at bps p a \<longleftrightarrow> a \<in> set bps"
    and "found_at bps p a \<Longrightarrow> drop p bps = a # drop (p + 1) bps"
proof -
  have t: "take p bps = takeWhile (\<lambda>b. b < a) bps" and d: "drop p bps = dropWhile (\<lambda>b. b < a) bps"
    by (simp_all add: p_def lower_bound_def take_takeWhile drop_takeWhile)
  show "bps = take p bps @ drop p bps" by simp
  show below: "\<forall>b \<in> set (take p bps). b < a" by (auto simp: t dest: set_takeWhileD)
  show above: "\<forall>b \<in> set (drop p bps). a \<le> b"
  proof (cases "drop p bps")
    case (Cons b rest)
    have "sorted_wrt (<) (drop p bps)" using assms(1) by (simp add: sorted_wrt_drop)
    moreover have "\<not> b < a" using Cons d by (metis hd_dropWhile list.sel(1) list.discI)
    ultimately show ?thesis using Cons by auto
  qed simp
  show "found_at bps p a \<Longrightarrow> drop p bps = a # drop (p + 1) bps"
    by (auto simp: found_at_def Cons_nth_drop_Suc [symmetric])
  show "found_at bps p a \<longleftrightarrow> a \<in> set bps"
  proof
    assume "a \<in> set bps"
    then have "a \<in> set (drop p bps)"
      using below by (metis append_take_drop_id Un_iff set_append order.irrefl)
    then obtain b rest where c: "drop p bps = b # rest" by (cases "drop p bps") auto
    have s: "sorted_wrt (<) (b # rest)" using assms(1) c by (metis sorted_wrt_drop)
    have "a \<le> b" using above c by simp
    then have "b = a" using \<open>a \<in> set (drop p bps)\<close> s c by auto
    then show "found_at bps p a"
      using c by (metis found_at_def drop_eq_Nil hd_drop_conv_nth leI list.discI list.sel(1))
  qed (auto simp: found_at_def)
qed

lemma insert_at_lower_bound:
  assumes "sorted_wrt (<) bps" and "a \<notin> set bps"
  defines "p \<equiv> lower_bound bps a"
  shows "sorted_wrt (<) (take p bps @ a # drop p bps)"
    and "set (take p bps @ a # drop p bps) = insert a (set bps)"
proof -
  note split = lower_bound_split [OF assms(1), of a, folded p_def]
  have "sorted_wrt (<) (take p bps @ drop p bps)" using assms(1) by simp
  moreover have "\<forall>b \<in> set (drop p bps). a < b"
    using split(3) assms(2) by (metis in_set_dropD order_le_less)
  ultimately show "sorted_wrt (<) (take p bps @ a # drop p bps)"
    using split(2) by (auto simp: sorted_wrt_append simp del: append_take_drop_id)
  have "set bps = set (take p bps) \<union> set (drop p bps)"
    by (metis append_take_drop_id set_append)
  then show "set (take p bps @ a # drop p bps) = insert a (set bps)" by auto
qed

lemma erase_at_lower_bound:
  assumes "sorted_wrt (<) bps" and "a \<in> set bps"
  defines "p \<equiv> lower_bound bps a"
  shows "sorted_wrt (<) (take p bps @ drop (p + 1) bps)"
    and "set (take p bps @ drop (p + 1) bps) = set bps - {a}"
proof -
  note split = lower_bound_split [OF assms(1), of a, folded p_def]
  have d: "drop p bps = a # drop (p + 1) bps" using split(4,5) assms(2) by simp
  have "take p bps @ a # drop (p + 1) bps = bps" using d by (metis append_take_drop_id)
  then have "sorted_wrt (<) (take p bps @ a # drop (p + 1) bps)" using assms(1) by (simp only:)
  then have "sorted_wrt (<) (take p bps) \<and> sorted_wrt (<) (drop (p + 1) bps) \<and>
      (\<forall>x \<in> set (take p bps). x < a \<and> (\<forall>y \<in> set (drop (p + 1) bps). x < y)) \<and>
      (\<forall>y \<in> set (drop (p + 1) bps). a < y)"
    by (auto simp: sorted_wrt_append)
  then show "sorted_wrt (<) (take p bps @ drop (p + 1) bps)"
    and "set (take p bps @ drop (p + 1) bps) = set bps - {a}"
    using arg_cong [OF d, of set] set_append [of "take p bps" "drop p bps"]
    by (auto simp: sorted_wrt_append)
qed

lemma add_breakpoint_fields [simp]:
  "session_of (add_breakpoint a d) = session_of d"
  "maximum_guest_steps (add_breakpoint a d) = maximum_guest_steps d"
  "debugger_statistics (add_breakpoint a d) = debugger_statistics d"
  "stopped_at_breakpoint (add_breakpoint a d) = stopped_at_breakpoint d"
  by (simp_all add: add_breakpoint_def Let_def split: sum.splits)

lemma remove_breakpoint_fields [simp]:
  "session_of (remove_breakpoint a d) = session_of d"
  "maximum_guest_steps (remove_breakpoint a d) = maximum_guest_steps d"
  "debugger_statistics (remove_breakpoint a d) = debugger_statistics d"
  by (simp_all add: remove_breakpoint_def Let_def)

lemma breakpoints_add:
  assumes "sorted_wrt (<) (breakpoints d)"
  shows "sorted_wrt (<) (breakpoints (add_breakpoint a d))"
    and "set (breakpoints (add_breakpoint a d)) = (if unat a mod 4 = 0 \<and> mapped (guest_memory d) a 4
      then insert a (set (breakpoints d)) else set (breakpoints d))"
  using insert_at_lower_bound [OF assms, of a] lower_bound_split(4) [OF assms, of a] assms
  by (auto simp: add_breakpoint_def Let_def and_3_eq_0_iff read_span_eq)

lemma breakpoints_remove:
  assumes "sorted_wrt (<) (breakpoints d)"
  shows "sorted_wrt (<) (breakpoints (remove_breakpoint a d))"
    and "set (breakpoints (remove_breakpoint a d)) = set (breakpoints d) - {a}"
  using erase_at_lower_bound [OF assms, of a] lower_bound_split(4) [OF assms, of a] assms
  by (auto simp: remove_breakpoint_def Let_def)

section \<open>The guest under the debugger\<close>

text \<open>
  Whatever is typed, the guest executes a path of the plain session. \<open>progresses\<close>: a
  command that leaves the debugger running has executed the events of a path and counted
  them, within the step budget.
\<close>

definition progresses ::
  "'o observe \<Rightarrow> 'h handler \<Rightarrow> ('o, 'h) debugger \<Rightarrow> ('o, 'h) debugger \<Rightarrow> bool" where
  "progresses obs handle d d' \<longleftrightarrow> (\<exists>tr. session_path obs handle [] (session_of d) tr (session_of d') \<and>
     debugger_statistics d' = fold tally tr (debugger_statistics d) \<and>
     unat (guest_steps (debugger_statistics d)) + length tr \<le> unat (maximum_guest_steps d) \<and>
     maximum_guest_steps d' = maximum_guest_steps d)"

text \<open>
  \<open>finishes\<close>: the debugger returns after the events of a path, either because the user
  leaves, or because the budget is exactly used up, or because the guest stops.
\<close>

definition finishes ::
  "'o observe \<Rightarrow> 'h handler \<Rightarrow> ('o, 'h) debugger \<Rightarrow> debugger_result \<Rightarrow> ('o, 'h) debugger \<Rightarrow> bool" where
  "finishes obs handle d res d' \<longleftrightarrow> (\<exists>tr s' st. session_path obs handle [] (session_of d) tr s' \<and>
     st = fold tally tr (debugger_statistics d) \<and>
     (session_of d' = s' \<and> res = DebuggerQuit st \<and>
        unat (guest_steps (debugger_statistics d)) + length tr \<le> unat (maximum_guest_steps d) \<or>
      session_of d' = s' \<and> res = DebuggerStopped (SessionStepLimitReached st) \<and>
        unat (guest_steps (debugger_statistics d)) + length tr = unat (maximum_guest_steps d) \<or>
      (\<exists>r. res = DebuggerStopped r \<and>
        session_stops obs handle [] st s' (Some (r, session_of d')) \<and>
        unat (guest_steps (debugger_statistics d)) + length tr < unat (maximum_guest_steps d))))"

lemma session_path_append:
  "session_path obs handle bps s tr s' \<Longrightarrow> session_path obs handle bps s' tr' s'' \<Longrightarrow>
     session_path obs handle bps s (tr @ tr') s''"
  by (induction rule: session_path.induct) (auto intro: session_path.intros)

lemma session_path_no_breakpoints:
  "session_path obs handle bps s tr s' \<Longrightarrow> session_path obs handle [] s tr s'"
  by (induction rule: session_path.induct) (auto intro: session_path.intros)

lemma unat_guest_steps_tally:
  assumes "unat (guest_steps st) + length tr \<le> unat (limit :: u64)"
  shows "unat (guest_steps (fold tally tr st)) = unat (guest_steps st) + length tr"
  using assms unat_lt_2_64 [of limit]
  by (simp add: tally_statistics unat_word_ariths unsigned_of_nat take_bit_nat_eq_self)

lemma progresses_refl:
  "session_of d' = session_of d \<Longrightarrow> debugger_statistics d' = debugger_statistics d \<Longrightarrow>
     maximum_guest_steps d' = maximum_guest_steps d \<Longrightarrow>
     guest_steps (debugger_statistics d) \<le> maximum_guest_steps d \<Longrightarrow> progresses obs handle d d'"
  by (auto simp: progresses_def word_le_nat_alt intro!: exI [of _ "[]"] path_Nil)

lemma progresses_budget:
  "progresses obs handle d d' \<Longrightarrow>
     guest_steps (debugger_statistics d') \<le> maximum_guest_steps d'"
  by (auto simp: progresses_def word_le_nat_alt unat_guest_steps_tally)

lemma progresses_trans:
  assumes "progresses obs handle d d1" and "progresses obs handle d1 d2"
  shows "progresses obs handle d d2"
proof -
  from assms(1) obtain tr where tr: "session_path obs handle [] (session_of d) tr (session_of d1)"
    "debugger_statistics d1 = fold tally tr (debugger_statistics d)"
    "unat (guest_steps (debugger_statistics d)) + length tr \<le> unat (maximum_guest_steps d)"
    "maximum_guest_steps d1 = maximum_guest_steps d" by (auto simp: progresses_def)
  from assms(2) obtain tr' where tr': "session_path obs handle [] (session_of d1) tr' (session_of d2)"
    "debugger_statistics d2 = fold tally tr' (debugger_statistics d1)"
    "unat (guest_steps (debugger_statistics d1)) + length tr' \<le> unat (maximum_guest_steps d1)"
    "maximum_guest_steps d2 = maximum_guest_steps d1" by (auto simp: progresses_def)
  show ?thesis
    unfolding progresses_def
    using session_path_append [OF tr(1) tr'(1)] tr(2-4) tr'(2-4) unat_guest_steps_tally [OF tr(3)]
    by (intro exI [of _ "tr @ tr'"]) simp
qed

lemma progresses_finishes:
  assumes "progresses obs handle d d1" and "finishes obs handle d1 res d2"
  shows "finishes obs handle d res d2"
proof -
  from assms(1) obtain tr where tr: "session_path obs handle [] (session_of d) tr (session_of d1)"
    "debugger_statistics d1 = fold tally tr (debugger_statistics d)"
    "unat (guest_steps (debugger_statistics d)) + length tr \<le> unat (maximum_guest_steps d)"
    "maximum_guest_steps d1 = maximum_guest_steps d" by (auto simp: progresses_def)
  note steps = unat_guest_steps_tally [OF tr(3)]
  from assms(2) obtain tr' s' where tr': "session_path obs handle [] (session_of d1) tr' s'"
    and rest: "session_of d2 = s' \<and> res = DebuggerQuit (fold tally tr' (debugger_statistics d1)) \<and>
        unat (guest_steps (debugger_statistics d1)) + length tr' \<le> unat (maximum_guest_steps d1) \<or>
      session_of d2 = s' \<and>
        res = DebuggerStopped (SessionStepLimitReached (fold tally tr' (debugger_statistics d1))) \<and>
        unat (guest_steps (debugger_statistics d1)) + length tr' = unat (maximum_guest_steps d1) \<or>
      (\<exists>r. res = DebuggerStopped r \<and>
        session_stops obs handle [] (fold tally tr' (debugger_statistics d1)) s'
          (Some (r, session_of d2)) \<and>
        unat (guest_steps (debugger_statistics d1)) + length tr' < unat (maximum_guest_steps d1))"
    unfolding finishes_def by blast
  show ?thesis
    unfolding finishes_def
    using session_path_append [OF tr(1) tr'] rest tr(2,4) steps
    by (intro exI [of _ "tr @ tr'"] exI [of _ s'] exI) (auto simp: add.assoc)
qed

text \<open>One step of the session, as the debugger reports it.\<close>

lemma execute_one_effect:
  assumes "execute_one obs handle report d = Some (r, d')" and "\<not> budget_exhausted d"
  shows "(case r of None \<Rightarrow> progresses obs handle d d' | Some res \<Rightarrow> finishes obs handle d res d')
    \<and> breakpoints d' = breakpoints d \<and> maximum_guest_steps d' = maximum_guest_steps d"
proof (cases obs handle "session_of d" rule: session_step_cases)
  case (retired ob s')
  then show ?thesis
    using assms path_Cons [OF _ retired(1) path_Nil, of "[]"]
    by (auto simp: execute_one_def Let_def progresses_def budget_exhausted_def word_le_nat_alt not_le
        intro!: exI [of _ "[Retired ob]"])
next
  case (answered call v s')
  then show ?thesis
    using assms path_Cons [OF _ answered(1) path_Nil, of "[]"]
    by (auto simp: execute_one_def Let_def progresses_def budget_exhausted_def word_le_nat_alt not_le
        intro!: exI [of _ "[Answered call v]"])
next
  case (exited code h')
  then show ?thesis
    using assms stop_exit [OF _ exited(2), of "[]" "debugger_statistics d"]
    by (auto simp: execute_one_def Let_def finishes_def budget_exhausted_def word_le_nat_alt not_le
        intro!: exI [of _ "[]"] exI [of _ "session_of d"] path_Nil)
next
  case (unhandled t h')
  then show ?thesis
    using assms stop_unhandled [OF _ unhandled(2), of "[]" "debugger_statistics d"]
    by (auto simp: execute_one_def Let_def finishes_def budget_exhausted_def word_le_nat_alt not_le
        intro!: exI [of _ "[]"] exI [of _ "session_of d"] path_Nil)
next
  case (trapped t)
  then show ?thesis
    using assms stop_trap [OF _ trapped(3), of "[]" "debugger_statistics d"]
    by (auto simp: execute_one_def Let_def finishes_def budget_exhausted_def word_le_nat_alt not_le
        intro!: exI [of _ "[]"] exI [of _ "session_of d"] path_Nil)
next
  case escaped
  with assms show ?thesis by (simp add: execute_one_def Let_def)
qed

text \<open>Statistics of consecutive runs add up.\<close>

lemma add_statistics_tally:
  "add_statistics st (fold tally tr initial_statistics) = fold tally tr st"
  by (rule session_statistics.equality)
    (simp_all add: add_statistics_def tally_statistics initial_statistics_def)

lemma add_statistics_count_call:
  "add_statistics st (count_call st') = count_call (add_statistics st st')"
  by (simp add: add_statistics_def count_call_def)

lemma run_remaining_effect:
  assumes "run_remaining obs handle d = Some (r, d')" and "\<not> budget_exhausted d"
  shows "(case r of None \<Rightarrow> progresses obs handle d d' | Some res \<Rightarrow> finishes obs handle d res d')
    \<and> breakpoints d' = breakpoints d \<and> maximum_guest_steps d' = maximum_guest_steps d"
proof -
  let ?st = "debugger_statistics d" and ?max = "maximum_guest_steps d"
  let ?run = "session_run obs handle (?max - guest_steps ?st) (breakpoints d) (session_of d)"
  have left: "unat (?max - guest_steps ?st) = unat ?max - unat (guest_steps ?st)"
    "unat (guest_steps ?st) \<le> unat ?max"
    using assms(2) by (simp_all add: budget_exhausted_def unat_sub word_le_nat_alt)
  show ?thesis
  proof (cases rule: session_run_outcome [where obs = obs and handle = handle
        and bps = "breakpoints d" and s = "session_of d" and limit = "?max - guest_steps ?st"])
    case (limit tr s')
    then show ?thesis
      using assms(1) left session_path_no_breakpoints [OF limit(1)]
      by (auto simp: run_remaining_def Let_def finishes_def add_statistics_tally
          intro!: exI [of _ tr])
  next
    case (stopped tr s')
    have path: "session_path obs handle [] (session_of d) tr s'"
      by (rule session_path_no_breakpoints [OF stopped(1)])
    have budget: "unat (guest_steps ?st) + length tr < unat ?max" using stopped(2) left by simp
    from stopped(3) show ?thesis
    proof cases
      case stop_breakpoint
      then show ?thesis using assms(1) path budget
        by (auto simp: run_remaining_def Let_def progresses_def add_statistics_tally intro!: exI [of _ tr])
    next
      case (stop_exit call code s'')
      then show ?thesis using assms(1) path budget
        session_stops.stop_exit [OF _ stop_exit(3), of "[]" "fold tally tr ?st"]
        by (auto simp: run_remaining_def Let_def finishes_def add_statistics_tally add_statistics_count_call
            intro!: exI [of _ tr] exI [of _ s'])
    next
      case (stop_unhandled call t s'')
      then show ?thesis using assms(1) path budget
        session_stops.stop_unhandled [OF _ stop_unhandled(3), of "[]" "fold tally tr ?st"]
        by (auto simp: run_remaining_def Let_def finishes_def add_statistics_tally
            intro!: exI [of _ tr] exI [of _ s'])
    next
      case (stop_trap t)
      then show ?thesis using assms(1) path budget
        session_stops.stop_trap [OF _ stop_trap(3), of "[]" "fold tally tr ?st"]
        by (auto simp: run_remaining_def Let_def finishes_def add_statistics_tally
            intro!: exI [of _ tr] exI [of _ s'])
    next
      case stop_escape
      then show ?thesis using assms(1) by (simp add: run_remaining_def Let_def)
    qed
  qed
qed

lemma limit_reached_effect:
  assumes "budget_exhausted d" and "guest_steps (debugger_statistics d) \<le> maximum_guest_steps d"
  shows "finishes obs handle d (DebuggerStopped (SessionStepLimitReached (debugger_statistics d))) d"
  using assms
  by (auto simp: finishes_def budget_exhausted_def word_le_nat_alt intro!: exI [of _ "[]"] path_Nil)

lemma continue_execution_effect:
  assumes "continue_execution obs handle d = Some (r, d')"
    and "guest_steps (debugger_statistics d) \<le> maximum_guest_steps d"
  shows "(case r of None \<Rightarrow> progresses obs handle d d' | Some res \<Rightarrow> finishes obs handle d res d')
    \<and> breakpoints d' = breakpoints d \<and> maximum_guest_steps d' = maximum_guest_steps d"
proof (cases "budget_exhausted d \<or> \<not> stopped_at_breakpoint d")
  case True
  then show ?thesis
    using assms run_remaining_effect [of obs handle d r d'] limit_reached_effect [OF _ assms(2)]
    by (cases "budget_exhausted d") (auto simp: continue_execution_def limit_reached_def)
next
  case False
  with assms(1) obtain r1 d1 where one: "execute_one obs handle False d = Some (r1, d1)"
    and rest: "(case r1 of Some r \<Rightarrow> Some (Some r, d1)
      | None \<Rightarrow> if budget_exhausted d1 then limit_reached d1 else run_remaining obs handle d1)
      = Some (r, d')"
    by (auto simp: continue_execution_def split: bind_splits)
  note first = execute_one_effect [OF one] 
  show ?thesis
  proof (cases r1)
    case None
    with first False have p: "progresses obs handle d d1" "breakpoints d1 = breakpoints d"
      "maximum_guest_steps d1 = maximum_guest_steps d" by auto
    show ?thesis
    proof (cases "budget_exhausted d1")
      case True
      then show ?thesis
        using rest None p progresses_finishes [OF p(1) limit_reached_effect [OF True
          progresses_budget [OF p(1)]]]
        by (auto simp: limit_reached_def)
    next
      case left: False
      then show ?thesis
        using rest None p run_remaining_effect [of obs handle d1 r d'] progresses_trans [OF p(1)]
          progresses_finishes [OF p(1)]
        by (auto split: option.splits)
    qed
  next
    case (Some res)
    with first False rest show ?thesis by auto
  qed
qed

lemma those_map_Some:
  "(\<And>i. i \<in> set xs \<Longrightarrow> f i = Some (g i)) \<Longrightarrow> those (map f xs) = Some (map g xs)"
  by (induction xs) auto

lemma print_registers_eq:
  "print_registers s = Some (''pc = '' @ print_hex32 (program_counter s) @ newline @
     concat (map (\<lambda>index. ''x'' @ show_nat index @ '' ('' @ kApplicationRegisterNames ! index @
       '') = '' @ print_hex32 (reg s index) @ newline) [0..<32]))"
  unfolding print_registers_def kRegisterCount_def
  by (subst those_map_Some [where g = "\<lambda>index. ''x'' @ show_nat index @ '' ('' @
      kApplicationRegisterNames ! index @ '') = '' @ print_hex32 (reg s index) @ newline"])
    (auto simp del: append.simps)

text \<open>The commands that only look, or only edit the breakpoint list.\<close>

lemma inspect_fields:
  "session_of (memory_command ws d) = session_of d"
  "debugger_statistics (memory_command ws d) = debugger_statistics d"
  "maximum_guest_steps (memory_command ws d) = maximum_guest_steps d"
  "breakpoints (memory_command ws d) = breakpoints d"
  by (auto simp: memory_command_def Let_def split: option.splits)

lemma break_fields:
  "session_of (break_command ws d) = session_of d"
  "debugger_statistics (break_command ws d) = debugger_statistics d"
  "maximum_guest_steps (break_command ws d) = maximum_guest_steps d"
  by (auto simp: break_command_def split: option.splits)

lemma delete_fields:
  "session_of (delete_command ws d) = session_of d"
  "debugger_statistics (delete_command ws d) = debugger_statistics d"
  "maximum_guest_steps (delete_command ws d) = maximum_guest_steps d"
  by (auto simp: delete_command_def split: option.splits)

lemma wf_breakpoints_commands:
  assumes "wf_breakpoints (guest_memory d) (breakpoints d)"
  shows "wf_breakpoints (guest_memory d) (breakpoints (break_command ws d))"
    and "wf_breakpoints (guest_memory d) (breakpoints (delete_command ws d))"
proof -
  have sorted: "sorted_wrt (<) (breakpoints d)" using assms by (simp add: wf_breakpoints_def)
  have nil: "wf_breakpoints m []" for m by (simp add: wf_breakpoints_def)
  show "wf_breakpoints (guest_memory d) (breakpoints (break_command ws d))"
    using assms breakpoints_add [OF sorted]
    by (auto simp: break_command_def wf_breakpoints_def split: option.splits)
  show "wf_breakpoints (guest_memory d) (breakpoints (delete_command ws d))"
    using assms nil breakpoints_remove [OF sorted]
    by (auto simp: delete_command_def wf_breakpoints_def split: option.splits)
qed

text \<open>The invariant of the command loop.\<close>

definition wf_debugger :: "('o, 'h) debugger \<Rightarrow> bool" where
  "wf_debugger d \<longleftrightarrow> wf_breakpoints (guest_memory d) (breakpoints d) \<and>
     guest_steps (debugger_statistics d) \<le> maximum_guest_steps d"

lemma progresses_wf:
  assumes "progresses obs handle d d'" and "wf_breakpoints (guest_memory d) (breakpoints d')"
  shows "wf_debugger d'"
proof -
  have "same_region (guest_memory d) (guest_memory d')"
    using assms(1) session_path_region by (auto simp: progresses_def)
  then show ?thesis
    using assms progresses_budget [OF assms(1)]
    by (simp add: wf_debugger_def wf_breakpoints_def same_region_mapped)
qed

lemma execute_command_effect:
  assumes "execute_command obs handle ws d = Some (r, d')" and "wf_debugger d"
  shows "case r of None \<Rightarrow> progresses obs handle d d' \<and> wf_debugger d'
    | Some res \<Rightarrow> finishes obs handle d res d'"
proof -
  have budget: "guest_steps (debugger_statistics d) \<le> maximum_guest_steps d"
    and bps: "wf_breakpoints (guest_memory d) (breakpoints d)"
    using assms(2) by (simp_all add: wf_debugger_def)
  have idle: "progresses obs handle d d1 \<and> wf_debugger d1"
    if "session_of d1 = session_of d" "debugger_statistics d1 = debugger_statistics d"
      "maximum_guest_steps d1 = maximum_guest_steps d"
      "wf_breakpoints (guest_memory d) (breakpoints d1)" for d1
    using progresses_refl [OF that(1-3) budget] progresses_wf that(4) by blast
  have run: ?thesis
    if "(case r of None \<Rightarrow> progresses obs handle d d' | Some res \<Rightarrow> finishes obs handle d res d')
      \<and> breakpoints d' = breakpoints d \<and> maximum_guest_steps d' = maximum_guest_steps d"
    using that bps progresses_wf [of obs handle d d'] by (auto split: option.splits)
  have quit: "finishes obs handle d (DebuggerQuit (debugger_statistics d)) d1"
    if "session_of d1 = session_of d" for d1
    using that budget
    by (auto simp: finishes_def word_le_nat_alt intro!: exI [of _ "[]"] path_Nil)
  show ?thesis
  proof (cases "ws = []")
    case True
    then show ?thesis using assms(1) idle [of d] bps by (simp add: execute_command_def)
  next
    case False
    consider (step) "is_command (hd ws) ''step'' ''s''" "length ws = 1" "\<not> budget_exhausted d"
        "execute_one obs handle True d = Some (r, d')"
      | (limit) "budget_exhausted d" "limit_reached d = Some (r, d')"
      | (continue) "continue_execution obs handle d = Some (r, d')"
      | (quit) "r = Some (DebuggerQuit (debugger_statistics d))" "session_of d' = session_of d"
      | (other) "r = None" "session_of d' = session_of d"
        "debugger_statistics d' = debugger_statistics d"
        "maximum_guest_steps d' = maximum_guest_steps d"
        "wf_breakpoints (guest_memory d) (breakpoints d')"
      using assms(1) False bps wf_breakpoints_commands [OF bps]
      by (auto simp: execute_command_def Let_def inspect_fields break_fields delete_fields
          split: if_splits)
    then show ?thesis
    proof cases
      case step
      then show ?thesis using execute_one_effect by (intro run) blast
    next
      case limit
      then show ?thesis
        using limit_reached_effect [OF _ budget] by (auto simp: limit_reached_def)
    next
      case continue
      then show ?thesis using continue_execution_effect [OF _ budget] by (intro run) blast
    next
      case quit
      then show ?thesis using \<open>\<And>d1. session_of d1 = session_of d \<Longrightarrow>
        finishes obs handle d (DebuggerQuit (debugger_statistics d)) d1\<close> by simp
    next
      case other
      then show ?thesis using idle by simp
    qed
  qed
qed

lemma command_loop_effect:
  assumes "command_loop obs handle lines d = Some (res, d')" and "wf_debugger d"
  shows "finishes obs handle d res d'"
  using assms
proof (induction lines arbitrary: d)
  case Nil
  then show ?case
    by (auto simp: finishes_def wf_debugger_def word_le_nat_alt intro!: exI [of _ "[]"] path_Nil)
next
  case (Cons line rest)
  let ?d = "say ''(rvemu) '' d"
  have wf: "wf_debugger ?d" using Cons.prems(2) by (simp add: wf_debugger_def)
  have start: "progresses obs handle d ?d"
    using Cons.prems(2) by (intro progresses_refl) (simp_all add: wf_debugger_def)
  from Cons.prems(1) obtain r d1
    where cmd: "execute_command obs handle (split_command line) ?d = Some (r, d1)"
    and rest: "(case r of Some res \<Rightarrow> Some (res, d1) | None \<Rightarrow> command_loop obs handle rest d1)
      = Some (res, d')"
    by (auto split: option.splits prod.splits)
  note effect = execute_command_effect [OF cmd wf]
  have "finishes obs handle ?d res d'"
  proof (cases r)
    case None
    with effect rest show ?thesis using Cons.IH [of d1] progresses_finishes by auto
  next
    case (Some res1)
    with effect rest show ?thesis by simp
  qed
  then show ?case by (rule progresses_finishes [OF start])
qed

lemma wf_make_debugger [simp]: "wf_debugger (make_debugger s maximum)"
  by (simp add: wf_debugger_def make_debugger_def wf_breakpoints_def)

section \<open>The debugger returns\<close>

context environment_handler
begin

lemma progresses_valid:
  "progresses obs handle d d' \<Longrightarrow> valid (environment (session_of d)) \<Longrightarrow>
     valid (environment (session_of d'))"
  by (auto simp: progresses_def dest: path_valid)

lemma execute_one_returns:
  "valid (environment (session_of d)) \<Longrightarrow> execute_one obs handle report d \<noteq> None"
  using session_step_returns [of "session_of d" obs]
  by (auto simp: execute_one_def Let_def split: session_step_result.splits)

lemma run_remaining_returns:
  "valid (environment (session_of d)) \<Longrightarrow> run_remaining obs handle d \<noteq> None"
  using session_run_returns [of "session_of d" obs
      "maximum_guest_steps d - guest_steps (debugger_statistics d)" "breakpoints d"]
  by (auto simp: run_remaining_def Let_def split: session_run_result.splits)

lemma execute_command_returns:
  assumes "valid (environment (session_of d))" and "wf_debugger d"
  shows "execute_command obs handle ws d \<noteq> None"
proof -
  have "continue_execution obs handle d \<noteq> None"
  proof
    assume none: "continue_execution obs handle d = None"
    have budget: "\<not> budget_exhausted d" and stopped: "stopped_at_breakpoint d"
      using none run_remaining_returns [OF assms(1), of obs]
      by (auto simp: continue_execution_def limit_reached_def split: if_splits)
    obtain r d1 where one: "execute_one obs handle False d = Some (r, d1)"
      using execute_one_returns [OF assms(1)] by fastforce
    with none budget stopped have "r = None" and rem: "run_remaining obs handle d1 = None"
      by (auto simp: continue_execution_def limit_reached_def split: option.splits if_splits)
    then have "progresses obs handle d d1" using execute_one_effect [OF one budget] by simp
    from run_remaining_returns [OF progresses_valid [OF this assms(1)], of obs] rem
    show False by simp
  qed
  moreover have "print_registers (guest_cpu d) \<noteq> None"
    by (simp add: print_registers_eq)
  ultimately show ?thesis
    using execute_one_returns [OF assms(1)]
    by (simp add: execute_command_def Let_def limit_reached_def del: not_None_eq)
qed

lemma command_loop_returns:
  assumes "valid (environment (session_of d))" and "wf_debugger d"
  shows "command_loop obs handle lines d \<noteq> None"
  using assms
proof (induction lines arbitrary: d)
  case (Cons line rest)
  let ?d = "say ''(rvemu) '' d"
  have wf: "wf_debugger ?d" using Cons.prems(2) by (simp add: wf_debugger_def)
  then obtain r d1 where cmd: "execute_command obs handle (split_command line) ?d = Some (r, d1)"
    using execute_command_returns [of ?d obs "split_command line"] Cons.prems(1) by fastforce
  show ?case
  proof (cases r)
    case None
    with execute_command_effect [OF cmd wf] have p: "progresses obs handle ?d d1" "wf_debugger d1"
      by simp_all
    have "valid (environment (session_of d1))"
      using progresses_valid [OF p(1)] Cons.prems(1) by simp
    with Cons.IH [OF _ p(2)] cmd None show ?thesis by simp
  qed (simp add: cmd)
qed simp

end

section \<open>Properties\<close>

text \<open>
  C37: the breakpoint list is a set. It stays strictly sorted; adding inserts exactly the aligned
  addresses of mapped instructions, and removing deletes the address.
\<close>

theorem breakpoint_commands:
  assumes "sorted_wrt (<) (breakpoints d)"
  shows "sorted_wrt (<) (breakpoints (add_breakpoint a d)) \<and>
    set (breakpoints (add_breakpoint a d)) = (if unat a mod 4 = 0 \<and> mapped (guest_memory d) a 4
      then insert a (set (breakpoints d)) else set (breakpoints d)) \<and>
    sorted_wrt (<) (breakpoints (remove_breakpoint a d)) \<and>
    set (breakpoints (remove_breakpoint a d)) = set (breakpoints d) - {a}"
  using breakpoints_add [OF assms, of a] breakpoints_remove [OF assms, of a] by blast

definition sample_debugger :: "(unit, unit) debugger" where
  "sample_debugger = (make_debugger (sample_session 0 ()) 10)\<lparr>breakpoints := [4]\<rparr>"

lemma breakpoint_commands_witness:
  "set (breakpoints (add_breakpoint 8 sample_debugger)) = {4, 8} \<and>
   breakpoints (remove_breakpoint 4 sample_debugger) = []"
proof -
  have "sorted_wrt (<) (breakpoints sample_debugger)" "mapped (guest_memory sample_debugger) 8 4"
    "set (breakpoints sample_debugger) = {4}" by code_simp+
  with breakpoint_commands [of sample_debugger 8] breakpoint_commands [of sample_debugger 4]
  show ?thesis by auto
qed

text \<open>
  C38: looking does not disturb. Every command but \<open>step\<close> and \<open>continue\<close>, well formed or
  not, leaves the guest (processor, memory, environment and observer) and the statistics alone.
\<close>

theorem inspection_commands:
  assumes "execute_command obs handle ws d = Some (r, d')"
    and "\<not> is_command (hd ws) ''step'' ''s''" and "\<not> is_command (hd ws) ''continue'' ''c''"
  shows "session_of d' = session_of d \<and> debugger_statistics d' = debugger_statistics d"
  using assms
  by (auto simp: execute_command_def Let_def inspect_fields break_fields delete_fields
      split: if_split_asm option.splits)

lemma inspection_commands_witness:
  "\<exists>d'. execute_command None sample_handler [''delete'', ''all''] sample_debugger = Some (None, d') \<and>
     session_of d' = session_of sample_debugger \<and> breakpoints d' = []"
proof -
  let ?ws = "[''delete'', ''all'']"
  obtain d' where d': "execute_command None sample_handler ?ws sample_debugger = Some (None, d')"
    "breakpoints d' = []"
    by (auto simp: execute_command_def Let_def is_command_def delete_command_def)
  from inspection_commands [OF d'(1)] d' show ?thesis by (simp add: is_command_def)
qed

text \<open>A run from the start of a path is the run from its end, with the statistics so far.\<close>

lemma advances_step:
  assumes "advances obs handle s ev s'"
  shows "session_step obs handle s = Some ((case ev of
      Retired ob \<Rightarrow> SessionInstructionCompleted ob
    | Answered call v \<Rightarrow> SessionEnvironmentCallResumed call v (program_counter (state (engine_of s')))), s')"
  using assms
proof cases
  case (advances_retire ob e')
  then have "step obs (engine_of s) = Some (StepCompleted ob, e')" by (simp add: step_completed_iff)
  from session_step_completed [OF this] advances_retire show ?thesis by simp
next
  case (advances_answer t v h')
  then show ?thesis
    using session_step_trap [OF advances_answer(3), of handle] by (simp add: answer_of_def)
qed

lemma run_loop_along_path:
  assumes "session_path obs handle bps s tr s'"
    and "unat (guest_steps st) + length tr \<le> unat limit"
  shows "session_run_loop obs handle limit bps st s =
    session_run_loop obs handle limit bps (fold tally tr st) s'"
  using assms
proof (induction arbitrary: st rule: session_path.induct)
  case (path_Cons s ev s' tr s'')
  from path_Cons.prems have lt: "guest_steps st < limit" by (simp add: word_less_nat_alt)
  then have "unat (guest_steps (tally ev st)) = unat (guest_steps st) + 1"
    by (simp add: tally_event unat_increment)
  with path_Cons.prems path_Cons.IH [of "tally ev st"] have later:
    "session_run_loop obs handle limit bps (tally ev st) s' =
      session_run_loop obs handle limit bps (fold tally tr (tally ev st)) s''" by simp
  have "session_run_loop obs handle limit bps st s =
    session_run_loop obs handle limit bps (tally ev st) s'"
    using path_Cons.hyps(1) lt advances_step [OF path_Cons.hyps(2)]
    by (subst session_run_loop.simps) (cases ev; simp add: Let_def)
  with later show ?case by simp
qed simp

lemma run_loop_stops:
  assumes "session_stops obs handle bps st s out" and "guest_steps st < limit"
  shows "session_run_loop obs handle limit bps st s = out"
  using assms by cases (simp_all add: session_run_loop.simps [of obs handle limit bps st s] Let_def)

lemma finishes_say [simp]: "finishes obs handle (say t d) res d' = finishes obs handle d res d'"
  by (simp add: finishes_def)

lemma wf_debugger_say [simp]: "wf_debugger (say t d) = wf_debugger d"
  by (simp add: wf_debugger_def)

lemma debugger_run_finishes:
  assumes "debugger_run obs handle input_lines (make_debugger s limit) = Some (res, d')"
  shows "finishes obs handle (make_debugger s limit) res d'"
  using command_loop_effect [OF assms [unfolded debugger_run_def]] by simp

text \<open>
  C12: the debugger is transparent. Whatever commands are given, in whatever order and with
  whatever breakpoints: if the guest comes to an end in the debugger, the result, its
  statistics and the final state are those of one uninterrupted run with the same budget.
\<close>

theorem debugger_transparent:
  assumes "debugger_run obs handle input_lines (make_debugger s limit) = Some (DebuggerStopped r, d')"
  shows "session_run obs handle limit [] s = Some (r, session_of d')"
proof -
  have start: "session_of (make_debugger s limit) = s" "maximum_guest_steps (make_debugger s limit) = limit"
    "debugger_statistics (make_debugger s limit) = initial_statistics"
    by (simp_all add: make_debugger_def)
  have zero: "unat (guest_steps initial_statistics) = 0" by (simp add: initial_statistics_def)
  from debugger_run_finishes [OF assms] obtain tr s' where
    path: "session_path obs handle [] s tr s'" and
    ends: "session_of d' = s' \<and> r = SessionStepLimitReached (fold tally tr initial_statistics) \<and>
        length tr = unat limit \<or>
      session_stops obs handle [] (fold tally tr initial_statistics) s' (Some (r, session_of d')) \<and>
        length tr < unat limit"
    unfolding finishes_def start zero add_0 by auto
  from ends have "length tr \<le> unat limit" by auto
  from path_statistics(1) [OF this] have steps:
    "unat (guest_steps (fold tally tr initial_statistics)) = length tr" .
  have "session_run obs handle limit [] s =
      session_run_loop obs handle limit [] (fold tally tr initial_statistics) s'"
    unfolding session_run_def
    by (rule run_loop_along_path [OF path]) (use \<open>length tr \<le> unat limit\<close> zero in simp)
  moreover have "\<dots> = Some (r, session_of d')"
    using ends
  proof
    assume "session_of d' = s' \<and> r = SessionStepLimitReached (fold tally tr initial_statistics) \<and>
      length tr = unat limit"
    then show ?thesis
      using steps by (subst session_run_loop.simps) (simp add: word_less_nat_alt)
  next
    assume "session_stops obs handle [] (fold tally tr initial_statistics) s'
      (Some (r, session_of d')) \<and> length tr < unat limit"
    then show ?thesis
      using steps by (intro run_loop_stops) (simp_all add: word_less_nat_alt)
  qed
  ultimately show ?thesis by simp
qed

lemma debugger_transparent_witness:
  "\<exists>r d'. debugger_run None sample_handler [''s'', ''help'', ''c'']
       (make_debugger (sample_session 0 ()) 3) = Some (DebuggerStopped r, d') \<and>
     session_run None sample_handler 3 [] (sample_session 0 ()) = Some (r, session_of d')"
proof -
  have "case debugger_run None sample_handler [''s'', ''help'', ''c'']
    (make_debugger (sample_session 0 ()) 3) of
    Some (DebuggerStopped _, _) \<Rightarrow> True | _ \<Rightarrow> False" by code_simp
  then obtain r d' where d': "debugger_run None sample_handler [''s'', ''help'', ''c'']
    (make_debugger (sample_session 0 ()) 3) = Some (DebuggerStopped r, d')"
    by (auto split: option.splits debugger_result.splits)
  from debugger_transparent [OF d'] d' show ?thesis by auto
qed

end
