(* ===== verification/Cli.thy ===== *)
theory Cli
  imports Linux_Syscalls Elf_Loader Stack_Init Debugger
begin

text \<open>
  The command-line frontend: \<^verbatim>\<open>app/rvemu_cli.hpp\<close>,
  \<^verbatim>\<open>app/rvemu_cli.cpp\<close> and the decisions of \<^verbatim>\<open>app/rvemu_main.cpp\<close>.
  What the host supplies is a parameter: the files behind paths, whether an allocation of the
  run fails, the stream buffers of the process and the lines of the standard input. Diagnostics
  are the text written to the diagnostic stream.
\<close>

section \<open>Data\<close>

definition kDefaultMemoryBase :: u32 where "kDefaultMemoryBase = 0x80000000"
definition kDefaultMemorySize :: u64 where "kDefaultMemorySize = 16 * 1024 * 1024"
definition kDefaultMaximumSteps :: u64 where "kDefaultMaximumSteps = 50000000"
definition kUsageExitStatus :: int where "kUsageExitStatus = 2"
definition kInfrastructureFailureExitStatus :: int where "kInfrastructureFailureExitStatus = 125"
definition kCliAddressSpaceSize :: u64 where "kCliAddressSpaceSize = 0x100000000"

record options =
  program_path :: string
  memory_base :: u32
  memory_size :: u64
  stack_size :: u64
  maximum_steps :: u64
  debug :: bool

definition default_options :: options where
  "default_options = \<lparr>program_path = [], memory_base = kDefaultMemoryBase,
     memory_size = kDefaultMemorySize, stack_size = kDefaultFreestandingStackSize,
     maximum_steps = kDefaultMaximumSteps, debug = False\<rparr>"

datatype parse_result = ParseSuccess options | ParseHelp | ParseFailure string

datatype hosted_program_error_code = InvalidConfiguration | HostAllocationFailure

datatype hosted_program_result =
    HostedProgramFailure hosted_program_error_code
  | HostedElfLoadFailure elf_load_failure
  | HostedStackInitializationFailure stack_initialization_error_code elf_load_success nat
  | HostedSessionFinished session_run_result u32
  | HostedDebuggerQuit session_statistics u32

section \<open>The process streams as a sink\<close>

text \<open>
  A stream buffer is a state \<open>'b\<close> with its \<^verbatim>\<open>sputn\<close>: the number it returns (\<open>None\<close>
  if it throws) and its next state. The sink's state is the pair of the two buffers.
\<close>

definition stream_write :: "(u8 list \<Rightarrow> 'b \<Rightarrow> int option \<times> 'b) \<Rightarrow> ('b \<times> 'b) sink" where
  "stream_write sputn stream bs k =
     (if bs = [] then (Some (OutputWriteCompleted 0), k)
      else if int (length bs) > 2 ^ 63 - 1 then (Some OutputWriteFailed, k)
      else let (written, target) =
             sputn bs (if stream = StandardOutput then fst k else snd k);
               k = (if stream = StandardOutput then (target, snd k) else (fst k, target));
               result = (\<lambda>n. if n \<le> 0 \<or> n > int (length bs) then OutputWriteFailed
                 else OutputWriteCompleted (nat n))
        in (map_option result written, k))"

section \<open>Arguments\<close>

definition valid_memory_configuration :: "options \<Rightarrow> bool" where
  "valid_memory_configuration opts \<longleftrightarrow>
     memory_size opts \<noteq> 0 \<and> stack_size opts \<noteq> 0 \<and> stack_size opts \<le> memory_size opts \<and>
     maximum_steps opts \<noteq> 0 \<and>
     memory_size opts \<le> kCliAddressSpaceSize - ucast (memory_base opts)"

text \<open>The four options that take a value, and the locals of the parsing loop.\<close>

datatype value_option = MemoryBaseOption | MemorySizeOption | StackSizeOption | MaxStepsOption

record parse_state =
  parsed :: options
  path_seen :: "string option"
  positional_only :: bool
  help_requested :: bool
  debug_seen :: bool
  seen :: "value_option list"

definition initial_parse_state :: parse_state where
  "initial_parse_state = \<lparr>parsed = default_options, path_seen = None, positional_only = False,
     help_requested = False, debug_seen = False, seen = []\<rparr>"

fun option_name :: "value_option \<Rightarrow> string" where
  "option_name MemoryBaseOption = ''--memory-base''"
| "option_name MemorySizeOption = ''--memory-size''"
| "option_name StackSizeOption = ''--stack-size''"
| "option_name MaxStepsOption = ''--max-steps''"

fun value_message :: "value_option \<Rightarrow> string" where
  "value_message MemoryBaseOption = ''--memory-base requires a valid 32-bit address''"
| "value_message MemorySizeOption = ''--memory-size requires a valid byte count''"
| "value_message StackSizeOption = ''--stack-size requires a valid byte count''"
| "value_message MaxStepsOption = ''--max-steps requires a valid count''"

definition value_option_of :: "string \<Rightarrow> value_option option" where
  "value_option_of argument =
     List.find (\<lambda>opt. option_name opt = argument)
       [MemoryBaseOption, MemorySizeOption, StackSizeOption, MaxStepsOption]"

fun store_value :: "value_option \<Rightarrow> string \<Rightarrow> options \<Rightarrow> options option" where
  "store_value MemoryBaseOption v opts =
     map_option (\<lambda>n. opts\<lparr>memory_base := n\<rparr>) (parse_unsigned v)"
| "store_value MemorySizeOption v opts =
     map_option (\<lambda>n. opts\<lparr>memory_size := n\<rparr>) (parse_unsigned v)"
| "store_value StackSizeOption v opts =
     map_option (\<lambda>n. opts\<lparr>stack_size := n\<rparr>) (parse_unsigned v)"
| "store_value MaxStepsOption v opts =
     map_option (\<lambda>n. opts\<lparr>maximum_steps := n\<rparr>) (parse_unsigned v)"

fun parse_loop :: "string list \<Rightarrow> parse_state \<Rightarrow> string + parse_state" where
  "parse_loop [] st = Inr st"
| "parse_loop (argument # rest) st =
     (if \<not> positional_only st \<and> argument = ''--'' then
        parse_loop rest (st\<lparr>positional_only := True\<rparr>)
      else if \<not> positional_only st \<and> (argument = ''-h'' \<or> argument = ''--help'') then
        (if help_requested st then Inl ''the help option was provided more than once''
         else parse_loop rest (st\<lparr>help_requested := True\<rparr>))
      else if \<not> positional_only st \<and> argument = ''--debug'' then
        (if debug_seen st then Inl ''--debug was provided more than once''
         else parse_loop rest (st\<lparr>debug_seen := True, parsed := (parsed st)\<lparr>debug := True\<rparr>\<rparr>))
      else case (if positional_only st then None else value_option_of argument) of
        Some opt \<Rightarrow>
          if opt \<in> set (seen st) then Inl (option_name opt @ '' was provided more than once'')
          else (case rest of
              [] \<Rightarrow> Inl (value_message opt)
            | v # rest' \<Rightarrow>
                (case (if v = [] then None else store_value opt v (parsed st)) of
                   None \<Rightarrow> Inl (value_message opt)
                 | Some opts \<Rightarrow> parse_loop rest' (st\<lparr>parsed := opts, seen := opt # seen st\<rparr>)))
      | None \<Rightarrow>
          if \<not> positional_only st \<and> argument \<noteq> [] \<and> hd argument = CHR ''-''
          then Inl ''an unknown command-line option was provided''
          else if argument = [] then Inl ''the ELF path cannot be empty''
          else if path_seen st \<noteq> None then Inl ''exactly one ELF path is required''
          else parse_loop rest (st\<lparr>path_seen := Some argument\<rparr>))"

definition parse_arguments :: "string list \<Rightarrow> parse_result" where
  "parse_arguments args =
     (case parse_loop args initial_parse_state of
        Inl message \<Rightarrow> ParseFailure message
      | Inr st \<Rightarrow>
          if help_requested st then
            (if length args \<noteq> 1
             then ParseFailure ''--help cannot be combined with other arguments''
             else ParseHelp)
          else case path_seen st of
            None \<Rightarrow> ParseFailure ''an ELF path is required''
          | Some path \<Rightarrow>
              if memory_size (parsed st) = 0 \<or> stack_size (parsed st) = 0 \<or>
                 maximum_steps (parsed st) = 0
              then ParseFailure ''memory size, stack size, and max steps must be nonzero''
              else if stack_size (parsed st) > memory_size (parsed st)
              then ParseFailure ''the stack cannot be larger than mapped memory''
              else if \<not> valid_memory_configuration (parsed st)
              then ParseFailure ''the memory mapping exceeds the 32-bit address space''
              else ParseSuccess ((parsed st)\<lparr>program_path := path\<rparr>))"

section \<open>Running a program\<close>

record host =
  open_file :: "string \<Rightarrow> input_file"
  allocation_fails :: bool

definition with_loaded_program ::
  "host \<Rightarrow> options \<Rightarrow> 'k \<Rightarrow> ((unit, 'k) session \<Rightarrow> (hosted_program_result \<times> 'a \<times> 'k) option) \<Rightarrow>
     'a \<Rightarrow> (hosted_program_result \<times> 'a \<times> 'k) option" where
  "with_loaded_program host opts k execute nothing =
     (if \<not> valid_memory_configuration opts
      then Some (HostedProgramFailure InvalidConfiguration, nothing, k)
      else if allocation_fails host
      then Some (HostedProgramFailure HostAllocationFailure, nothing, k)
      else case make_memory (memory_base opts) (unat (memory_size opts)) of
        None \<Rightarrow> Some (HostedProgramFailure InvalidConfiguration, nothing, k)
      | Some m \<Rightarrow> do {
          (load_result, cpu, m) \<leftarrow>
            load_elf32_file (open_file host (program_path opts)) initial_cpu_state m;
          case load_result of
            Inl failure \<Rightarrow> Some (HostedElfLoadFailure failure, nothing, k)
          | Inr loaded \<Rightarrow> do {
              (stack_result, cpu) \<leftarrow> initialize_freestanding_stack cpu m
                (ucast (loaded_address_begin loaded))
                (of_nat (loaded_address_end_exclusive loaded)) (stack_size opts);
              case stack_result of
                Inl c \<Rightarrow> Some (HostedStackInitializationFailure c loaded
                  (end_address_exclusive m), nothing, k)
              | Inr _ \<Rightarrow> execute \<lparr>engine_of = \<lparr>state = cpu, memory_of = m, observer = ()\<rparr>,
                  environment = k\<rparr>
            }
        })"

definition run_program ::
  "host \<Rightarrow> options \<Rightarrow> 'k sink \<Rightarrow> 'k \<Rightarrow> (hosted_program_result \<times> string \<times> 'k) option" where
  "run_program host opts sink k =
     with_loaded_program host opts k (\<lambda>s. do {
       (r, s) \<leftarrow> session_run None (linux_handler sink) (maximum_steps opts) [] s;
       Some (HostedSessionFinished r (program_counter (state (engine_of s))), [], environment s)
     }) []"

definition run_debugger_program ::
  "host \<Rightarrow> options \<Rightarrow> 'k sink \<Rightarrow> string list \<Rightarrow> 'k \<Rightarrow>
     (hosted_program_result \<times> string \<times> 'k) option" where
  "run_debugger_program host opts sink input_lines k =
     with_loaded_program host opts k (\<lambda>s. do {
       (r, d) \<leftarrow> debugger_run None (linux_handler sink) input_lines
         (make_debugger s (maximum_steps opts));
       let pc = program_counter (guest_cpu d);
       Some (case r of
           DebuggerQuit st \<Rightarrow> HostedDebuggerQuit st pc
         | DebuggerStopped r \<Rightarrow> HostedSessionFinished r pc,
         console d, environment (session_of d))
     }) []"

section \<open>Exit status and diagnostics\<close>

fun trap_cause_name :: "trap_cause \<Rightarrow> string" where
  "trap_cause_name InstructionAddressMisaligned = ''instruction-address-misaligned''"
| "trap_cause_name InstructionAccessFault = ''instruction-access-fault''"
| "trap_cause_name IllegalInstruction = ''illegal-instruction''"
| "trap_cause_name Breakpoint = ''breakpoint''"
| "trap_cause_name LoadAddressMisaligned = ''load-address-misaligned''"
| "trap_cause_name LoadAccessFault = ''load-access-fault''"
| "trap_cause_name StoreAddressMisaligned = ''store-address-misaligned''"
| "trap_cause_name StoreAccessFault = ''store-access-fault''"
| "trap_cause_name EnvironmentCallFromUserMode = ''environment-call-from-user-mode''"

definition print_statistics :: "session_statistics \<Rightarrow> string" where
  "print_statistics st = ''guest steps='' @ show_nat (unat (guest_steps st)) @
     '', retired instructions='' @ show_nat (unat (instructions_retired st)) @
     '', handled environment calls='' @ show_nat (unat (environment_calls_handled st))"

definition quoted :: "string \<Rightarrow> string" where
  "quoted s = [CHR 0x27] @ s @ [CHR 0x27]"

text \<open>The branches of \<^verbatim>\<open>run_cli\<close>: the status it returns and what it prints.\<close>

fun report_run :: "options \<Rightarrow> u32 \<Rightarrow> session_run_result \<Rightarrow> int \<times> string" where
  "report_run opts pc (SessionRunExited st call exit_code) = (sint exit_code, [])"
| "report_run opts pc (SessionStepLimitReached st) = (kInfrastructureFailureExitStatus,
     ''rvemu: guest-step limit '' @ show_nat (unat (maximum_steps opts)) @ '' reached at PC '' @
     print_hex32 pc @ '' ('' @ print_statistics st @ '')'' @ newline)"
| "report_run opts pc (SessionRunTrapped st t) = (kInfrastructureFailureExitStatus,
     ''rvemu: guest trapped: '' @ trap_cause_name (cause t) @ '' (cause '' @
     show_nat (unat (trap_cause_value (cause t))) @ '') at PC '' @
     print_hex32 (trap_program_counter t) @ '', value '' @ print_hex32 (trap_value t) @ '' ('' @
     print_statistics st @ '')'' @ newline)"
| "report_run opts pc (SessionRunUnhandledEnvironmentCall st call t) =
     (kInfrastructureFailureExitStatus,
      ''rvemu: unhandled environment call '' @ show_nat (unat (number call)) @ '' at PC '' @
      print_hex32 (call_program_counter call) @ '' ('' @ print_statistics st @ '')'' @ newline)"
| "report_run opts pc (SessionBreakpointReached st bp) = (kInfrastructureFailureExitStatus,
     ''rvemu: unexpected breakpoint at PC '' @ print_hex32 bp @ '' ('' @
     print_statistics st @ '')'' @ newline)"

fun report :: "options \<Rightarrow> hosted_program_result \<Rightarrow> int \<times> string" where
  "report opts (HostedProgramFailure c) = (kInfrastructureFailureExitStatus,
     ''rvemu: '' @ (if c = InvalidConfiguration
       then ''invalid guest memory or execution configuration'' @ newline
       else ''the host could not allocate required memory'' @ newline))"
| "report opts (HostedElfLoadFailure f) = (kInfrastructureFailureExitStatus,
     ''rvemu: failed to load '' @ quoted (program_path opts) @ '': '' @
     elf_load_error_message (code f) @
     (case program_header_index f of None \<Rightarrow> []
      | Some i \<Rightarrow> '' (program header '' @ show_nat i @ '')'') @ newline)"
| "report opts (HostedStackInitializationFailure c loaded memory_end) =
     (kInfrastructureFailureExitStatus,
      ''rvemu: stack initialization failed: '' @ stack_initialization_error_message c @
      '' (requested='' @ show_nat (unat (stack_size opts)) @ '', mapping='' @
      print_hex32 (memory_base opts) @ ''..0x'' @ show_base 16 memory_end @ '', loaded='' @
      print_hex32 (loaded_address_begin loaded) @ ''..0x'' @
      show_base 16 (loaded_address_end_exclusive loaded) @ '')'' @ newline)"
| "report opts (HostedDebuggerQuit st pc) = (0, [])"
| "report opts (HostedSessionFinished r pc) = report_run opts pc r"

definition run_cli ::
  "host \<Rightarrow> options \<Rightarrow> 'k sink \<Rightarrow> string list \<Rightarrow> 'k \<Rightarrow> (int \<times> string \<times> 'k) option" where
  "run_cli host opts sink input_lines k = do {
     (result, text, k) \<leftarrow> (if debug opts then run_debugger_program host opts sink input_lines k
       else run_program host opts sink k);
     let (status, diagnostics) = report opts result;
     Some (status, text @ diagnostics, k)
   }"

text \<open>The overload without an input stream.\<close>

definition run_cli_without_input ::
  "host \<Rightarrow> options \<Rightarrow> 'k sink \<Rightarrow> 'k \<Rightarrow> (int \<times> string \<times> 'k) option" where
  "run_cli_without_input host opts sink k =
     (if debug opts then Some (kInfrastructureFailureExitStatus,
        ''rvemu: debugger mode requires an input stream'' @ newline, k)
      else run_cli host opts sink [] k)"

definition print_usage :: string where
  "print_usage = concat (map (\<lambda>l. l @ newline)
     [''usage: rvemu [options] <program.elf>'',
      '''',
      ''options:'',
      ''  --memory-base ADDRESS  guest mapping base (default 0x80000000)'',
      ''  --memory-size BYTES    guest mapping size (default 16777216)'',
      ''  --stack-size BYTES     reserved stack size (default 1048576)'',
      ''  --max-steps COUNT      strict guest-step limit (default 50000000)'',
      ''  --debug                start in the interactive debugger'',
      ''  -h, --help             show this help''])"

text \<open>
  The decisions of \<^verbatim>\<open>main\<close>: the exit status, the text it prints on the standard output
  itself, the text on the error stream, and the state of the streams the guest writes to.
\<close>

definition rvemu_main ::
  "host \<Rightarrow> string list \<Rightarrow> 'k sink \<Rightarrow> string list \<Rightarrow> 'k \<Rightarrow>
     (int \<times> string \<times> string \<times> 'k) option" where
  "rvemu_main host args sink input_lines k =
     (case parse_arguments args of
        ParseHelp \<Rightarrow> Some (0, print_usage, [], k)
      | ParseFailure message \<Rightarrow>
          Some (kUsageExitStatus, [], ''rvemu: '' @ message @ newline @ print_usage, k)
      | ParseSuccess opts \<Rightarrow> do {
          (status, diagnostics, k) \<leftarrow> run_cli host opts sink input_lines k;
          Some (status, [], diagnostics, k)
        })"

section \<open>What a booted guest looks like\<close>

text \<open>
  The session that a program starts with: the loadable segments of its file in an otherwise
  zero memory, the entry point and the stack pointer in an otherwise zero processor.
\<close>

definition booted :: "host \<Rightarrow> options \<Rightarrow> 'k \<Rightarrow> (unit, 'k) session \<Rightarrow> bool" where
  "booted host opts k s \<longleftrightarrow> (\<exists>img m h st lower upper.
     file_contents (open_file host (program_path opts)) = Some img \<and>
     make_memory (memory_base opts) (unat (memory_size opts)) = Some m \<and>
     validate img m = Some (Inr (h, st)) \<and>
     copy_segments img (table_segments img h) m = Some (memory_of (engine_of s)) \<and>
     stack_layout m
       (unat (virtual_address (hd (filter is_nonempty (table_segments img h)))))
       (segment_end (last (filter is_nonempty (table_segments img h))))
       (unat (stack_size opts)) = Inr (lower, upper) \<and>
     state (engine_of s) =
       set_reg 2 (of_nat upper) (set_program_counter (header_entry_point h) initial_cpu_state) \<and>
     environment s = k)"

fun refusal :: "hosted_program_result \<Rightarrow> bool" where
  "refusal (HostedProgramFailure _) = True"
| "refusal (HostedElfLoadFailure _) = True"
| "refusal (HostedStackInitializationFailure _ _ _) = True"
| "refusal (HostedSessionFinished _ _) = False"
| "refusal (HostedDebuggerQuit _ _) = False"

lemma stack_layout_region: "same_region m m' \<Longrightarrow> stack_layout m' b e r = stack_layout m b e r"
  by (simp add: stack_layout_def same_region_def end_address_exclusive_def)

lemma segment_end_less: "segment_end seg < 2 ^ 33"
  using unat_lt_2_32 [of "virtual_address seg"] unat_lt_2_32 [of "load_segment.memory_size seg"]
  by (simp add: segment_end_def)

text \<open>What it takes to start: a loadable file in a mapping that also holds the stack.\<close>

lemma with_loaded_program_started [consumes 5, case_names overlap started]:
  assumes "valid_memory_configuration opts" and "\<not> allocation_fails host"
    and "make_memory (memory_base opts) (unat (memory_size opts)) = Some m"
    and "file_contents (open_file host (program_path opts)) = Some img"
    and "validate img m = Some (Inr (h, st))"
  defines "segs \<equiv> filter is_nonempty (table_segments img h)"
  obtains (overlap) c loaded where "stack_layout m (unat (virtual_address (hd segs)))
        (segment_end (last segs)) (unat (stack_size opts)) = Inl c"
      "\<And>f. with_loaded_program host opts k f nothing =
        Some (HostedStackInitializationFailure c loaded (end_address_exclusive m), nothing, k)"
  | (started) s lower upper where "stack_layout m (unat (virtual_address (hd segs)))
        (segment_end (last segs)) (unat (stack_size opts)) = Inr (lower, upper)"
      "\<And>f. with_loaded_program host opts k f nothing = f s" "booted host opts k s"
proof -
  let ?b = "virtual_address (hd segs)" and ?e = "segment_end (last segs)"
  let ?s = "set_program_counter (header_entry_point h) initial_cpu_state"
  obtain m' r where
    copy: "copy_segments img (table_segments img h) m = Some m'" and
    r: "loaded_address_begin r = ?b" "loaded_address_end_exclusive r = ?e" and
    loaded: "load_elf32 img initial_cpu_state m = Some (Inr r, ?s, m')"
    by (rule load_elf32_eq [OF assms(5), of initial_cpu_state], rule that)
      (simp_all add: segs_def)
  have region: "same_region m m'" using copy by (rule copy_segments_region)
  have wf: "wf_memory m'" using make_memory_Some(1) [OF assms(3)] same_region_wf [OF region] by simp
  have e64: "unat (of_nat ?e :: u64) = ?e"
    using segment_end_less [of "last segs"] by (intro unat_of_nat_64) simp
  have end': "end_address_exclusive m' = end_address_exclusive m"
    using region by (simp add: same_region_def end_address_exclusive_def)
  let ?lay = "stack_layout m (unat ?b) ?e (unat (stack_size opts))"
  have stack: "initialize_freestanding_stack ?s m' (ucast ?b) (of_nat ?e) (stack_size opts) =
    Some (case ?lay of Inl c \<Rightarrow> (Inl c, ?s)
      | Inr (lower, upper) \<Rightarrow> (Inr \<lparr>initial_stack_pointer = of_nat upper,
          stack_bottom = of_nat lower, stack_top_exclusive = of_nat upper,
          stack_size_bytes = of_nat (round_up (unat (stack_size opts)))\<rparr>,
          set_reg 2 (of_nat upper) ?s))"
    by (simp add: initialize_freestanding_stack_eq [OF wf] e64 stack_layout_region [OF region])
  show thesis
  proof (cases ?lay)
    case (Inl c)
    with assms(1-4) loaded r stack end' show thesis
      by (intro overlap [of c r]) (auto simp: with_loaded_program_def load_elf32_file_eq)
  next
    case (Inr lu)
    obtain lower upper where lu: "?lay = Inr (lower, upper)" using Inr by (cases lu) auto
    let ?sess = "\<lparr>engine_of = \<lparr>state = set_reg 2 (of_nat upper) ?s, memory_of = m', observer = ()\<rparr>,
      environment = k\<rparr>"
    have "with_loaded_program host opts k f nothing = f ?sess" for f
      using assms(1-4) loaded r stack lu
      by (simp add: with_loaded_program_def load_elf32_file_eq)
    moreover have "booted host opts k ?sess"
      unfolding booted_def using assms(3-5) copy lu unfolding segs_def by auto
    ultimately show thesis using lu by (intro started [of lower upper ?sess])
  qed
qed

text \<open>Every branch before the program runs: a refusal, or a booted session.\<close>

lemma with_loaded_program_cases [case_names refused started]:
  obtains
    (refused) r where "\<And>f. with_loaded_program host opts k f nothing = Some (r, nothing, k)"
      "refusal r"
  | (started) s where "\<And>f. with_loaded_program host opts k f nothing = f s" "booted host opts k s"
      "valid_memory_configuration opts"
proof (cases "valid_memory_configuration opts"; cases "allocation_fails host")
  assume ok: "valid_memory_configuration opts" "\<not> allocation_fails host"
  show ?thesis
  proof (cases "make_memory (memory_base opts) (unat (memory_size opts))")
    case None
    with ok show ?thesis by (intro refused) (auto simp: with_loaded_program_def)
  next
    case (Some m)
    note mem = Some
    show ?thesis
    proof (cases "file_contents (open_file host (program_path opts))")
      case None
      with ok mem show ?thesis
        by (intro refused) (auto simp: with_loaded_program_def load_elf32_file_eq)
    next
      case (Some img)
      note contents = Some
      obtain ch where v: "validate img m = Some ch" using validate_total [of img m] by auto
      show ?thesis
      proof (cases ch)
        case (Inl e)
        with ok mem contents v show ?thesis
          by (intro refused) (auto simp: with_loaded_program_def load_elf32_file_eq load_elf32_def)
      next
        case (Inr hst)
        obtain h st where "hst = (h, st)" by (cases hst)
        with v Inr have valid: "validate img m = Some (Inr (h, st))" by simp
        show ?thesis
          using ok mem contents valid
        proof (cases rule: with_loaded_program_started [where k = k and nothing = nothing])
          case (overlap c loaded)
          then show ?thesis by (intro refused) auto
        next
          case (started s lower upper)
          then show ?thesis using ok that(2) by blast
        qed
      qed
    qed
  qed
qed ((rule refused [of "HostedProgramFailure HostAllocationFailure"];
    simp add: with_loaded_program_def; fail)
  | (rule refused [of "HostedProgramFailure InvalidConfiguration"];
    simp add: with_loaded_program_def; fail))+

lemma reg_initial [simp]: "j < 32 \<Longrightarrow> reg initial_cpu_state j = 0"
  by (simp add: reg_def initial_cpu_state_def kRegisterCount_def)

lemma cell_make_memory: "make_memory base n = Some m \<Longrightarrow> cell m c \<noteq> None \<Longrightarrow> cell m c = Some 0"
  using make_memory_Some [of base n m]
  by (auto simp: cell_def end_address_exclusive_def split: if_splits)

lemma booted_cpu:
  assumes "booted host opts k s"
  shows "wf_cpu (state (engine_of s))"
    and "unat (program_counter (state (engine_of s))) mod 4 = 0"
    and "j < 32 \<Longrightarrow> j \<noteq> 2 \<Longrightarrow> reg (state (engine_of s)) j = 0"
    and "environment s = k"
proof -
  obtain img m h st upper where v: "validate img m = Some (Inr (h, st))" and
    cpu: "state (engine_of s) =
      set_reg 2 (of_nat upper) (set_program_counter (header_entry_point h) initial_cpu_state)"
    and env: "environment s = k" using assms unfolding booted_def by auto
  show "wf_cpu (state (engine_of s))" by (simp add: cpu wf_cpu_set_reg)
  show "unat (program_counter (state (engine_of s))) mod 4 = 0"
    using validate_ok(5) [OF v] by (simp add: cpu)
  show "environment s = k" by (rule env)
  show "reg (state (engine_of s)) j = 0" if "j < 32" and "j \<noteq> 2" using that
    by (simp add: cpu reg_set_reg)
qed

text \<open>
  The image and the stack of a booted guest: the segments of the file are in memory, every
  other byte is zero, and the stack lies above them.
\<close>

lemma booted_image:
  assumes "booted host opts k s"
  obtains img h upper where
    "file_contents (open_file host (program_path opts)) = Some img"
    "parse_header img = Some (Inr h)"
    "program_counter (state (engine_of s)) = header_entry_point h"
    "\<exists>seg \<in> set (table_segments img h). entry_in_segment (header_entry_point h) seg"
    "\<And>seg c. seg \<in> set (table_segments img h) \<Longrightarrow> covers seg c \<Longrightarrow>
      cell (memory_of (engine_of s)) c =
        Some (segment_byte img seg (unat c - unat (virtual_address seg)))"
    "\<And>c. \<forall>seg \<in> set (table_segments img h). \<not> covers seg c \<Longrightarrow>
      mapped (memory_of (engine_of s)) c 1 \<Longrightarrow> cell (memory_of (engine_of s)) c = Some 0"
    "reg (state (engine_of s)) 2 = of_nat upper" "upper mod 16 = 0"
    "upper \<le> unat (memory_base opts) + unat (memory_size opts)"
    "unat (memory_base opts) + unat (stack_size opts) \<le> upper"
    "\<And>seg c. seg \<in> set (table_segments img h) \<Longrightarrow> covers seg c \<Longrightarrow>
      unat c + unat (stack_size opts) < upper"
proof -
  obtain img m h st lower upper where
    contents: "file_contents (open_file host (program_path opts)) = Some img" and
    mem: "make_memory (memory_base opts) (unat (memory_size opts)) = Some m" and
    v: "validate img m = Some (Inr (h, st))" and
    copy: "copy_segments img (table_segments img h) m = Some (memory_of (engine_of s))" and
    lay: "stack_layout m
       (unat (virtual_address (hd (filter is_nonempty (table_segments img h)))))
       (segment_end (last (filter is_nonempty (table_segments img h))))
       (unat (stack_size opts)) = Inr (lower, upper)" and
    cpu: "state (engine_of s) =
       set_reg 2 (of_nat upper) (set_program_counter (header_entry_point h) initial_cpu_state)"
    using assms unfolding booted_def by auto
  let ?segs = "table_segments img h" and ?m = "memory_of (engine_of s)"
  note ok = validate_ok [OF v]
  have segs: "\<forall>seg \<in> set ?segs. segment_ok img m seg" and asc: "ascending ?segs"
    using ok(2) by (auto simp: scan_ok_def ok(3))
  have frame: "cell ?m c = Some 0"
    if "\<forall>seg \<in> set ?segs. \<not> covers seg c" and "mapped ?m c 1" for c
  proof -
    from copy_segments_frame [OF copy segs that(1)] have "cell ?m c = cell m c" .
    moreover have "cell m c \<noteq> None"
      using that(2) same_region_mapped [OF copy_segments_region [OF copy]]
      by (simp add: cell_eq_None_iff del: not_None_eq)
    ultimately show ?thesis using cell_make_memory [OF mem] by simp
  qed
  note lay = stack_layout_Inr [OF lay]
  have above: "unat c + unat (stack_size opts) < upper"
    if seg: "seg \<in> set ?segs" and c: "covers seg c" for seg c
  proof -
    have "seg \<in> set (filter is_nonempty ?segs)" using seg covers_nonempty [OF c] by simp
    from ascending_last [OF asc [unfolded ascending_def] this] c
    have "unat c < segment_end (last (filter is_nonempty ?segs))" by (simp add: covers_def)
    with lay(2,3) round_up_ge [of "unat (stack_size opts)"] show ?thesis by linarith
  qed
  note memory = make_memory_Some [OF mem]
  show thesis
  proof (rule that [OF contents ok(1) _ _ _ frame _ lay(6) _ _ above])
    show "\<exists>seg \<in> set ?segs. entry_in_segment (header_entry_point h) seg"
      using ok(6) by (simp add: ok(3))
    show "upper \<le> unat (memory_base opts) + unat (memory_size opts)"
      using lay(4) memory by (simp add: end_address_exclusive_def)
    show "unat (memory_base opts) + unat (stack_size opts) \<le> upper"
      using lay(1,3) memory round_up_ge [of "unat (stack_size opts)"] by simp
  qed (simp_all add: cpu reg_set_reg copy_segments_cell [OF copy segs asc])
qed

section \<open>Every run of the frontend returns\<close>

text \<open>How a session under the Linux environment can end when nobody sets breakpoints.\<close>

definition terminal :: "u64 \<Rightarrow> session_run_result \<Rightarrow> bool" where
  "terminal limit r \<longleftrightarrow> (case r of
     SessionStepLimitReached st \<Rightarrow> guest_steps st = limit
   | SessionRunExited st call c \<Rightarrow> unat c \<le> 255 \<and> (number call = 93 \<or> number call = 94) \<and>
       c = arguments call ! 0 AND 0xFF \<and> guest_steps st \<le> limit
   | SessionRunTrapped st t \<Rightarrow> cause t \<noteq> EnvironmentCallFromUserMode \<and> guest_steps st < limit
   | _ \<Rightarrow> False)"

lemma stops_terminal:
  assumes "session_stops obs (linux_handler sink) [] st s (Some (r, s'))"
    and "guest_steps st < limit"
  shows "terminal limit r"
  using assms(1)
proof cases
  case (stop_exit call c)
  have "guest_steps st + 1 \<le> limit" using assms(2) by (simp add: inc_le)
  with stop_exit linux_exit [OF stop_exit(3)] show ?thesis by (simp add: terminal_def)
next
  case (stop_unhandled call t)
  then show ?thesis
    using linux.session_step_returns [where s = s and obs = obs and sink = sink] by auto
next
  case (stop_trap t)
  have "session_step obs (linux_handler sink) s = Some (SessionTrap t, s)"
    using stop_trap by simp
  then have "cause t \<noteq> EnvironmentCallFromUserMode"
    by (cases rule: session_step_cases [of obs "linux_handler sink" s]) simp_all
  with stop_trap assms(2) show ?thesis by (simp add: terminal_def)
qed simp

lemma guest_steps_tally:
  fixes limit :: u64
  shows "length tr \<le> unat limit \<Longrightarrow>
     unat (guest_steps (fold tally tr initial_statistics)) = length tr"
  using unat_guest_steps_tally [of initial_statistics tr limit] by (simp add: initial_statistics_def)

lemma session_run_terminal:
  assumes "session_run obs (linux_handler sink) limit [] s = Some (r, s')"
  shows "terminal limit r"
proof (cases rule: session_run_outcome [of obs "linux_handler sink" "[]" s limit])
  case (limit tr s1)
  with assms show ?thesis using guest_steps_tally [of tr limit]
    by (auto simp: terminal_def word_unat_eq_iff)
next
  case (stopped tr s1)
  with assms show ?thesis using guest_steps_tally [of tr limit]
    by (auto intro!: stops_terminal simp: word_less_nat_alt)
qed

text \<open>Running a program: a refusal, or the outcome of the booted guest.\<close>

lemma run_program_cases [case_names refused ran]:
  obtains
    (refused) r where "run_program host opts sink k = Some (r, [], k)" "refusal r"
  | (ran) s r s' where "booted host opts k s"
      "session_run None (linux_handler sink) (maximum_steps opts) [] s = Some (r, s')"
      "run_program host opts sink k = Some (HostedSessionFinished r
         (program_counter (state (engine_of s'))), [], environment s')"
      "terminal (maximum_steps opts) r"
proof (cases rule: with_loaded_program_cases [of host opts k "[] :: string"])
  case (refused r)
  then show thesis by (intro that(1)) (simp_all add: run_program_def)
next
  case (started s)
  from linux.session_run_returns [where s = s and obs = None and sink = sink
    and limit = "maximum_steps opts" and bps = "[]"]
  obtain r s' where run: "session_run None (linux_handler sink) (maximum_steps opts) [] s =
    Some (r, s')" by auto
  with started session_run_terminal [OF run] show thesis
    by (intro that(2)) (simp_all add: run_program_def)
qed

lemma terminal_of_finishes:
  assumes "finishes obs (linux_handler sink) d res d'" and "debugger_statistics d = initial_statistics"
  shows "case res of DebuggerQuit st \<Rightarrow> guest_steps st \<le> maximum_guest_steps d
    | DebuggerStopped r \<Rightarrow> terminal (maximum_guest_steps d) r"
proof -
  have zero: "unat (guest_steps initial_statistics) = 0" by (simp add: initial_statistics_def)
  from assms(1) obtain tr s' st where st: "st = fold tally tr initial_statistics" and
    ends: "res = DebuggerQuit st \<and> length tr \<le> unat (maximum_guest_steps d) \<or>
      res = DebuggerStopped (SessionStepLimitReached st) \<and>
        length tr = unat (maximum_guest_steps d) \<or>
      (\<exists>r. res = DebuggerStopped r \<and>
        session_stops obs (linux_handler sink) [] st s' (Some (r, session_of d')) \<and>
        length tr < unat (maximum_guest_steps d))"
    unfolding finishes_def assms(2) zero add_0 by blast
  from ends have "length tr \<le> unat (maximum_guest_steps d)" by auto
  then have steps: "unat (guest_steps st) = length tr" unfolding st by (rule guest_steps_tally)
  from ends consider
    "res = DebuggerQuit st" "guest_steps st \<le> maximum_guest_steps d"
    | "res = DebuggerStopped (SessionStepLimitReached st)" "guest_steps st = maximum_guest_steps d"
    | r where "res = DebuggerStopped r" "guest_steps st < maximum_guest_steps d"
      "session_stops obs (linux_handler sink) [] st s' (Some (r, session_of d'))"
    using steps by (auto simp: word_le_nat_alt word_less_nat_alt word_unat_eq_iff)
  then show ?thesis
    by cases (simp_all add: stops_terminal, simp add: terminal_def)
qed

lemma linux_debugger_returns:
  obtains res d' where
    "debugger_run obs (linux_handler sink) input_lines (make_debugger s limit) = Some (res, d')"
    "finishes obs (linux_handler sink) (make_debugger s limit) res d'"
proof -
  obtain shown where start: "debugger_run obs (linux_handler sink) input_lines (make_debugger s limit) =
    command_loop obs (linux_handler sink) input_lines (say shown (make_debugger s limit))"
    by (simp add: debugger_run_def)
  have wf: "wf_debugger (say shown (make_debugger s limit))"
    using wf_make_debugger [of s limit] by (simp add: wf_debugger_def)
  have "command_loop obs (linux_handler sink) input_lines (say shown (make_debugger s limit)) \<noteq> None"
    by (rule environment_handler.command_loop_returns [OF linux.environment_handler_axioms _ wf])
      simp
  then obtain res d' where
    run: "debugger_run obs (linux_handler sink) input_lines (make_debugger s limit) = Some (res, d')"
    unfolding start by auto
  show thesis by (rule that [OF run debugger_run_finishes [OF run]])
qed

lemma run_debugger_program_cases [case_names refused ran]:
  obtains
    (refused) r where "run_debugger_program host opts sink input_lines k = Some (r, [], k)" "refusal r"
  | (ran) s res shown k' where "booted host opts k s"
      "run_debugger_program host opts sink input_lines k = Some (res, shown, k')"
      "case res of HostedDebuggerQuit st pc \<Rightarrow> guest_steps st \<le> maximum_steps opts
       | HostedSessionFinished r pc \<Rightarrow> terminal (maximum_steps opts) r | _ \<Rightarrow> False"
proof (cases rule: with_loaded_program_cases [of host opts k "[] :: string"])
  case (refused r)
  then show thesis by (intro that(1)) (simp_all add: run_debugger_program_def)
next
  case (started s)
  let ?d0 = "make_debugger s (maximum_steps opts)"
  obtain r d where run: "debugger_run None (linux_handler sink) input_lines ?d0 = Some (r, d)"
    and ends: "finishes None (linux_handler sink) ?d0 r d"
    by (rule linux_debugger_returns)
  have "case r of DebuggerQuit st \<Rightarrow> guest_steps st \<le> maximum_steps opts
    | DebuggerStopped r \<Rightarrow> terminal (maximum_steps opts) r"
    using terminal_of_finishes [OF ends] by (cases r) (simp_all add: make_debugger_def)
  with started run show thesis
    by (cases r; intro that(2)) (simp_all add: run_debugger_program_def, simp_all)
qed

text \<open>The status of the process: the low byte of the guest's argument, or one of two constants.\<close>

lemma sint_low_byte: "unat (v :: u32) \<le> 255 \<Longrightarrow> sint v = int (unat v)"
  using of_nat_mono [of "unat v" 255, where 'a = int] by (simp add: sint_eq_uint sign_bit_iff)

lemma report_refusal: "refusal r \<Longrightarrow> fst (report opts r) = 125"
  by (cases r) (simp_all add: kInfrastructureFailureExitStatus_def)

lemma report_run_terminal:
  assumes "terminal limit r"
  shows "fst (report_run opts pc r) = (case r of
    SessionRunExited st call c \<Rightarrow> int (unat (arguments call ! 0) mod 256) | _ \<Rightarrow> 125)"
proof (cases r)
  case (SessionRunExited st call c)
  then have "unat c = unat (arguments call ! 0) mod 256" and "unat c \<le> 255"
    using assms unat_and_255 by (auto simp: terminal_def)
  then show ?thesis using SessionRunExited sint_low_byte [of c] by simp
qed (use assms in \<open>simp_all add: terminal_def kInfrastructureFailureExitStatus_def\<close>)

text \<open>The frontend always returns a status that the host's eight bits can hold.\<close>

lemma report_range:
  assumes "case res of HostedDebuggerQuit st pc \<Rightarrow> guest_steps st \<le> maximum_steps opts
    | HostedSessionFinished r pc \<Rightarrow> terminal (maximum_steps opts) r | _ \<Rightarrow> False"
  shows "0 \<le> fst (report opts res) \<and> fst (report opts res) \<le> 255"
proof (cases res)
  case (HostedSessionFinished r pc)
  with assms report_run_terminal [of "maximum_steps opts" r opts pc] show ?thesis
    by (cases r) (simp_all add: zmod_int)
qed (use assms in simp_all)

lemma run_cli_returns:
  "\<exists>status shown k'. run_cli host opts sink input_lines k = Some (status, shown, k') \<and>
     0 \<le> status \<and> status \<le> 255"
proof (cases "debug opts")
  case True
  show ?thesis
  proof (cases rule: run_debugger_program_cases [of host opts sink input_lines k])
    case (refused r)
    with True report_refusal [of r opts] show ?thesis
      by (simp add: run_cli_def split_beta)
  next
    case (ran s res shown k')
    with True report_range [OF ran(3)] show ?thesis by (simp add: run_cli_def split_beta)
  qed
next
  case False
  show ?thesis
  proof (cases rule: run_program_cases [of host opts sink k])
    case (refused r)
    with False report_refusal [of r opts] show ?thesis
      by (simp add: run_cli_def split_beta)
  next
    case (ran s r s')
    with False report_range
      [of opts "HostedSessionFinished r (program_counter (state (engine_of s')))"] show ?thesis
      by (simp add: run_cli_def split_beta)
  qed
qed

lemma run_cli_status:
  "\<exists>shown k'. run_cli host opts sink input_lines k = Some
    (case (if debug opts then run_debugger_program host opts sink input_lines k
           else run_program host opts sink k) of
       Some (HostedSessionFinished (SessionRunExited st call c) pc, _, _) \<Rightarrow>
         int (unat (arguments call ! 0) mod 256)
     | Some (HostedDebuggerQuit st pc, _, _) \<Rightarrow> 0
     | _ \<Rightarrow> 125, shown, k')"
proof (cases "debug opts")
  case True
  show ?thesis
  proof (cases rule: run_debugger_program_cases [of host opts sink input_lines k])
    case (refused r)
    with True report_refusal [of r opts] show ?thesis
      by (cases r) (simp_all add: run_cli_def split_beta)
  next
    case (ran s r shown k')
    show ?thesis
    proof (cases r)
      case (HostedSessionFinished r' pc)
      with ran(3) have "terminal (maximum_steps opts) r'" by simp
      with HostedSessionFinished True ran report_run_terminal [of "maximum_steps opts" r' opts pc]
      show ?thesis by (cases r') (simp_all add: run_cli_def split_beta)
    qed (use ran True in \<open>simp_all add: run_cli_def split_beta\<close>)
  qed
next
  case False
  show ?thesis
  proof (cases rule: run_program_cases [of host opts sink k])
    case (refused r)
    with False report_refusal [of r opts] show ?thesis
      by (cases r) (simp_all add: run_cli_def split_beta)
  next
    case (ran s r s')
    with False report_run_terminal [OF ran(4), of opts] show ?thesis
      by (cases r) (simp_all add: run_cli_def split_beta)
  qed
qed

section \<open>Arguments: what is accepted, and reading back what is printed\<close>

lemma parse_loop_path:
  assumes "parse_loop args st = Inr st'" and "path_seen st \<noteq> Some []"
  shows "path_seen st' \<noteq> Some []"
  using assms
proof (induction args arbitrary: st rule: length_induct)
  case (1 args)
  show ?case
  proof (cases args)
    case (Cons argument rest)
    then have later: "parse_loop rest t = Inr st' \<Longrightarrow> path_seen t \<noteq> Some [] \<Longrightarrow> path_seen st' \<noteq> Some []"
      "rest = v # rest' \<Longrightarrow> parse_loop rest' t = Inr st' \<Longrightarrow> path_seen t \<noteq> Some [] \<Longrightarrow>
         path_seen st' \<noteq> Some []" for t v rest'
      using "1.IH" [rule_format, of rest t] "1.IH" [rule_format, of rest' t] by simp_all
    note step = "1.prems"(1) [unfolded Cons parse_loop.simps(2)]
    show ?thesis
    proof (cases "if positional_only st then None else value_option_of argument")
      case None
      with step "1.prems"(2) show ?thesis by (auto split: if_split_asm dest: later(1))
    next
      case (Some opt)
      with step "1.prems"(2) show ?thesis
        by (auto split: if_split_asm list.split_asm option.split_asm dest: later)
    qed
  qed (use "1.prems" in simp)
qed

lemma parse_arguments_success:
  assumes "parse_arguments args = ParseSuccess opts"
  shows "valid_memory_configuration opts" and "program_path opts \<noteq> []"
proof -
  obtain st path where st: "parse_loop args initial_parse_state = Inr st" "path_seen st = Some path"
    "valid_memory_configuration (parsed st)" "opts = (parsed st)\<lparr>program_path := path\<rparr>"
    using assms
    by (auto simp: parse_arguments_def split: sum.splits if_splits option.splits)
  then show "valid_memory_configuration opts" by (simp add: valid_memory_configuration_def)
  show "program_path opts \<noteq> []"
    using parse_loop_path [OF st(1)] st by (simp add: initial_parse_state_def)
qed

definition render :: "options \<Rightarrow> string list" where
  "render opts =
     [''--memory-base'', print_hex32 (memory_base opts),
      ''--memory-size'', show_nat (unat (memory_size opts)),
      ''--stack-size'', show_nat (unat (stack_size opts)),
      ''--max-steps'', show_nat (unat (maximum_steps opts))] @
     (if debug opts then [''--debug''] else []) @ [''--'', program_path opts]"

lemma show_nat_nonempty [simp]: "show_nat n \<noteq> []"
  by (simp add: show_nat_def)

lemma print_hex32_nonempty [simp]: "print_hex32 v \<noteq> []"
  using length_print_hex32 [of v] by auto

lemma value_options [simp]:
  "value_option_of ''--memory-base'' = Some MemoryBaseOption"
  "value_option_of ''--memory-size'' = Some MemorySizeOption"
  "value_option_of ''--stack-size'' = Some StackSizeOption"
  "value_option_of ''--max-steps'' = Some MaxStepsOption"
  "value_option_of ''--debug'' = None" "value_option_of ''--'' = None"
  by (simp_all add: value_option_of_def)

lemma parse_render:
  assumes "valid_memory_configuration opts" and "program_path opts \<noteq> []"
  shows "parse_arguments (render opts) = ParseSuccess opts"
proof -
  have "parse_loop (render opts) initial_parse_state = Inr \<lparr>
    parsed = opts\<lparr>program_path := []\<rparr>, path_seen = Some (program_path opts),
    positional_only = True, help_requested = False, debug_seen = debug opts,
    seen = [MaxStepsOption, StackSizeOption, MemorySizeOption, MemoryBaseOption]\<rparr>"
    using assms(2) by (cases "debug opts")
      (simp_all add: render_def initial_parse_state_def default_options_def parse_hex32 parse_show_word)
  then show ?thesis
    using assms by (simp add: parse_arguments_def valid_memory_configuration_def not_less)
qed

section \<open>Properties\<close>

text \<open>A host with one file, and options that run it in 64 bytes of memory.\<close>

definition sample_host :: host where
  "sample_host = \<lparr>open_file = (\<lambda>_. \<lparr>is_open = True, end_position = Some 96,
     read_all = (\<lambda>_. Some sample_image)\<rparr>), allocation_fails = False\<rparr>"

definition sample_options :: options where
  "sample_options = \<lparr>program_path = ''a.elf'', memory_base = 0x1000, memory_size = 64,
     stack_size = 16, maximum_steps = 10, debug = False\<rparr>"

lemma sample_started:
  "\<exists>s. (\<forall>f. with_loaded_program sample_host sample_options k f nothing = f s) \<and>
     booted sample_host sample_options k s"
proof -
  obtain st where v: "validate sample_image sample_target = Some (Inr (sample_header, st))"
    using sample_validate by blast
  have conf: "valid_memory_configuration sample_options" by code_simp
  have host: "\<not> allocation_fails sample_host"
    "file_contents (open_file sample_host (program_path sample_options)) = Some sample_image"
    by (simp_all add: sample_host_def file_contents_def)
  have mem: "make_memory (memory_base sample_options) (unat (memory_size sample_options)) =
    Some sample_target"
    by (simp add: make_memory_def validated_region_size_def kAddressSpaceSize_eq sample_options_def
        sample_target_def)
  have lay: "\<exists>lower upper. stack_layout sample_target
    (unat (virtual_address (hd (filter is_nonempty (table_segments sample_image sample_header)))))
    (segment_end (last (filter is_nonempty (table_segments sample_image sample_header))))
    (unat (stack_size sample_options)) = Inr (lower, upper)"
    by (simp add: sample_table is_nonempty_def sample_segment_def segment_end_def sample_target_def
        sample_options_def stack_layout_def end_address_exclusive_def round_up_def round_down_def)
  show ?thesis
    using conf host(1) mem host(2) v
    by (cases rule: with_loaded_program_started [where k = k and nothing = nothing])
      (use lay in auto)
qed

text \<open>
  C11: the frontend always comes to an end. For every argument list, host, sink and debugger
  input it returns with a status between 0 and 255: 0 for help, which alone prints on the
  standard output, 2 for bad arguments, the low byte of the guest's argument if the guest exits,
  0 if the debugger is left, and 125 for everything else.
\<close>

theorem frontend_returns:
  "\<exists>status help shown k'. rvemu_main host args sink input_lines k = Some (status, help, shown, k') \<and>
     0 \<le> status \<and> status \<le> 255 \<and>
     (case parse_arguments args of
        ParseHelp \<Rightarrow> status = 0 \<and> help = print_usage \<and> shown = [] \<and> k' = k
      | ParseFailure message \<Rightarrow> status = 2 \<and> help = [] \<and> k' = k
      | ParseSuccess opts \<Rightarrow> help = [] \<and>
          status = (case (if debug opts then run_debugger_program host opts sink input_lines k
                          else run_program host opts sink k) of
              Some (HostedSessionFinished (SessionRunExited st call c) pc, _, _) \<Rightarrow>
                int (unat (arguments call ! 0) mod 256)
            | Some (HostedDebuggerQuit st pc, _, _) \<Rightarrow> 0
            | _ \<Rightarrow> 125))"
proof (cases "parse_arguments args")
  case (ParseSuccess opts)
  with run_cli_returns [of host opts sink input_lines k]
    run_cli_status [of host opts sink input_lines k] show ?thesis
    by (auto simp: rvemu_main_def)
qed (simp_all add: rvemu_main_def kUsageExitStatus_def)

text \<open>
  A guest that runs was booted as its file and the ABI say. It starts at the file's entry
  point, in an executable segment; its memory holds exactly the segments, and zero elsewhere; its
  stack pointer is 16-byte aligned in the mapping with the requested stack below it and above the
  image; every other register is zero; and the result is that of its bounded run under Linux.
\<close>

theorem program_boots:
  assumes "run_program host opts sink k = Some (HostedSessionFinished r pc, shown, k')"
  shows "\<exists>s s' img h upper.
    session_run (None :: unit observe) (linux_handler sink) (maximum_steps opts) [] s = Some (r, s') \<and>
    pc = program_counter (state (engine_of s')) \<and> k' = environment s' \<and> environment s = k \<and>
    file_contents (open_file host (program_path opts)) = Some img \<and>
    parse_header img = Some (Inr h) \<and>
    program_counter (state (engine_of s)) = header_entry_point h \<and>
    (\<exists>seg \<in> set (table_segments img h). entry_in_segment (header_entry_point h) seg) \<and>
    (\<forall>seg \<in> set (table_segments img h). \<forall>c. covers seg c \<longrightarrow> cell (memory_of (engine_of s)) c =
        Some (segment_byte img seg (unat c - unat (virtual_address seg))) \<and>
        unat c + unat (stack_size opts) < upper) \<and>
    (\<forall>c. (\<forall>seg \<in> set (table_segments img h). \<not> covers seg c) \<longrightarrow>
        mapped (memory_of (engine_of s)) c 1 \<longrightarrow> cell (memory_of (engine_of s)) c = Some 0) \<and>
    upper mod 16 = 0 \<and> unat (memory_base opts) + unat (stack_size opts) \<le> upper \<and>
    upper \<le> unat (memory_base opts) + unat (memory_size opts) \<and>
    (\<forall>j < 32. reg (state (engine_of s)) j = (if j = 2 then of_nat upper else 0))"
proof (cases rule: run_program_cases [of host opts sink k])
  case (refused r)
  with assms show ?thesis by auto
next
  case (ran s r' s')
  obtain img h upper where image:
    "file_contents (open_file host (program_path opts)) = Some img"
    "parse_header img = Some (Inr h)"
    "program_counter (state (engine_of s)) = header_entry_point h"
    "\<exists>seg \<in> set (table_segments img h). entry_in_segment (header_entry_point h) seg"
    "\<And>seg c. seg \<in> set (table_segments img h) \<Longrightarrow> covers seg c \<Longrightarrow>
      cell (memory_of (engine_of s)) c =
        Some (segment_byte img seg (unat c - unat (virtual_address seg)))"
    "\<And>c. \<forall>seg \<in> set (table_segments img h). \<not> covers seg c \<Longrightarrow>
      mapped (memory_of (engine_of s)) c 1 \<Longrightarrow> cell (memory_of (engine_of s)) c = Some 0"
    "reg (state (engine_of s)) 2 = of_nat upper" "upper mod 16 = 0"
    "upper \<le> unat (memory_base opts) + unat (memory_size opts)"
    "unat (memory_base opts) + unat (stack_size opts) \<le> upper"
    "\<And>seg c. seg \<in> set (table_segments img h) \<Longrightarrow> covers seg c \<Longrightarrow>
      unat c + unat (stack_size opts) < upper"
    by (rule booted_image [OF ran(1)], rule that)
  have regs: "\<forall>j < 32. reg (state (engine_of s)) j = (if j = 2 then of_nat upper else 0)"
    using booted_cpu(3) [OF ran(1)] image(7) by simp
  have same: "r = r'" "pc = program_counter (state (engine_of s'))" "k' = environment s'"
    using assms ran(3) by simp_all
  show ?thesis
    by (rule exI [of _ s], rule exI [of _ s'], rule exI [of _ img], rule exI [of _ h],
        rule exI [of _ upper], intro conjI)
      (use ran(2) same booted_cpu(4) [OF ran(1)] image regs in \<open>simp_all del: not_None_eq\<close>)
qed

lemma program_boots_witness:
  "\<exists>r pc k' s s'. run_program sample_host sample_options sample_sink [] =
      Some (HostedSessionFinished r pc, [], k') \<and>
     session_run (None :: unit observe) (linux_handler sample_sink) 10 [] s = Some (r, s') \<and>
     reg (state (engine_of s)) 1 = 0"
proof -
  obtain s where s: "\<And>f. with_loaded_program sample_host sample_options
      ([] :: (output_stream \<times> u8 list) list) f ([] :: string) = f s"
    using sample_started [of "[]" "[] :: string"] by auto
  obtain r s' where "session_run None (linux_handler sample_sink) (maximum_steps sample_options) [] s =
    Some (r, s')"
    using linux.session_run_returns [where s = s and obs = None and sink = sample_sink
      and limit = "maximum_steps sample_options" and bps = "[]"] by auto
  then have run: "run_program sample_host sample_options sample_sink [] =
    Some (HostedSessionFinished r (program_counter (state (engine_of s'))), [], environment s')"
    by (simp add: run_program_def s)
  from program_boots [OF this] obtain s1 s2 where
    "session_run (None :: unit observe) (linux_handler sample_sink) (maximum_steps sample_options)
      [] s1 = Some (r, s2)"
    "reg (state (engine_of s1)) 1 = 0" by force
  with run show ?thesis by (auto simp: sample_options_def)
qed

text \<open>
  C39: the accepted options are exactly the valid configurations. Every option record that
  argument parsing returns has a path and a mapping that fits with its stack in the address
  space, and every such record is returned for some argument list (for its rendering).
\<close>

theorem parse_arguments_complete:
  "(\<exists>args. parse_arguments args = ParseSuccess opts) \<longleftrightarrow>
     program_path opts \<noteq> [] \<and> 0 < unat (memory_size opts) \<and> 0 < unat (stack_size opts) \<and>
     unat (stack_size opts) \<le> unat (memory_size opts) \<and> 0 < unat (maximum_steps opts) \<and>
     unat (memory_base opts) + unat (memory_size opts) \<le> 2 ^ 32"
proof -
  have "ucast (memory_base opts) \<le> (0x100000000 :: u64)"
    using unat_lt_2_32 [of "memory_base opts"] by (simp add: word_le_nat_alt)
  then have "unat ((0x100000000 :: u64) - ucast (memory_base opts)) = 2 ^ 32 - unat (memory_base opts)"
    by (simp add: unat_sub)
  then have "valid_memory_configuration opts \<longleftrightarrow> 0 < unat (memory_size opts) \<and>
     0 < unat (stack_size opts) \<and> unat (stack_size opts) \<le> unat (memory_size opts) \<and>
     0 < unat (maximum_steps opts) \<and> unat (memory_base opts) + unat (memory_size opts) \<le> 2 ^ 32"
    using unat_lt_2_32 [of "memory_base opts"]
    by (auto simp: valid_memory_configuration_def word_le_nat_alt kCliAddressSpaceSize_def unat_gt_0)
  moreover have "(\<exists>args. parse_arguments args = ParseSuccess opts) \<longleftrightarrow>
    program_path opts \<noteq> [] \<and> valid_memory_configuration opts"
    using parse_arguments_success parse_render by blast
  ultimately show ?thesis by simp
qed

end
