(* ===== verification/Elf_Spec.thy ===== *)
theory Elf_Spec
  imports Elf_Loader
begin

text \<open>
  Which executables the loader accepts, stated without the code: the layout of an ELF32 file in
  numbers, and the conditions on its header and on its program header table. The loader reads
  the table once, front to back, and keeps three locals; here every condition is about the table
  as a whole. The loader accepts exactly the images that satisfy the specification, and refuses
  the others without any effect.
\<close>

section \<open>The format\<close>

text \<open>The little-endian number in \<open>n\<close> bytes of an image.\<close>

fun number_at :: "u8 list \<Rightarrow> nat \<Rightarrow> nat \<Rightarrow> nat" where
  "number_at img k 0 = 0"
| "number_at img k (Suc n) = unat (img ! k) + 256 * number_at img (k + 1) n"

text \<open>
  The ELF header: identification, an executable for RISC-V of version 1 without ISA flags,
  header and entry sizes, and a program header table inside the file, behind the header.
\<close>

definition elf_entry :: "u8 list \<Rightarrow> nat" where "elf_entry img = number_at img 24 4"
definition elf_table :: "u8 list \<Rightarrow> nat" where "elf_table img = number_at img 28 4"
definition elf_count :: "u8 list \<Rightarrow> nat" where "elf_count img = number_at img 44 2"

definition elf_header_valid :: "u8 list \<Rightarrow> bool" where
  "elf_header_valid img \<longleftrightarrow> 52 \<le> length img \<and>
     take 9 img = [0x7F, 0x45, 0x4C, 0x46, 1, 1, 1, 0, 0] \<and>
     number_at img 16 2 = 2 \<and> number_at img 18 2 = 243 \<and> number_at img 20 4 = 1 \<and>
     number_at img 36 4 = 0 \<and> number_at img 40 2 = 52 \<and> number_at img 42 2 = 32 \<and>
     0 < elf_count img \<and> elf_count img < 65535 \<and>
     52 \<le> elf_table img \<and> elf_table img + 32 * elf_count img \<le> length img"

record program_header =
  p_type :: nat
  p_offset :: nat
  p_vaddr :: nat
  p_filesz :: nat
  p_memsz :: nat
  p_flags :: nat
  p_align :: nat

definition program_header_at :: "u8 list \<Rightarrow> nat \<Rightarrow> program_header" where
  "program_header_at img k = \<lparr>p_type = number_at img k 4, p_offset = number_at img (k + 4) 4,
     p_vaddr = number_at img (k + 8) 4, p_filesz = number_at img (k + 16) 4,
     p_memsz = number_at img (k + 20) 4, p_flags = number_at img (k + 24) 4,
     p_align = number_at img (k + 28) 4\<rparr>"

definition program_headers :: "u8 list \<Rightarrow> program_header list" where
  "program_headers img =
     map (\<lambda>i. program_header_at img (elf_table img + 32 * i)) [0..<elf_count img]"

definition loadable :: "program_header \<Rightarrow> bool" where
  "loadable p \<longleftrightarrow> p_type p = 1"

text \<open>
  One loadable header: its bytes are in the file, its addresses in the address space and, if
  there are any, in the region of guest memory; an alignment is a power of two that divides
  the distance of address and offset.
\<close>

definition loadable_valid :: "nat \<Rightarrow> nat \<Rightarrow> nat \<Rightarrow> program_header \<Rightarrow> bool" where
  "loadable_valid n lower upper p \<longleftrightarrow>
     p_filesz p \<le> p_memsz p \<and> p_offset p + p_filesz p \<le> n \<and>
     p_vaddr p + p_memsz p \<le> 2 ^ 32 \<and>
     (1 < p_align p \<longrightarrow> (\<exists>k<32. p_align p = 2 ^ k) \<and>
        p_vaddr p mod p_align p = p_offset p mod p_align p) \<and>
     (0 < p_memsz p \<longrightarrow> lower \<le> p_vaddr p \<and> p_vaddr p + p_memsz p \<le> upper)"

definition starts_in :: "nat \<Rightarrow> program_header \<Rightarrow> bool" where
  "starts_in entry p \<longleftrightarrow> odd (p_flags p) \<and> p_vaddr p \<le> entry \<and> entry < p_vaddr p + p_memsz p"

text \<open>
  A fixed-address executable: no dynamic section, interpreter or thread-local storage; every
  loadable header is valid; they are sorted by address, the nonempty ones without overlap; and
  the entry point is aligned and in one of them that is executable.
\<close>

definition elf_executable :: "nat \<Rightarrow> nat \<Rightarrow> u8 list \<Rightarrow> bool" where
  "elf_executable lower upper img \<longleftrightarrow> elf_header_valid img \<and>
     (\<forall>p \<in> set (program_headers img). p_type p \<notin> {2, 3, 7} \<and>
        (loadable p \<longrightarrow> loadable_valid (length img) lower upper p)) \<and>
     sorted (map p_vaddr (filter loadable (program_headers img))) \<and>
     sorted_wrt (\<lambda>p q. p_vaddr p + p_memsz p \<le> p_vaddr q)
       (filter (\<lambda>p. 0 < p_memsz p) (filter loadable (program_headers img))) \<and>
     elf_entry img mod 4 = 0 \<and>
     (\<exists>p \<in> set (filter loadable (program_headers img)). starts_in (elf_entry img) p)"

text \<open>
  The process image: an address that a loadable header occupies holds the byte of the file, or
  zero beyond the bytes in the file; every other address holds what it held.
\<close>

definition occupies :: "program_header \<Rightarrow> u32 \<Rightarrow> bool" where
  "occupies p c \<longleftrightarrow> p_vaddr p \<le> unat c \<and> unat c < p_vaddr p + p_memsz p"

definition image_byte :: "u8 list \<Rightarrow> program_header \<Rightarrow> nat \<Rightarrow> u8" where
  "image_byte img p k = (if k < p_filesz p then img ! (p_offset p + k) else 0)"

definition process_image :: "u8 list \<Rightarrow> (u32 \<Rightarrow> u8 option) \<Rightarrow> u32 \<Rightarrow> u8 option" where
  "process_image img f c =
     (case find (\<lambda>p. occupies p c) (filter loadable (program_headers img)) of
        None \<Rightarrow> f c
      | Some p \<Rightarrow> Some (image_byte img p (unat c - p_vaddr p)))"

section \<open>Reading numbers\<close>

lemma unat_join_bytes16:
  fixes b0 b1 :: u8
  shows "unat (ucast b0 OR push_bit 8 (ucast b1) :: u16) = unat b0 + 256 * unat b1" (is "unat ?j = ?n")
proof -
  have lt: "unat b0 < 256" "unat b1 < 256"
    using unsigned_less [of b0] unsigned_less [of b1] by simp_all
  have "?j = ucast b0 + push_bit 8 (ucast b1)"
    by (rule or_eq_add, rule bit_word_eqI) (auto simp: bit_simps bit_bounds)
  also have "\<dots> = of_nat ?n"
    by (simp add: push_bit_eq_mult algebra_simps unsigned_of_nat)
  finally show ?thesis using lt
    by (simp only: unsigned_of_nat) (simp add: take_bit_nat_eq_self)
qed

lemma number_at_2: "number_at img k 2 = unat (img ! k) + 256 * unat (img ! (k + 1))"
  by (simp add: numeral_2_eq_2)

lemma number_at_4: "number_at img k 4 = unat (img ! k) + 256 * (unat (img ! (k + 1)) +
    256 * (unat (img ! (k + 2)) + 256 * unat (img ! (k + 3))))"
proof -
  have "number_at img k 4 = number_at img k (Suc (Suc (Suc (Suc 0))))"
    by (simp only: numeral_2_eq_2 eval_nat_numeral(2,3) BitM.simps numeral_One One_nat_def)
  then show ?thesis by (simp add: numeral_3_eq_3)
qed

lemma read_u16_le_number: "k + 2 \<le> length img \<Longrightarrow>
    \<exists>v. read_u16_le img k = Some v \<and> unat v = number_at img k 2"
  by (simp add: number_at_2 unat_join_bytes16)

lemma read_u32_le_number: "k + 4 \<le> length img \<Longrightarrow>
    \<exists>v. read_u32_le img k = Some v \<and> unat v = number_at img k 4"
  by (simp add: read_u32_le_def number_at_4 unat_join_bytes32)

lemma read_segment_number:
  assumes "k + 32 \<le> length img"
  obtains seg al where "read_segment img k = Some (seg, al)"
    and "program_header_at img k = \<lparr>p_type = number_at img k 4, p_offset = unat (file_offset seg),
      p_vaddr = unat (virtual_address seg), p_filesz = unat (file_size seg),
      p_memsz = unat (load_segment.memory_size seg), p_flags = unat (segment_flags seg),
      p_align = unat al\<rparr>"
proof -
  obtain v4 where "read_u32_le img (k + 4) = Some v4" "unat v4 = number_at img (k + 4) 4"
    using assms read_u32_le_number [of "k + 4" img] by auto
  moreover obtain v8 where "read_u32_le img (k + 8) = Some v8" "unat v8 = number_at img (k + 8) 4"
    using assms read_u32_le_number [of "k + 8" img] by auto
  moreover obtain v16 where "read_u32_le img (k + 16) = Some v16" "unat v16 = number_at img (k + 16) 4"
    using assms read_u32_le_number [of "k + 16" img] by auto
  moreover obtain v20 where "read_u32_le img (k + 20) = Some v20" "unat v20 = number_at img (k + 20) 4"
    using assms read_u32_le_number [of "k + 20" img] by auto
  moreover obtain v24 where "read_u32_le img (k + 24) = Some v24" "unat v24 = number_at img (k + 24) 4"
    using assms read_u32_le_number [of "k + 24" img] by auto
  moreover obtain v28 where "read_u32_le img (k + 28) = Some v28" "unat v28 = number_at img (k + 28) 4"
    using assms read_u32_le_number [of "k + 28" img] by auto
  ultimately show thesis
    by (intro that [of "\<lparr>file_offset = v4, virtual_address = v8, file_size = v16,
        memory_size = v20, segment_flags = v24\<rparr>" v28])
      (simp_all add: read_segment_def program_header_at_def)
qed

section \<open>The header\<close>

lemmas elf_constants = kElf32HeaderSize_def kElf32ProgramHeaderSize_def kElfClass32_def
  kElfDataLittleEndian_def kElfVersionCurrent_def kElfOsAbiNone_def kElfTypeExecutable_def
  kMachineRiscV_def kExtendedProgramHeaderCount_def kProgramHeaderLoad_def
  kProgramHeaderDynamic_def kProgramHeaderInterpreter_def kProgramHeaderTls_def
  kGuestAddressSpaceSize_def

lemma take_9_eq:
  assumes "9 \<le> length img"
  shows "take 9 img = [b0, b1, b2, b3, b4, b5, b6, b7, b8] \<longleftrightarrow>
    img ! 0 = b0 \<and> img ! 1 = b1 \<and> img ! 2 = b2 \<and> img ! 3 = b3 \<and> img ! 4 = b4 \<and>
    img ! 5 = b5 \<and> img ! 6 = b6 \<and> img ! 7 = b7 \<and> img ! 8 = b8"
proof -
  have "take 9 img = map ((!) img) [0..<9]"
    using assms by (intro nth_equalityI) simp_all
  then show ?thesis by (simp add: upt_rec eval_nat_numeral(2,3))
qed

lemma parse_header_iff:
  "(\<exists>h. parse_header img = Some (Inr h)) \<longleftrightarrow> elf_header_valid img"
proof (cases "length img < 52")
  case False
  then have len: "52 \<le> length img" by simp
  obtain ty where ty: "read_u16_le img 16 = Some ty" "unat ty = number_at img 16 2"
    using len read_u16_le_number [of 16 img] by auto
  obtain ma where ma: "read_u16_le img 18 = Some ma" "unat ma = number_at img 18 2"
    using len read_u16_le_number [of 18 img] by auto
  obtain ve where ve: "read_u32_le img 20 = Some ve" "unat ve = number_at img 20 4"
    using len read_u32_le_number [of 20 img] by auto
  obtain fl where fl: "read_u32_le img 36 = Some fl" "unat fl = number_at img 36 4"
    using len read_u32_le_number [of 36 img] by auto
  obtain hs where hs: "read_u16_le img 40 = Some hs" "unat hs = number_at img 40 2"
    using len read_u16_le_number [of 40 img] by auto
  obtain es where es: "read_u16_le img 42 = Some es" "unat es = number_at img 42 2"
    using len read_u16_le_number [of 42 img] by auto
  obtain co where co: "read_u16_le img 44 = Some co" "unat co = elf_count img"
    using len read_u16_le_number [of 44 img] by (auto simp: elf_count_def)
  obtain en where en: "read_u32_le img 24 = Some en"
    using len read_u32_le_number [of 24 img] by auto
  obtain ta where ta: "read_u32_le img 28 = Some ta" "unat ta = elf_table img"
    using len read_u32_le_number [of 28 img] by (auto simp: elf_table_def)
  have words: "ty = 2 \<longleftrightarrow> number_at img 16 2 = 2" "ma = 243 \<longleftrightarrow> number_at img 18 2 = 243"
    "ve = 1 \<longleftrightarrow> number_at img 20 4 = 1" "fl = 0 \<longleftrightarrow> number_at img 36 4 = 0"
    "co = 0 \<longleftrightarrow> elf_count img = 0" "co = 0xFFFF \<longleftrightarrow> elf_count img = 65535"
    unfolding ty(2) [symmetric] ma(2) [symmetric] ve(2) [symmetric] fl(2) [symmetric]
      co(2) [symmetric] by (simp_all add: word_unat_eq_iff)
  have "unat co < 65536" using unsigned_less [of co] by simp
  then have "unat co \<noteq> 65535 \<longleftrightarrow> unat co < 65535" by auto
  note small = this [unfolded co(2)]
  have "byte_at img 0 = Some (img ! 0)" using len by (intro byte_at_total) linarith
  then have magic: "those (map (byte_at img) [0, 1, 2, 3]) = Some [img ! 0, img ! 1, img ! 2, img ! 3]"
    using len by simp
  have ident: "take 9 img = [0x7F, 0x45, 0x4C, 0x46, 1, 1, 1, 0, 0] \<longleftrightarrow>
      [img ! 0, img ! 1, img ! 2, img ! 3] = [0x7F, 0x45, 0x4C, 0x46] \<and> img ! 4 = 1 \<and>
      img ! 5 = 1 \<and> img ! 6 = 1 \<and> img ! 7 = 0 \<and> img ! 8 = 0"
    using len by (simp add: take_9_eq)
  show ?thesis
    unfolding parse_header_def elf_header_valid_def ident words [symmetric] magic
    using len small
    by (simp add: ty(1) ma(1) ve(1) fl(1) hs en ta es co magic words elf_constants range_fits_iff
        del: list.map) (auto simp: mult.commute)
qed (simp add: parse_header_def elf_header_valid_def kElf32HeaderSize_def fail_if_def)

lemma parse_header_fields:
  assumes "parse_header img = Some (Inr h)"
  shows "unat (header_entry_point h) = elf_entry img"
    and "unat (program_header_offset h) = elf_table img"
    and "unat (program_header_count h) = elf_count img"
proof -
  have "52 \<le> length img" using assms parse_header_iff [of img] by (auto simp: elf_header_valid_def)
  then show "unat (header_entry_point h) = elf_entry img"
    "unat (program_header_offset h) = elf_table img" "unat (program_header_count h) = elf_count img"
    using assms read_u32_le_number [of 24 img] read_u32_le_number [of 28 img]
      read_u16_le_number [of 44 img]
    by (auto simp: parse_header_def elf_entry_def elf_table_def elf_count_def split: bind_splits)
qed

section \<open>The scan of the table\<close>

text \<open>
  What the loop demands of one segment alone, of a segment after those already seen, and of all
  that remain.
\<close>

definition segment_valid :: "u8 list \<Rightarrow> memory \<Rightarrow> load_segment \<times> u32 \<Rightarrow> bool" where
  "segment_valid img m = (\<lambda>(seg, al). segment_ok img m seg \<and>
     (1 < al \<longrightarrow> is_power_of_two al \<and> virtual_address seg mod al = file_offset seg mod al))"

definition admits :: "scan \<Rightarrow> load_segment \<Rightarrow> bool" where
  "admits st seg \<longleftrightarrow> (\<forall>a \<in> set_option (previous_virtual_address st). a \<le> virtual_address seg) \<and>
     (is_nonempty seg \<longrightarrow>
       (\<forall>e \<in> set_option (previous_nonempty_end st). e \<le> unat (virtual_address seg)))"

definition admits_all :: "scan \<Rightarrow> load_segment list \<Rightarrow> bool" where
  "admits_all st segs \<longleftrightarrow> (\<forall>seg \<in> set segs. admits st seg) \<and>
     sorted_wrt (\<lambda>a b. virtual_address a \<le> virtual_address b) segs \<and> ascending segs"

lemma scan_segment_iff:
  "(\<exists>st'. scan_segment img m index seg al st = Some (Inr st')) \<longleftrightarrow>
     segment_valid img m (seg, al) \<and> admits st seg"
  by (auto simp: scan_segment_def segment_valid_def segment_ok_def admits_def range_fits_iff
      is_nonempty_def elf_constants Let_def not_less word_le_nat_alt word_less_nat_alt)

lemma scan_segment_bounds:
  assumes "scan_segment img m index seg al st = Some (Inr st')"
  shows "previous_virtual_address st' = Some (virtual_address seg)"
    and "previous_nonempty_end st' =
      (if is_nonempty seg then Some (segment_end seg) else previous_nonempty_end st)"
  using assms by (auto simp: scan_segment_def is_nonempty_def Let_def split: if_splits)

lemma admits_all_Cons:
  assumes "scan_segment img m index seg al st = Some (Inr st')"
  shows "admits_all st (seg # segs) \<longleftrightarrow> admits_all st' segs"
proof -
  have adm: "admits st seg" using assms scan_segment_iff by blast
  have le: "unat (virtual_address a) \<le> segment_end a" for a by (simp add: segment_end_def)
  note b = scan_segment_bounds [OF assms]
  have "(\<forall>s \<in> set segs. admits st' s) \<longleftrightarrow>
      (\<forall>s \<in> set segs. admits st s \<and> virtual_address seg \<le> virtual_address s \<and>
        (is_nonempty seg \<longrightarrow> is_nonempty s \<longrightarrow> segment_end seg \<le> unat (virtual_address s)))"
    using adm le [of seg]
    by (cases "is_nonempty seg") (force simp: admits_def b)+
  then show ?thesis using adm by (auto simp: admits_all_def ascending_def)
qed

text \<open>One header, and the headers from an index on.\<close>

definition header_valid :: "u8 list \<Rightarrow> memory \<Rightarrow> elf_header \<Rightarrow> nat \<Rightarrow> bool" where
  "header_valid img m h i \<longleftrightarrow>
     read_u32_le img (header_address h i) \<notin> {Some 2, Some 3, Some 7} \<and>
     (is_load_header img h i \<longrightarrow> segment_valid img m (the (read_segment img (header_address h i))))"

lemma scan_header_iff:
  assumes "header_address h i + 32 \<le> length img"
  shows "(\<exists>st'. scan_header img m (program_header_offset h) i st = Some (Inr st')) \<longleftrightarrow>
    header_valid img m h i \<and> (is_load_header img h i \<longrightarrow> admits st (table_segment img h i))"
proof -
  obtain v seg al where "read_u32_le img (header_address h i) = Some v"
    and "read_segment img (header_address h i) = Some (seg, al)"
    using assms read_u32_le_total [of "header_address h i" img] read_segment_total by fastforce
  then show ?thesis
    by (auto simp: scan_header_def header_address_def header_valid_def is_load_header_def
        table_segment_def elf_constants scan_segment_iff)
qed

lemma scan_header_skip:
  "scan_header img m (program_header_offset h) i st = Some (Inr st') \<Longrightarrow> \<not> is_load_header img h i \<Longrightarrow>
     st' = st"
  by (auto simp: scan_header_def header_address_def is_load_header_def elf_constants Let_def
      split: bind_splits if_splits)

lemma scan_header_load:
  assumes "scan_header img m (program_header_offset h) i st = Some (Inr st')" and "is_load_header img h i"
  obtains al where "scan_segment img m i (table_segment img h i) al st = Some (Inr st')"
  using assms
  by (auto simp: scan_header_def header_address_def is_load_header_def table_segment_def
      elf_constants Let_def split: bind_splits if_splits)

lemma scan_headers_iff:
  assumes "header_address h (index + n) \<le> length img"
  shows "(\<exists>st'. scan_headers img m (program_header_offset h) index n st = Some (Inr st')) \<longleftrightarrow>
    (\<forall>i \<in> {index..<index + n}. header_valid img m h i) \<and>
    admits_all st (map (table_segment img h) (filter (is_load_header img h) [index..<index + n]))"
  using assms
proof (induction n arbitrary: index st)
  case 0
  show ?case by (simp add: admits_all_def ascending_def)
next
  case (Suc n)
  let ?segs = "map (table_segment img h) (filter (is_load_header img h) [index + 1..<index + 1 + n])"
  have addr: "header_address h index + 32 \<le> length img"
    "header_address h (index + 1 + n) \<le> length img"
    using Suc.prems by (simp_all add: header_address_def)
  note IH = Suc.IH [OF addr(2)]
  have range: "{index..<index + Suc n} = insert index {index + 1..<index + 1 + n}"
    and upt: "[index..<index + Suc n] = index # [index + 1..<index + 1 + n]"
    by (auto simp: upt_conv_Cons)
  show ?case
  proof (cases "\<exists>st1. scan_header img m (program_header_offset h) index st = Some (Inr st1)")
    case False
    then have "\<not> (header_valid img m h index \<and>
        (is_load_header img h index \<longrightarrow> admits st (table_segment img h index)))"
      using scan_header_iff [OF addr(1), of m st] by blast
    with False show ?thesis
      by (auto simp: elf_bind_eq_iffs range upt admits_all_def simp del: upt.simps)
  next
    case True
    then obtain st1 where st1: "scan_header img m (program_header_offset h) index st = Some (Inr st1)"
      by blast
    have valid: "header_valid img m h index" using True scan_header_iff [OF addr(1)] by blast
    have "admits_all st1 ?segs \<longleftrightarrow>
        admits_all st (map (table_segment img h) (filter (is_load_header img h) [index..<index + Suc n]))"
    proof (cases "is_load_header img h index")
      case True
      from scan_header_load [OF st1 True] obtain al
        where "scan_segment img m index (table_segment img h index) al st = Some (Inr st1)" .
      from admits_all_Cons [OF this, of ?segs] True show ?thesis unfolding upt by simp
    next
      case False
      with scan_header_skip [OF st1 False] show ?thesis unfolding upt by simp
    qed
    with valid IH [of st1] show ?thesis
      unfolding range by (simp add: elf_bind_eq_iffs st1 del: upt.simps)
  qed
qed

section \<open>The loader decides the specification\<close>

lemma validate_iff:
  assumes h: "parse_header img = Some (Inr h)"
  shows "(\<exists>r. validate img m = Some (Inr r)) \<longleftrightarrow>
    (\<forall>i < elf_count img. header_valid img m h i) \<and> admits_all initial_scan (table_segments img h) \<and>
    elf_entry img mod 4 = 0 \<and>
    (\<exists>seg \<in> set (table_segments img h). entry_in_segment (header_entry_point h) seg)"
    (is "?valid \<longleftrightarrow> ?scan \<and> ?admits \<and> ?aligned \<and> ?entry")
proof -
  let ?scanned = "\<lambda>st. scan_headers img m (program_header_offset h) 0 (unat (program_header_count h))
    initial_scan = Some (Inr st)"
  note fields = parse_header_fields [OF h]
  have "header_address h (0 + unat (program_header_count h)) \<le> length img"
    using parse_header_table [OF h] by (simp add: header_address_def)
  from scan_headers_iff [OF this, of m initial_scan]
  have scanned: "(\<exists>st. ?scanned st) \<longleftrightarrow> ?scan \<and> ?admits"
    by (simp add: fields table_segments_def Ball_def)
  have "?valid \<longleftrightarrow> (\<exists>st. ?scanned st \<and> filter is_nonempty (load_segments st) \<noteq> [] \<and>
      ?aligned \<and> list_ex (entry_in_segment (header_entry_point h)) (load_segments st))"
    by (auto simp: validate_def elf_bind_eq_iffs h and_3_eq_0_iff fields)
  also have "\<dots> \<longleftrightarrow> (\<exists>st. ?scanned st) \<and> ?aligned \<and> ?entry"
  proof -
    have "\<forall>st. ?scanned st \<longrightarrow> load_segments st = table_segments img h"
      using scan_headers_ok [OF _ scan_ok_initial] by (auto simp: initial_scan_def table_segments_def)
    moreover have "?entry \<longrightarrow> filter is_nonempty (table_segments img h) \<noteq> []"
      by (auto simp: filter_empty_conv entry_in_segment_def is_nonempty_def)
    ultimately show ?thesis by (auto simp: list_ex_iff)
  qed
  finally show ?thesis using scanned by (simp only: conj_assoc)
qed

text \<open>Entry \<open>i\<close> of the table, as the loader reads it and as the format gives it.\<close>

lemma number_eq_iff: "unat v = number_at img k n \<Longrightarrow> v = w \<longleftrightarrow> number_at img k n = unat w"
  by (simp add: word_unat_eq_iff)

lemma power_of_two_iff: "is_power_of_two v \<longleftrightarrow> (\<exists>k<32. unat v = 2 ^ k)"
  by (simp add: is_power_of_two_def power_of_two_word_iff)

lemma table_entry:
  assumes "header_address h i + 32 \<le> length img"
  defines "p \<equiv> program_header_at img (header_address h i)" and "seg \<equiv> table_segment img h i"
  shows "is_load_header img h i \<longleftrightarrow> loadable p"
    and "p_vaddr p = unat (virtual_address seg)" and "p_memsz p = unat (load_segment.memory_size seg)"
    and "occupies p c \<longleftrightarrow> covers seg c" and "image_byte img p k = segment_byte img seg k"
    and "starts_in (unat entry) p \<longleftrightarrow> entry_in_segment entry seg"
    and "header_valid img m h i \<longleftrightarrow> p_type p \<notin> {2, 3, 7} \<and> (loadable p \<longrightarrow>
      loadable_valid (length img) (unat (base_address m)) (end_address_exclusive m) p)"
proof -
  let ?k = "header_address h i"
  obtain ty where ty: "read_u32_le img ?k = Some ty" "unat ty = number_at img ?k 4"
    using assms(1) read_u32_le_number [of ?k img] by auto
  obtain sg al where sg: "read_segment img ?k = Some (sg, al)"
    and p: "program_header_at img ?k = \<lparr>p_type = number_at img ?k 4, p_offset = unat (file_offset sg),
      p_vaddr = unat (virtual_address sg), p_filesz = unat (file_size sg),
      p_memsz = unat (load_segment.memory_size sg), p_flags = unat (segment_flags sg),
      p_align = unat al\<rparr>"
    by (rule read_segment_number [OF assms(1)])
  have seg: "seg = sg" by (simp add: seg_def table_segment_def sg)
  note eq = number_eq_iff [OF ty(2)]
  show load: "is_load_header img h i \<longleftrightarrow> loadable p"
    by (simp add: is_load_header_def ty(1) eq p_def p loadable_def)
  show "p_vaddr p = unat (virtual_address seg)" "p_memsz p = unat (load_segment.memory_size seg)"
    by (simp_all add: p_def p seg)
  show "occupies p c \<longleftrightarrow> covers seg c" "image_byte img p k = segment_byte img seg k"
    by (simp_all add: occupies_def covers_def image_byte_def segment_byte_def p_def p seg segment_end_def)
  have odd: "odd (unat v) \<longleftrightarrow> v AND kProgramFlagExecute \<noteq> 0" for v :: u32
    by (simp add: kProgramFlagExecute_def and_one_eq mod_2_eq_odd bit_0 [symmetric] bit_unsigned_iff)
  show "starts_in (unat entry) p \<longleftrightarrow> entry_in_segment entry seg"
    by (auto simp: starts_in_def entry_in_segment_def p_def p seg odd segment_end_def word_le_nat_alt)
  have "segment_valid img m (sg, al) \<longleftrightarrow>
      loadable_valid (length img) (unat (base_address m)) (end_address_exclusive m) p"
    by (auto simp: segment_valid_def segment_ok_def loadable_valid_def p_def p segment_end_def
        is_nonempty_def power_of_two_iff word_less_nat_alt word_unat_eq_iff unat_mod)
  then show "header_valid img m h i \<longleftrightarrow> p_type p \<notin> {2, 3, 7} \<and> (loadable p \<longrightarrow>
      loadable_valid (length img) (unat (base_address m)) (end_address_exclusive m) p)"
    unfolding header_valid_def load by (simp add: ty(1) eq p_def p sg)
qed

text \<open>
  The segments in numbers: first address and size. The order of the table and the absence of
  overlaps are about these pairs only.
\<close>

definition header_range :: "program_header \<Rightarrow> nat \<times> nat" where
  "header_range p = (p_vaddr p, p_memsz p)"

definition segment_range :: "load_segment \<Rightarrow> nat \<times> nat" where
  "segment_range seg = (unat (virtual_address seg), unat (load_segment.memory_size seg))"

definition disjoint_ranges :: "(nat \<times> nat) list \<Rightarrow> bool" where
  "disjoint_ranges rs \<longleftrightarrow> sorted_wrt (\<lambda>a b. fst a + snd a \<le> fst b) (filter (\<lambda>a. 0 < snd a) rs)"

lemma ascending_ranges: "ascending segs \<longleftrightarrow> disjoint_ranges (map segment_range segs)"
  by (simp add: ascending_def disjoint_ranges_def segment_range_def filter_map sorted_wrt_map comp_def
      segment_end_def is_nonempty_def [abs_def] unat_gt_0)

lemma admits_all_initial:
  "admits_all initial_scan segs \<longleftrightarrow>
     sorted (map fst (map segment_range segs)) \<and> disjoint_ranges (map segment_range segs)"
  by (simp add: admits_all_def initial_scan_def admits_def ascending_ranges [symmetric]
      segment_range_def sorted_map comp_def word_le_nat_alt)

text \<open>The loadable headers and the segments of the loader, entry by entry.\<close>

lemma table_loads:
  assumes h: "parse_header img = Some (Inr h)"
  defines "P i \<equiv> program_header_at img (header_address h i)"
    and "js \<equiv> filter (is_load_header img h) [0..<elf_count img]"
  shows "program_headers img = map P [0..<elf_count img]"
    and "filter loadable (program_headers img) = map P js"
    and "table_segments img h = map (table_segment img h) js"
    and "\<And>i. i < elf_count img \<Longrightarrow> header_address h i + 32 \<le> length img"
    and "\<And>i. i \<in> set js \<Longrightarrow> i < elf_count img"
proof -
  note fields = parse_header_fields [OF h]
  show addr: "header_address h i + 32 \<le> length img" if "i < elf_count img" for i
    using that parse_header_table [OF h] by (simp add: header_address_def fields)
  show headers: "program_headers img = map P [0..<elf_count img]"
    by (simp add: program_headers_def P_def header_address_def fields mult.commute)
  have "filter (\<lambda>i. loadable (P i)) [0..<elf_count img] = js"
    unfolding js_def P_def by (rule filter_cong) (simp_all add: table_entry(1) [OF addr])
  then show "filter loadable (program_headers img) = map P js"
    by (simp add: headers filter_map comp_def)
  show "table_segments img h = map (table_segment img h) js"
    by (simp add: table_segments_def js_def fields)
  show "i < elf_count img" if "i \<in> set js" for i using that by (simp add: js_def)
qed

lemma table_ranges:
  assumes h: "parse_header img = Some (Inr h)"
  shows "map segment_range (table_segments img h) =
    map header_range (filter loadable (program_headers img))"
proof -
  note table = table_loads [OF h]
  show ?thesis
    unfolding table(2,3)
    by (auto simp: segment_range_def header_range_def table_entry(2,3) [OF table(4)])
qed

lemma validate_decides:
  "(\<exists>r. validate img m = Some (Inr r)) \<longleftrightarrow>
     elf_executable (unat (base_address m)) (end_address_exclusive m) img"
proof (cases "elf_header_valid img")
  case False
  then have "\<not> (\<exists>h. parse_header img = Some (Inr h))" by (simp only: parse_header_iff not_False_eq_True)
  with False show ?thesis by (auto simp: validate_def elf_bind_eq_iffs elf_executable_def)
next
  case True
  then obtain h where h: "parse_header img = Some (Inr h)" by (simp only: parse_header_iff [symmetric]) blast
  define P where "P i = program_header_at img (header_address h i)" for i
  define js where "js = filter (is_load_header img h) [0..<elf_count img]"
  note fields = parse_header_fields [OF h]
  note table = table_loads [OF h, folded P_def, folded js_def]
  note entries = table_entry [OF table(4), folded P_def]
  have "(\<exists>seg \<in> set (table_segments img h). entry_in_segment (header_entry_point h) seg) \<longleftrightarrow>
      (\<exists>p \<in> set (map P js). starts_in (elf_entry img) p)"
    by (auto simp: table(3) fields(1) [symmetric] entries table(5))
  moreover have "(\<forall>i < elf_count img. header_valid img m h i) \<longleftrightarrow>
      (\<forall>p \<in> set (program_headers img). p_type p \<notin> {2, 3, 7} \<and> (loadable p \<longrightarrow>
        loadable_valid (length img) (unat (base_address m)) (end_address_exclusive m) p))"
    by (auto simp: table(1) entries)
  moreover have "disjoint_ranges (map header_range ps) \<longleftrightarrow>
      sorted_wrt (\<lambda>p q. p_vaddr p + p_memsz p \<le> p_vaddr q) (filter (\<lambda>p. 0 < p_memsz p) ps)" for ps
    by (simp add: disjoint_ranges_def header_range_def filter_map sorted_wrt_map comp_def)
  moreover have "map fst (map header_range ps) = map p_vaddr ps" for ps
    by (simp add: header_range_def)
  ultimately show ?thesis
    unfolding validate_iff [OF h] elf_executable_def admits_all_initial table_ranges [OF h] table(2)
    using True by (simp only: simp_thms conj_assoc)
qed

lemma loaded_process_image:
  assumes "load_elf32 img s m = Some (Inr r, s', m')"
  shows "cell m' = process_image img (cell m)"
proof
  fix c
  from load_elf32_image [OF assms] obtain h where h: "parse_header img = Some (Inr h)"
    and inside: "\<And>seg. seg \<in> set (table_segments img h) \<Longrightarrow> covers seg c \<Longrightarrow>
       cell m' c = Some (segment_byte img seg (unat c - unat (virtual_address seg)))"
    and outside: "(\<forall>seg \<in> set (table_segments img h). \<not> covers seg c) \<Longrightarrow> cell m' c = cell m c"
    by blast
  define P where "P i = program_header_at img (header_address h i)" for i
  define js where "js = filter (is_load_header img h) [0..<elf_count img]"
  note table = table_loads [OF h, folded P_def, folded js_def]
  note entries = table_entry(2-5) [OF table(4), folded P_def]
  show "cell m' c = process_image img (cell m) c"
  proof (cases "find (\<lambda>p. occupies p c) (filter loadable (program_headers img))")
    case None
    then have "\<forall>seg \<in> set (table_segments img h). \<not> covers seg c"
      by (auto simp: find_None_iff table(2,3) entries table(5))
    with None show ?thesis by (simp add: process_image_def outside)
  next
    case (Some p)
    then have "p \<in> set (filter loadable (program_headers img))" and occ: "occupies p c"
      using nth_mem by (fastforce simp: find_Some_iff simp del: set_filter)+
    then obtain i where "i \<in> set js" and p: "p = P i" by (auto simp: table(2))
    then have i: "i < elf_count img" "table_segment img h i \<in> set (table_segments img h)"
      by (auto simp: table(3) table(5))
    with inside [OF i(2)] occ Some show ?thesis by (simp add: process_image_def p entries)
  qed
qed

text \<open>
  C5: the loader implements the file format. It accepts an image exactly if it is an executable
  the specification describes, for the region of guest memory it is loaded into; then the memory
  holds the process image, in the same region, and of the processor only the program counter
  changes, to the entry point of the header. Otherwise the result is an error and neither the
  processor nor the memory changes. Loading never reads outside the image, never writes outside
  the memory and never throws, whatever the bytes of the image are.
\<close>

theorem load_elf32_implements_format:
  "if elf_executable (unat (base_address m)) (end_address_exclusive m) img
   then \<exists>r m'. load_elf32 img s m =
       Some (Inr r, set_program_counter (of_nat (elf_entry img)) s, m') \<and>
       same_region m m' \<and> cell m' = process_image img (cell m)
   else \<exists>e. load_elf32 img s m = Some (Inl e, s, m)"
proof (cases rule: load_elf32_cases [of img s m])
  case (failed e)
  with validate_decides [of img m] show ?thesis by simp
next
  case (loaded h st r m')
  have "elf_executable (unat (base_address m)) (end_address_exclusive m) img"
    using loaded(1) validate_decides by blast
  moreover have "of_nat (elf_entry img) = header_entry_point h"
    using parse_header_fields(1) [OF validate_ok(1) [OF loaded(1)]] by (metis of_nat_unat ucast_id)
  ultimately show ?thesis
    using loaded copy_segments_region loaded_process_image [OF loaded(2)] by auto
qed

text \<open>The specification is met by the sample executable.\<close>

lemma sample_executable: "elf_executable 0x1000 0x1040 sample_image"
  using validate_decides [of sample_image sample_target] sample_validate
  by (auto simp: sample_target_def end_address_exclusive_def)

end
