(* ===== verification/Linux_Boot.thy ===== *)
theory Linux_Boot
  imports Isa_Refinement Cli Elf_Spec
begin

text \<open>
  What the frontend boots, stated without the code: which executables fit into a memory
  configuration, and the architectural machine that such an executable starts on.
\<close>

section \<open>The machine of an executable\<close>

text \<open>
  The mapping of a configuration; the end of an executable in memory; the stack lies below the
  top of the mapping, rounded down to 16 bytes, and above the executable.
\<close>

definition mapping_end :: "options \<Rightarrow> nat" where
  "mapping_end opts = unat (memory_base opts) + unat (memory_size opts)"

definition executable_end :: "u8 list \<Rightarrow> nat" where
  "executable_end img = foldr max (map (\<lambda>p. p_vaddr p + p_memsz p)
     (filter (\<lambda>p. 0 < p_memsz p) (filter loadable (program_headers img)))) 0"

definition bootable :: "options \<Rightarrow> u8 list \<Rightarrow> bool" where
  "bootable opts img \<longleftrightarrow>
     elf_executable (unat (memory_base opts)) (mapping_end opts) img \<and>
     unat (memory_base opts) + round_up (unat (stack_size opts)) \<le> round_down (mapping_end opts) \<and>
     executable_end img + round_up (unat (stack_size opts)) \<le> round_down (mapping_end opts)"

definition boot_machine :: "options \<Rightarrow> u8 list \<Rightarrow> arch" where
  "boot_machine opts img = \<lparr>
     xreg = (\<lambda>j. if j = 2 then of_nat (round_down (mapping_end opts)) else 0),
     xpc = of_nat (elf_entry img),
     xmem = process_image img (\<lambda>a.
       if unat (memory_base opts) \<le> unat a \<and> unat a < mapping_end opts then Some 0 else None)\<rparr>"

text \<open>The executable that a host gives to a run, if the run gets as far as its first step.\<close>

definition executable_of :: "host \<Rightarrow> options \<Rightarrow> u8 list option" where
  "executable_of host opts = (if allocation_fails host then None
     else Option.bind (file_contents (open_file host (program_path opts)))
       (\<lambda>img. if bootable opts img then Some img else None))"

section \<open>The frontend boots it\<close>

lemma last_range_end:
  assumes "sorted_wrt (\<lambda>a b. fst a + snd a \<le> fst b) rs" and "rs \<noteq> []"
  shows "foldr max (map (\<lambda>a. fst a + snd a) rs) 0 = fst (last rs) + snd (last rs :: nat \<times> nat)"
  using assms
proof (induction rs)
  case (Cons a rs)
  show ?case
  proof (cases "rs = []")
    case False
    with Cons.prems last_in_set [OF False] have le: "fst a + snd a \<le> fst (last rs)" by simp
    with Cons False show ?thesis by (simp add: max_absorb2 trans_le_add1 [OF le])
  qed simp
qed simp

text \<open>What a validated file occupies: from its first to its last nonempty segment.\<close>

lemma validate_occupied:
  assumes "validate img m = Some (Inr (h, st))"
  defines "ne \<equiv> filter is_nonempty (table_segments img h)"
  shows "unat (base_address m) \<le> unat (virtual_address (hd ne))"
    and "unat (virtual_address (hd ne)) \<le> segment_end (last ne)"
    and "segment_end (last ne) \<le> end_address_exclusive m"
    and "segment_end (last ne) = executable_end img"
proof -
  note ok = validate_ok [OF assms(1)]
  have segs: "\<forall>seg \<in> set (table_segments img h). segment_ok img m seg"
    and asc: "ascending (table_segments img h)" and ne: "ne \<noteq> []"
    using ok(2,4) by (auto simp: scan_ok_def ok(3) ne_def)
  have mem: "hd ne \<in> set ne" "last ne \<in> set ne" using ne by simp_all
  then show "unat (base_address m) \<le> unat (virtual_address (hd ne))"
    "segment_end (last ne) \<le> end_address_exclusive m"
    using segs by (auto simp: segment_ok_def ne_def)
  have sorted: "sorted_wrt (\<lambda>a b. segment_end a \<le> unat (virtual_address b)) ne"
    using asc by (simp add: ascending_def ne_def)
  from ascending_last [OF this mem(1)]
  show "unat (virtual_address (hd ne)) \<le> segment_end (last ne)" by (simp add: segment_end_def)
  let ?rs = "map segment_range ne"
  have "?rs = filter (\<lambda>a. 0 < snd a) (map segment_range (table_segments img h))"
    by (simp add: ne_def filter_map comp_def segment_range_def is_nonempty_def [abs_def] unat_gt_0)
  also have "\<dots> = map header_range (filter (\<lambda>p. 0 < p_memsz p) (filter loadable (program_headers img)))"
    unfolding table_ranges [OF ok(1)] by (simp add: filter_map comp_def header_range_def del: filter_filter)
  finally have "map (\<lambda>a. fst a + snd a) ?rs =
    map (\<lambda>p. p_vaddr p + p_memsz p) (filter (\<lambda>p. 0 < p_memsz p) (filter loadable (program_headers img)))"
    by (simp add: header_range_def comp_def del: filter_filter)
  then have "executable_end img = foldr max (map (\<lambda>a. fst a + snd a) ?rs) 0"
    by (simp only: executable_end_def)
  also have "\<dots> = segment_end (last ne)"
    using sorted ne
    by (subst last_range_end) (simp_all add: sorted_wrt_map segment_range_def segment_end_def last_map)
  finally show "segment_end (last ne) = executable_end img" by simp
qed

lemma stack_layout_fits:
  assumes "unat (base_address m) \<le> b" and "b \<le> e" and "e \<le> end_address_exclusive m"
    and "0 < r" and "r \<le> 2 ^ 32"
  shows "(\<exists>lower upper. stack_layout m b e r = Inr (lower, upper)) \<longleftrightarrow>
    unat (base_address m) + round_up r \<le> round_down (end_address_exclusive m) \<and>
    e + round_up r \<le> round_down (end_address_exclusive m)"
  using assms by (simp add: stack_layout_def Let_def not_less)

lemma stack_layout_top: "stack_layout m b e r = Inr (lower, upper) \<Longrightarrow>
    upper = round_down (end_address_exclusive m)"
  by (auto simp: stack_layout_def Let_def split: if_splits)

text \<open>The mapping of a valid configuration.\<close>

lemma configured_memory:
  assumes "valid_memory_configuration opts"
  obtains m where "make_memory (memory_base opts) (unat (memory_size opts)) = Some m"
    and "base_address m = memory_base opts" and "end_address_exclusive m = mapping_end opts"
    and "0 < unat (stack_size opts)" and "unat (stack_size opts) \<le> 2 ^ 32"
    and "cell m = (\<lambda>a. if unat (memory_base opts) \<le> unat a \<and> unat a < mapping_end opts
      then Some 0 else None)"
proof -
  have "ucast (memory_base opts) \<le> (0x100000000 :: u64)"
    using unat_lt_2_32 [of "memory_base opts"] by (simp add: word_le_nat_alt)
  then have "unat ((0x100000000 :: u64) - ucast (memory_base opts)) = 2 ^ 32 - unat (memory_base opts)"
    by (simp add: unat_sub)
  then have conf: "unat (memory_base opts) + unat (memory_size opts) \<le> 2 ^ 32"
    "0 < unat (stack_size opts)" "unat (stack_size opts) \<le> unat (memory_size opts)"
    using assms unat_lt_2_32 [of "memory_base opts"]
    by (auto simp: valid_memory_configuration_def word_le_nat_alt kCliAddressSpaceSize_def unat_gt_0)
  then obtain m where m: "make_memory (memory_base opts) (unat (memory_size opts)) = Some m"
    using make_memory_eq_None_iff [of "memory_base opts" "unat (memory_size opts)"] by fastforce
  note props = make_memory_Some [OF m]
  show thesis
    by (rule that [OF m])
      (use conf props in \<open>auto simp: end_address_exclusive_def mapping_end_def cell_def fun_eq_iff\<close>)
qed

text \<open>Some machine is booted exactly if the file is bootable, and then it is the boot machine.\<close>

lemma booted_iff:
  assumes "valid_memory_configuration opts"
  shows "(\<exists>s. booted host opts k s) \<longleftrightarrow>
    (\<exists>img. file_contents (open_file host (program_path opts)) = Some img \<and> bootable opts img)"
proof -
  obtain m where m: "make_memory (memory_base opts) (unat (memory_size opts)) = Some m"
    "base_address m = memory_base opts" "end_address_exclusive m = mapping_end opts"
    "0 < unat (stack_size opts)" "unat (stack_size opts) \<le> 2 ^ 32"
    by (rule configured_memory [OF assms])
  let ?lay = "\<lambda>img h. stack_layout m
    (unat (virtual_address (hd (filter is_nonempty (table_segments img h)))))
    (segment_end (last (filter is_nonempty (table_segments img h)))) (unat (stack_size opts))"
  have fits: "(\<exists>lower upper. ?lay img h = Inr (lower, upper)) \<longleftrightarrow>
      unat (memory_base opts) + round_up (unat (stack_size opts)) \<le> round_down (mapping_end opts) \<and>
      executable_end img + round_up (unat (stack_size opts)) \<le> round_down (mapping_end opts)"
    if "validate img m = Some (Inr (h, st))" for img h st
    using stack_layout_fits [of m _ _ "unat (stack_size opts)"] validate_occupied [OF that] m by simp
  have starts: "\<exists>s. booted host opts k s"
    if img: "file_contents (open_file host (program_path opts)) = Some img"
      and v: "validate img m = Some (Inr (h, st))" and "?lay img h = Inr (lower, upper)"
    for img h st lower upper
  proof -
    obtain m' where "copy_segments img (table_segments img h) m = Some m'"
      by (rule load_elf32_eq [OF v])
    with that m(1) show ?thesis
      by (intro exI [of _ "\<lparr>engine_of = \<lparr>state = set_reg 2 (of_nat upper)
          (set_program_counter (header_entry_point h) initial_cpu_state), memory_of = m',
          observer = ()\<rparr>, environment = k\<rparr>"]) (auto simp: booted_def)
  qed
  have "(\<exists>s. booted host opts k s) \<longleftrightarrow> (\<exists>img h st lower upper.
      file_contents (open_file host (program_path opts)) = Some img \<and>
      validate img m = Some (Inr (h, st)) \<and> ?lay img h = Inr (lower, upper))"
    using starts by (auto simp: booted_def m(1))
  also have "\<dots> \<longleftrightarrow>
      (\<exists>img. file_contents (open_file host (program_path opts)) = Some img \<and> bootable opts img)"
    unfolding bootable_def m(2,3) [symmetric] validate_decides [symmetric]
    using fits m(2,3) by fastforce
  finally show ?thesis .
qed

lemma booted_machine:
  assumes "booted host opts k s" and "valid_memory_configuration opts"
    and "file_contents (open_file host (program_path opts)) = Some img"
  shows "abs_engine (engine_of s) = boot_machine opts img"
proof -
  obtain m where m: "make_memory (memory_base opts) (unat (memory_size opts)) = Some m"
    "base_address m = memory_base opts" "end_address_exclusive m = mapping_end opts"
    "cell m = (\<lambda>a. if unat (memory_base opts) \<le> unat a \<and> unat a < mapping_end opts
      then Some 0 else None)"
    by (rule configured_memory [OF assms(2)])
  obtain h st lower upper where
    v: "validate img m = Some (Inr (h, st))" and
    copy: "copy_segments img (table_segments img h) m = Some (memory_of (engine_of s))" and
    lay: "stack_layout m (unat (virtual_address (hd (filter is_nonempty (table_segments img h)))))
       (segment_end (last (filter is_nonempty (table_segments img h))))
       (unat (stack_size opts)) = Inr (lower, upper)" and
    cpu: "state (engine_of s) =
      set_reg 2 (of_nat upper) (set_program_counter (header_entry_point h) initial_cpu_state)"
    using assms(1) unfolding booted_def assms(3) m(1) by auto
  obtain m' r where "copy_segments img (table_segments img h) m = Some m'"
    and "load_elf32 img initial_cpu_state m = Some (Inr r,
      set_program_counter (header_entry_point h) initial_cpu_state, m')"
    by (rule load_elf32_eq [OF v, of initial_cpu_state])
  with copy loaded_process_image have "cell (memory_of (engine_of s)) = process_image img (cell m)"
    by simp
  moreover have "of_nat (elf_entry img) = header_entry_point h"
    using parse_header_fields(1) [OF validate_ok(1) [OF v]] by (metis of_nat_unat ucast_id)
  moreover have "reg (state (engine_of s)) 2 = of_nat (round_down (mapping_end opts))"
    using stack_layout_top [OF lay] by (simp add: cpu reg_set_reg m(3))
  ultimately show ?thesis
    using booted_cpu(3) [OF assms(1)]
    by (auto simp: abs_engine_def abs_arch_def boot_machine_def m(4) cpu)
qed

end
