(* ===== verification/Linux_Process.thy ===== *)
theory Linux_Process
  imports Linux_Boot
begin

text \<open>
  A Linux process of the architecture, stated without the code: an interpreter over the machine
  of \<open>Isa_Spec\<close> with the three system calls the emulator offers. The bounded runs of a session
  under the Linux environment compute it, and so does the command-line frontend from the booted
  machine to the status of the host process.
\<close>

section \<open>System calls over the architecture\<close>

text \<open>The bytes in a range of addresses that does not wrap, if all of them are mapped.\<close>

definition bytes_in :: "(u32 \<Rightarrow> u8 option) \<Rightarrow> u32 \<Rightarrow> nat \<Rightarrow> u8 list option" where
  "bytes_in f a n =
     (if unat a + n \<le> 2 ^ 32 then those (map (\<lambda>i. f (a + of_nat i)) [0..<n]) else None)"

text \<open>
  \<^verbatim>\<open>write(fd, buffer, count)\<close>: EBADF, zero for an empty write, EFAULT, or one transfer to
  the stream, which gives the number of bytes it took or EIO.
\<close>

definition process_write ::
  "'k sink \<Rightarrow> (u32 \<Rightarrow> u8 option) \<Rightarrow> u32 \<Rightarrow> u32 \<Rightarrow> u32 \<Rightarrow> 'k \<Rightarrow> u32 \<times> 'k" where
  "process_write sink f fd buffer count k =
     (let n = min (unat count) 0x7FFFF000
      in if fd \<noteq> 1 \<and> fd \<noteq> 2 then (- 9, k)
         else if n = 0 then (0, k)
         else case bytes_in f buffer n of
           None \<Rightarrow> (- 14, k)
         | Some bs \<Rightarrow>
             (case sink (if fd = 1 then StandardOutput else StandardError) bs k of
                (Some (OutputWriteCompleted w), k') \<Rightarrow> (if w \<le> n then of_nat w else - 5, k')
              | (_, k') \<Rightarrow> (- 5, k')))"

definition process_call :: "'k sink \<Rightarrow> arch \<Rightarrow> 'k \<Rightarrow> u32 \<times> 'k" where
  "process_call sink A k =
     (if xreg A 17 = 64 then process_write sink (xmem A) (xreg A 10) (xreg A 11) (xreg A 12) k
      else (- 38, k))"

section \<open>The process\<close>

datatype fate = Exited nat | Raised trap_cause u32 | OutOfSteps

fun process :: "'k sink \<Rightarrow> nat \<Rightarrow> arch \<Rightarrow> 'k \<Rightarrow> fate \<times> arch \<times> 'k" where
  "process sink 0 A k = (OutOfSteps, A, k)"
| "process sink (Suc n) A k = (case arch_step A of
     Retire B \<Rightarrow> process sink n B k
   | Except c v \<Rightarrow>
       if c \<noteq> EnvironmentCallFromUserMode then (Raised c v, A, k)
       else if xreg A 17 \<in> {93, 94} then (Exited (unat (xreg A 10) mod 256), A, k)
       else let (r, k') = process_call sink A k
         in process sink n (go (next_seq A) (put_reg 10 r A)) k')"

declare process.simps(2) [simp del]

section \<open>The calls agree\<close>

lemma those_map_None: "i \<in> set xs \<Longrightarrow> f i = None \<Longrightarrow> those (map f xs) = None"
  by (induction xs) (auto split: option.splits)

lemma bytes_in_mapped:
  assumes "wf_memory m" and "0 < n"
  shows "bytes_in (cell m) a n = (if mapped m a n
     then Some (map (\<lambda>i. the (cell m (a + of_nat i))) [0..<n]) else None)"
proof (cases "mapped m a n")
  case True
  then have le: "unat a + n \<le> 2 ^ 32" using assms(1) by (simp add: mapped_def wf_memory_def)
  from cells_mapped_iff [OF le assms(2), of m] True
  have "cell m (a + of_nat i) = Some (the (cell m (a + of_nat i)))" if "i \<in> set [0..<n]" for i
    using that by auto
  with le True show ?thesis unfolding bytes_in_def by (simp only: if_True those_map_Some)
next
  case False
  show ?thesis
  proof (cases "unat a + n \<le> 2 ^ 32")
    case True
    with cells_mapped_iff [OF True assms(2), of m] False
    obtain i where "i \<in> set [0..<n]" "cell m (a + of_nat i) = None" by auto
    then have "those (map (\<lambda>i. cell m (a + of_nat i)) [0..<n]) = None" by (rule those_map_None)
    with False show ?thesis by (simp add: bytes_in_def)
  qed (use False in \<open>simp add: bytes_in_def\<close>)
qed

text \<open>The handler of the code answers as the process does.\<close>

lemma handle_write_process:
  assumes "wf_memory m"
  shows "handle_write sink call m k =
    (let (r, k') = process_write sink (cell m) (arguments call ! 0) (arguments call ! 1)
       (arguments call ! 2) k
     in (EnvironmentCallResume r, k'))"
proof (cases "stream_of (arguments call ! 0)")
  case None
  then have "arguments call ! 0 \<noteq> 1 \<and> arguments call ! 0 \<noteq> 2"
    by (simp add: stream_of_def split: if_splits)
  with None show ?thesis by (simp add: handle_write_rejected process_write_def Let_def)
next
  case (Some stream)
  define a where "a = arguments call ! 1"
  define n where "n = transfer_size (arguments call ! 2)"
  have size: "min (unat (arguments call ! 2)) 0x7FFFF000 = n" by (simp add: n_def transfer_size_def)
  have fd: "(arguments call ! 0 \<noteq> 1 \<and> arguments call ! 0 \<noteq> 2) = False"
    "(if arguments call ! 0 = 1 then StandardOutput else StandardError) = stream"
    using Some by (simp_all add: stream_of_def split: if_splits)
  note code = handle_write_eq [OF Some, of sink m k, folded a_def n_def]
  note spec = process_write_def [of sink "cell m" "arguments call ! 0" a "arguments call ! 2" k,
    unfolded size fd]
  have zero: "arguments call ! 2 = 0 \<longleftrightarrow> n = 0" by (simp add: n_def)
  show ?thesis
  proof (cases "n = 0 \<or> \<not> mapped m a n")
    case True
    then show ?thesis
      using bytes_in_mapped [OF assms, of n a] unfolding a_def [symmetric] code spec zero Let_def by auto
  next
    case False
    obtain r k' where out: "sink stream (map (\<lambda>i. the (cell m (a + of_nat i))) [0..<n]) k = (r, k')"
      by fastforce
    have bs: "bytes_in (cell m) a n = Some (map (\<lambda>i. the (cell m (a + of_nat i))) [0..<n])"
      using bytes_in_mapped [OF assms, of n a] False by simp
    from False have "n \<noteq> 0" and "mapped m a n" by simp_all
    then show ?thesis
      unfolding a_def [symmetric] code spec zero Let_def written_bytes [OF assms \<open>mapped m a n\<close>]
      by (simp add: bs out split: option.split output_write_result.split)
  qed
qed

section \<open>Sessions compute processes\<close>

text \<open>The environment call of a machine, answered by the handler of the code.\<close>

lemma answer_of_linux:
  assumes "wf_memory (memory_of (engine_of s))"
  defines "A \<equiv> abs_engine (engine_of s)"
  shows "answer_of (linux_handler sink) s = Some (
    if xreg A 17 \<in> {93, 94}
    then (EnvironmentCallExit (of_nat (unat (xreg A 10) mod 256)), environment s)
    else let (r, k') = process_call sink A (environment s) in (EnvironmentCallResume r, k'))"
proof -
  have args: "[10..<16] = [10, 11, 12, 13, 14, 15 :: nat]" by code_simp
  have low: "v AND 0xFF = of_nat (unat v mod 256)" for v :: u32
    by (simp only: unat_and_255 [symmetric]) simp
  show ?thesis
    by (simp add: A_def answer_of_def linux_handler_def linux_handle_def kWrite_def kExit_def
        kExitGroup_def kErrorNotImplemented_def error_result_eq process_call_def call_of_def args low
        handle_write_process [OF assms(1)] abs_engine_def)
qed

lemma process_path:
  "session_path obs (linux_handler sink) bps s tr s' \<Longrightarrow> wf_cpu (state (engine_of s)) \<Longrightarrow>
   wf_memory (memory_of (engine_of s)) \<Longrightarrow>
     process sink (length tr + n) (abs_engine (engine_of s)) (environment s) =
     process sink n (abs_engine (engine_of s')) (environment s')"
proof (induction rule: session_path.induct)
  case (path_Cons s ev s' tr s'')
  have wf: "wf_cpu (state (engine_of s'))" "wf_memory (memory_of (engine_of s'))"
    using advances_wf_cpu [OF path_Cons.hyps(2) path_Cons.prems(1)]
      same_region_wf [OF advances_region [OF path_Cons.hyps(2)]] path_Cons.prems(2) by simp_all
  note rest = path_Cons.IH [OF wf]
  from path_Cons.hyps(2) show ?case
  proof cases
    case (advances_retire ob e')
    from completes_refines [OF _ path_Cons.prems(1)] advances_retire
    have "arch_step (abs_engine (engine_of s)) = Retire (abs_engine (engine_of s'))" by auto
    with rest advances_retire show ?thesis by (simp add: process.simps(2))
  next
    case (advances_answer t v k')
    have "arch_step (abs_engine (engine_of s)) = Except EnvironmentCallFromUserMode (trap_value t)"
      using step_refines [OF path_Cons.prems(1) advances_answer(3)] advances_answer(4) by simp
    moreover have "xreg (abs_engine (engine_of s)) 17 \<notin> {93, 94}"
      "process_call sink (abs_engine (engine_of s)) (environment s) = (v, k')"
      using answer_of_linux [OF path_Cons.prems(2), of sink] advances_answer
      by (auto simp: answer_of_def Let_def split: if_splits prod.splits)
    ultimately show ?thesis
      using rest advances_answer path_Cons.prems(1)
      by (simp add: process.simps(2) abs_engine_def resume_def abs_arch_set_pc abs_arch_set_reg
          next_seq_abs)
  qed
qed simp

text \<open>How a result of a session reads as the end of a process.\<close>

fun fate_of :: "session_run_result \<Rightarrow> fate" where
  "fate_of (SessionRunExited st call exit_code) = Exited (unat exit_code)"
| "fate_of (SessionRunTrapped st t) = Raised (cause t) (trap_value t)"
| "fate_of r = OutOfSteps"

lemma process_stop:
  assumes "session_stops obs (linux_handler sink) [] st s (Some (r, s'))"
    and "wf_cpu (state (engine_of s))" and "wf_memory (memory_of (engine_of s))"
  shows "process sink (Suc n) (abs_engine (engine_of s)) (environment s) =
    (fate_of r, abs_engine (engine_of s'), environment s')"
proof (cases obs "linux_handler sink" s rule: session_step_cases)
  case (exited exit_code h' t)
  from assms(1) exited(2) have r: "\<exists>st call. r = SessionRunExited st call exit_code"
    and s': "s' = s\<lparr>environment := h'\<rparr>" by (cases; simp)+
  from step_refines [OF assms(2) exited(3)] exited(4)
  have "arch_step (abs_engine (engine_of s)) = Except EnvironmentCallFromUserMode (trap_value t)" by simp
  moreover from exited(1) answer_of_linux [OF assms(3), of sink]
  have "xreg (abs_engine (engine_of s)) 17 \<in> {93, 94}" and
    "exit_code = of_nat (unat (xreg (abs_engine (engine_of s)) 10) mod 256)" "h' = environment s"
    by (auto simp: Let_def split: if_splits prod.splits)
  moreover have "unat (of_nat (k mod 256) :: u32) = k mod 256" for k :: nat
    by (simp add: unat_of_nat less_trans [OF mod_less_divisor])
  ultimately show ?thesis using r s' by (auto simp: process.simps(2))
next
  case (unhandled t h')
  with answer_of_linux [OF assms(3), of sink] show ?thesis
    by (auto simp: Let_def split: if_splits prod.splits)
next
  case (trapped t)
  from assms(1) trapped(3) have r: "\<exists>st. r = SessionRunTrapped st t" and s': "s' = s" by (cases; simp)+
  from step_refines [OF assms(2) trapped(1)]
  have "arch_step (abs_engine (engine_of s)) = Except (cause t) (trap_value t)" by simp
  with trapped(2) r s' show ?thesis by (auto simp: process.simps(2))
qed (use assms(1) in \<open>cases; simp\<close>)+

text \<open>
  A bounded run of a session without breakpoints is the bounded run of the process: the same
  fate, the same machine and the same output.
\<close>

lemma session_is_process:
  assumes "session_run obs (linux_handler sink) limit [] s = Some (r, s')"
    and "wf_cpu (state (engine_of s))" and "wf_memory (memory_of (engine_of s))"
  shows "process sink (unat limit) (abs_engine (engine_of s)) (environment s) =
    (fate_of r, abs_engine (engine_of s'), environment s')"
proof (cases rule: session_run_outcome [of obs "linux_handler sink" "[]" s limit])
  case (limit tr s1)
  with process_path [OF limit(1) assms(2,3), of 0] assms(1) show ?thesis by auto
next
  case (stopped tr s1)
  define n where "n = unat limit - length tr - 1"
  have n: "unat limit = length tr + Suc n" using stopped(2) by (simp add: n_def)
  have "wf_cpu (state (engine_of s1))" using stopped(1) assms(2) by (rule session_path_wf_cpu)
  moreover have "wf_memory (memory_of (engine_of s1))"
    using session_path_region [OF stopped(1)] assms(3) same_region_wf by blast
  ultimately show ?thesis
    unfolding n process_path [OF stopped(1) assms(2,3)]
    by (rule process_stop [OF stopped(3) [unfolded assms(1)]])
qed

text \<open>
  A debugging session that ends has run the process: cut off after some number of steps if the
  user left, to the end of the process or of the budget otherwise.
\<close>

lemma finishes_is_process:
  assumes "finishes obs (linux_handler sink) (make_debugger s limit) res d'"
    and "wf_cpu (state (engine_of s))" and "wf_memory (memory_of (engine_of s))"
  defines "reached \<equiv> (abs_engine (engine_of (session_of d')), environment (session_of d'))"
  shows "case res of
      DebuggerQuit st \<Rightarrow> \<exists>n \<le> unat limit.
        process sink n (abs_engine (engine_of s)) (environment s) = (OutOfSteps, reached)
    | DebuggerStopped r \<Rightarrow>
        process sink (unat limit) (abs_engine (engine_of s)) (environment s) = (fate_of r, reached)"
proof -
  have start: "session_of (make_debugger s limit) = s" "maximum_guest_steps (make_debugger s limit) = limit"
    "unat (guest_steps (debugger_statistics (make_debugger s limit))) = 0"
    by (simp_all add: make_debugger_def initial_statistics_def)
  from assms(1) obtain tr s1 st where path: "session_path obs (linux_handler sink) [] s tr s1" and
    ends: "session_of d' = s1 \<and> res = DebuggerQuit st \<and> length tr \<le> unat limit \<or>
      session_of d' = s1 \<and> res = DebuggerStopped (SessionStepLimitReached st) \<and>
        length tr = unat limit \<or>
      (\<exists>r. res = DebuggerStopped r \<and>
        session_stops obs (linux_handler sink) [] st s1 (Some (r, session_of d')) \<and>
        length tr < unat limit)"
    unfolding finishes_def start add_0 by blast
  note along = process_path [OF path assms(2,3)]
  have wf: "wf_cpu (state (engine_of s1))" "wf_memory (memory_of (engine_of s1))"
    using session_path_wf_cpu [OF path assms(2)] session_path_region [OF path] assms(3) same_region_wf
    by blast+
  from ends consider
    (left) "session_of d' = s1" "res = DebuggerQuit st" "length tr \<le> unat limit"
    | (limit) "session_of d' = s1" "res = DebuggerStopped (SessionStepLimitReached st)"
        "length tr = unat limit"
    | (stopped) r where "res = DebuggerStopped r" "length tr < unat limit"
        "session_stops obs (linux_handler sink) [] st s1 (Some (r, session_of d'))" by blast
  then show ?thesis
  proof cases
    case left
    then show ?thesis using along [of 0] by (auto simp: reached_def intro!: exI [of _ "length tr"])
  next
    case limit
    then show ?thesis using along [of 0] by (simp add: reached_def)
  next
    case (stopped r)
    then have n: "unat limit = length tr + Suc (unat limit - length tr - 1)" by simp
    show ?thesis
      by (subst n) (simp add: stopped(1) along process_stop [OF stopped(3) wf] reached_def
        del: add_Suc_right)
  qed
qed

section \<open>The frontend\<close>

lemma booted_memory: "booted host opts k s \<Longrightarrow> wf_memory (memory_of (engine_of s))"
  unfolding booted_def by (metis make_memory_Some(1) copy_segments_region same_region_wf)

text \<open>What can be booted is booted.\<close>

lemma booted_starts:
  assumes "booted host opts k s" and "valid_memory_configuration opts" and "\<not> allocation_fails host"
  shows "\<exists>s'. \<forall>f. with_loaded_program host opts k f nothing = f s'"
proof -
  obtain img m h st lower upper where boot:
    "file_contents (open_file host (program_path opts)) = Some img"
    "make_memory (memory_base opts) (unat (memory_size opts)) = Some m"
    "validate img m = Some (Inr (h, st))"
    "stack_layout m (unat (virtual_address (hd (filter is_nonempty (table_segments img h)))))
       (segment_end (last (filter is_nonempty (table_segments img h))))
       (unat (stack_size opts)) = Inr (lower, upper)"
    using assms(1) unfolding booted_def by blast
  from assms(2,3) boot(2,1,3) show ?thesis
  proof (cases rule: with_loaded_program_started [where k = k and nothing = nothing])
    case (overlap c loaded)
    with boot(4) show ?thesis by simp
  qed blast
qed

lemma refused_diagnostics: "refusal r \<Longrightarrow> snd (report opts r) \<noteq> []"
  by (cases r) simp_all

lemma run_diagnostics:
  assumes "terminal limit r"
  shows "fst (report_run opts pc r) = (case fate_of r of Exited c \<Rightarrow> int c | _ \<Rightarrow> 125)"
    and "snd (report_run opts pc r) = [] \<longleftrightarrow> (\<exists>c. fate_of r = Exited c)"
  using assms
  by (cases r; simp add: terminal_def sint_low_byte kInfrastructureFailureExitStatus_def)+

text \<open>
  Every run gets as far as the executable allows: it is refused, or it starts on the boot machine.
\<close>

lemma frontend_boots [consumes 1, case_names refused started]:
  assumes "valid_memory_configuration opts"
  obtains
    (refused) r where "executable_of host opts = None" "refusal r"
      "\<And>f. with_loaded_program host opts k f nothing = Some (r, nothing, k)"
  | (started) s img where "executable_of host opts = Some img"
      "\<And>f. with_loaded_program host opts k f nothing = f s" "booted host opts k s"
      "abs_engine (engine_of s) = boot_machine opts img"
proof (cases rule: with_loaded_program_cases [of host opts k nothing])
  case (refused r)
  have "allocation_fails host" if "booted host opts k s" for s
  proof (rule ccontr)
    assume "\<not> allocation_fails host"
    from booted_starts [OF that assms this, of nothing] refused(1) [of "\<lambda>_. None"]
    show False by auto
  qed
  then have "\<not> (\<exists>s. booted host opts k s) \<or> allocation_fails host" by blast
  then have "executable_of host opts = None"
    unfolding booted_iff [OF assms]
    by (cases "file_contents (open_file host (program_path opts))") (auto simp: executable_of_def)
  then show thesis using refused(2,1) by (rule that(1))
next
  case (started s)
  have "\<not> allocation_fails host"
    using started(1) [of "\<lambda>_. None"] by (auto simp: with_loaded_program_def started(3))
  moreover have "\<exists>s. booted host opts k s" using started(2) by blast
  then obtain img where img: "file_contents (open_file host (program_path opts)) = Some img"
    "bootable opts img"
    unfolding booted_iff [OF assms] by blast
  ultimately have "executable_of host opts = Some img" by (simp add: executable_of_def)
  then show thesis using started(1,2) booted_machine [OF started(2) assms img(1)] by (rule that(2))
qed

section \<open>Properties\<close>

text \<open>
  C2: the command-line program runs a Linux process. With options that parse, and without the
  debugger, it returns: 125 with a diagnostic and no output if the host has no memory for the run
  or the file is not an executable that fits the mapping; otherwise the process is run from the
  machine that the file, the mapping and the ABI determine, for at most the given steps; its
  output is the output of the guest, and the status is the low byte of its exit code, without a
  diagnostic, or 125 with one if it raises an exception or is cut off.
\<close>

theorem main_runs_process:
  assumes "parse_arguments args = ParseSuccess opts" and "\<not> debug opts"
  shows "\<exists>status diagnostics k'.
    rvemu_main host args sink input_lines k = Some (status, [], diagnostics, k') \<and>
    (case executable_of host opts of
       None \<Rightarrow> status = 125 \<and> diagnostics \<noteq> [] \<and> k' = k
     | Some img \<Rightarrow> (case process sink (unat (maximum_steps opts)) (boot_machine opts img) k of
          (Exited c, A, k1) \<Rightarrow> status = int c \<and> diagnostics = [] \<and> k' = k1
        | (_, A, k1) \<Rightarrow> status = 125 \<and> diagnostics \<noteq> [] \<and> k' = k1))"
proof -
  have "valid_memory_configuration opts" using parse_arguments_success [OF assms(1)] by simp
  then show ?thesis
  proof (cases rule: frontend_boots [where host = host and k = k and nothing = "[] :: string"])
    case (refused r)
    have "rvemu_main host args sink input_lines k = Some (fst (report opts r), [], snd (report opts r), k)"
      using assms refused(3) by (simp add: rvemu_main_def run_cli_def run_program_def split_beta)
    with refused(1) report_refusal [OF refused(2), of opts] refused_diagnostics [OF refused(2), of opts]
    show ?thesis by simp
  next
    case (started s img)
    obtain r s' where run: "session_run None (linux_handler sink) (maximum_steps opts) [] s = Some (r, s')"
      using linux.session_run_returns [where s = s and obs = None and sink = sink
        and limit = "maximum_steps opts" and bps = "[]"] by auto
    let ?pc = "program_counter (state (engine_of s'))"
    have "rvemu_main host args sink input_lines k =
        Some (fst (report_run opts ?pc r), [], snd (report_run opts ?pc r), environment s')"
      using assms started(2) run by (simp add: rvemu_main_def run_cli_def run_program_def split_beta)
    moreover have "process sink (unat (maximum_steps opts)) (boot_machine opts img) k =
        (fate_of r, abs_engine (engine_of s'), environment s')"
      using session_is_process [OF run booted_cpu(1) [OF started(3)] booted_memory [OF started(3)]]
      by (simp add: started(4) booted_cpu(4) [OF started(3)])
    moreover note run_diagnostics [OF session_run_terminal [OF run], of opts ?pc]
    ultimately show ?thesis using started(1) by (cases "fate_of r") auto
  qed
qed

text \<open>
  C21: the debugger debugs that process. With options that parse and ask for the debugger,
  whatever the input lines are, the program returns: 125 with a diagnostic if nothing can be
  booted; 0 if the user left, and then the guest is the process after some number of steps within
  the bound, with the output it has by then; otherwise status and output are those of the
  process without a debugger.
\<close>

theorem main_debugs_process:
  assumes "parse_arguments args = ParseSuccess opts" and "debug opts"
  shows "\<exists>status shown k'. rvemu_main host args sink input_lines k = Some (status, [], shown, k') \<and>
    (case executable_of host opts of
       None \<Rightarrow> status = 125 \<and> shown \<noteq> [] \<and> k' = k
     | Some img \<Rightarrow>
         (\<exists>n A. n \<le> unat (maximum_steps opts) \<and> status = 0 \<and>
            process sink n (boot_machine opts img) k = (OutOfSteps, A, k')) \<or>
         (\<exists>f A. process sink (unat (maximum_steps opts)) (boot_machine opts img) k = (f, A, k') \<and>
            status = (case f of Exited c \<Rightarrow> int c | _ \<Rightarrow> 125)))"
proof -
  have "valid_memory_configuration opts" using parse_arguments_success [OF assms(1)] by simp
  then show ?thesis
  proof (cases rule: frontend_boots [where host = host and k = k and nothing = "[] :: string"])
    case (refused r)
    have "rvemu_main host args sink input_lines k = Some (fst (report opts r), [], snd (report opts r), k)"
      using assms refused(3) by (simp add: rvemu_main_def run_cli_def run_debugger_program_def split_beta)
    with refused(1) report_refusal [OF refused(2), of opts] refused_diagnostics [OF refused(2), of opts]
    show ?thesis by simp
  next
    case (started s img)
    obtain res d where
      run: "debugger_run None (linux_handler sink) input_lines (make_debugger s (maximum_steps opts)) =
        Some (res, d)"
      and ends: "finishes None (linux_handler sink) (make_debugger s (maximum_steps opts)) res d"
      by (rule linux_debugger_returns)
    note process = finishes_is_process [OF ends booted_cpu(1) [OF started(3)] booted_memory [OF started(3)],
      unfolded started(4) booted_cpu(4) [OF started(3)]]
    note starts = rvemu_main_def run_cli_def run_debugger_program_def started(2) run split_beta
    show ?thesis
    proof (cases res)
      case (DebuggerQuit st)
      then show ?thesis using assms started(1) process by (simp add: starts) blast
    next
      case (DebuggerStopped r)
      have "terminal (maximum_steps opts) r"
        using terminal_of_finishes [OF ends] by (simp add: make_debugger_def DebuggerStopped)
      from run_diagnostics(1) [OF this] show ?thesis
        using assms started(1) process by (auto simp: starts DebuggerStopped)
    qed
  qed
qed

lemma sample_cells:
  assumes "booted sample_host sample_options k s"
  defines "A \<equiv> abs_engine (engine_of s)"
  shows "xpc A = 0x1000" and "\<And>j. j \<noteq> 2 \<Longrightarrow> xreg A j = 0"
    and "\<And>i. i < 12 \<Longrightarrow> xmem A (0x1000 + of_nat i) = Some (sample_image ! (84 + i))"
proof -
  obtain img h where boot:
    "file_contents (open_file sample_host (program_path sample_options)) = Some img"
    "parse_header img = Some (Inr h)"
    "program_counter (state (engine_of s)) = header_entry_point h"
    "\<And>seg c. seg \<in> set (table_segments img h) \<Longrightarrow> covers seg c \<Longrightarrow>
      cell (memory_of (engine_of s)) c =
        Some (segment_byte img seg (unat c - unat (virtual_address seg)))"
    by (rule booted_image [OF assms(1)], rule that)
  have img: "img = sample_image" using boot(1) by (simp add: sample_host_def file_contents_def)
  have h: "h = sample_header" using boot(2) by (simp add: img sample_parse)
  show "xpc A = 0x1000" using boot(3) by (simp add: A_def abs_engine_def h sample_header_def)
  show "xreg A j = 0" if "j \<noteq> 2" for j
    using booted_cpu(3) [OF assms(1), of j] that by (simp add: A_def abs_engine_def abs_arch_def)
  show "xmem A (0x1000 + of_nat i) = Some (sample_image ! (84 + i))" if "i < 12" for i
  proof -
    have "unat (0x1000 + of_nat i :: u32) = 0x1000 + i"
      using that by (simp add: unat_word_ariths unat_of_nat)
    then show ?thesis
      using boot(4) [of sample_segment "0x1000 + of_nat i"] that
      by (simp add: img h sample_table covers_def sample_segment_def segment_byte_def segment_end_def
          A_def abs_engine_def)
  qed
qed

lemma sample_process:
  assumes "booted sample_host sample_options ([] :: (output_stream \<times> u8 list) list) s"
  shows "\<exists>A. process sample_sink 10 (abs_engine (engine_of s)) [] = (Exited 42, A, [])"
proof -
  define A where "A = abs_engine (engine_of s)"
  note cell = sample_cells(3) [OF assms, folded A_def]
  have "xmem A 0x1000 = Some 0x93" "xmem A 0x1001 = Some 0x08" "xmem A 0x1002 = Some 0xD0"
    "xmem A 0x1003 = Some 0x05" "xmem A 0x1004 = Some 0x13" "xmem A 0x1005 = Some 0x05"
    "xmem A 0x1006 = Some 0xA0" "xmem A 0x1007 = Some 0x02" "xmem A 0x1008 = Some 0x73"
    "xmem A 0x1009 = Some 0" "xmem A 0x100A = Some 0" "xmem A 0x100B = Some 0"
    using cell [of 0] cell [of 1] cell [of 2] cell [of 3] cell [of 4] cell [of 5] cell [of 6]
      cell [of 7] cell [of 8] cell [of 9] cell [of 10] cell [of 11]
    by (simp_all add: sample_image_def)
  then have code: "le_value (xmem A) 0x1000 4 = Some 0x05D00893"
    "le_value (xmem A) 0x1004 4 = Some 0x02A00513" "le_value (xmem A) 0x1008 4 = Some 0x73"
    by (simp_all add: le_value_4)
  have "rv_decode 0x05D00893 = Some (ALUI Add 17 0 93)" "rv_decode 0x02A00513 = Some (ALUI Add 10 0 42)"
    "rv_decode 0x73 = Some ECALL" by code_simp+
  note run = this code arch_step_def next_seq_def go_def put_reg_def
    sample_cells(1,2) [OF assms, folded A_def]
  have 1: "arch_step A = Retire (go 0x1004 (put_reg 17 93 A))" by (simp add: run)
  have 2: "arch_step (go 0x1004 (put_reg 17 93 A)) = Retire (go 0x1008 (put_reg 10 42 (put_reg 17 93 A)))"
    by (simp add: run)
  have 3: "arch_step (go 0x1008 (put_reg 10 42 (put_reg 17 93 A))) = Except EnvironmentCallFromUserMode 0"
    by (simp add: run)
  have "process sample_sink (Suc (Suc (Suc 7))) A [] =
    (Exited 42, go 0x1008 (put_reg 10 42 (put_reg 17 93 A)), [])"
    unfolding process.simps(2) 1 2 3 by (simp add: process.simps(2) 2 3) (simp add: go_def put_reg_def)
  moreover have "(10 :: nat) = Suc (Suc (Suc 7))" by simp
  ultimately show ?thesis unfolding A_def [symmetric] by metis
qed

lemma sample_runs:
  "executable_of sample_host sample_options = Some sample_image"
  "\<exists>A. process sample_sink 10 (boot_machine sample_options sample_image) [] = (Exited 42, A, [])"
proof -
  have valid: "valid_memory_configuration sample_options" by code_simp
  obtain s where s: "booted sample_host sample_options ([] :: (output_stream \<times> u8 list) list) s"
    using sample_started [of "[]" "[] :: string"] by auto
  have contents: "file_contents (open_file sample_host (program_path sample_options)) = Some sample_image"
    by (simp add: sample_host_def file_contents_def)
  then have "bootable sample_options sample_image" using s booted_iff [OF valid, of sample_host] by force
  with contents show "executable_of sample_host sample_options = Some sample_image"
    by (simp add: executable_of_def) (simp add: sample_host_def)
  show "\<exists>A. process sample_sink 10 (boot_machine sample_options sample_image) [] = (Exited 42, A, [])"
    using sample_process [OF s] by (simp add: booted_machine [OF s valid contents])
qed

lemma main_runs_process_witness:
  "rvemu_main sample_host (render sample_options) sample_sink [] [] = Some (42, [], [], [])"
proof -
  have opts: "valid_memory_configuration sample_options" "program_path sample_options \<noteq> []"
    "\<not> debug sample_options" by (code_simp | simp add: sample_options_def)+
  have "unat (maximum_steps sample_options) = 10" by (simp add: sample_options_def)
  with main_runs_process [OF parse_render [OF opts(1,2)] opts(3), of sample_host sample_sink "[]" "[]"]
  show ?thesis using sample_runs by auto
qed

lemma main_debugs_process_witness:
  "\<exists>status shown k'. rvemu_main sample_host (render (sample_options\<lparr>debug := True\<rparr>)) sample_sink
     [''break 1004'', ''continue'', ''quit''] [] = Some (status, [], shown, k') \<and>
     (status = 0 \<or> status = 42)"
proof -
  let ?opts = "sample_options\<lparr>debug := True\<rparr>"
  have opts: "valid_memory_configuration ?opts" "program_path ?opts \<noteq> []" "debug ?opts"
    by (code_simp | simp add: sample_options_def)+
  have same: "executable_of sample_host ?opts = executable_of sample_host sample_options"
    "boot_machine ?opts = boot_machine sample_options"
    by (simp_all add: executable_of_def bootable_def boot_machine_def mapping_end_def fun_eq_iff)
  have "unat (maximum_steps ?opts) = 10" by (simp add: sample_options_def)
  with main_debugs_process [OF parse_render [OF opts(1,2)] opts(3), of sample_host sample_sink
    "[''break 1004'', ''continue'', ''quit'']" "[]"]
  show ?thesis using sample_runs by (auto simp: same)
qed

end
