(* ===== verification/Act_Smoke.thy ===== *)
theory Act_Smoke
  imports Isa_Refinement Elf_Loader Debugger
begin

text \<open>
  The runner for self-checking conformance tests: \<^verbatim>\<open>tools/act_smoke.cpp\<close>,
  \<^verbatim>\<open>tools/act_smoke.hpp\<close> and \<^verbatim>\<open>tools/act_smoke_main.cpp\<close>. It loads an
  executable, runs it in an environment that knows nothing but the two exit calls, and turns
  the outcome into a verdict, a text and an exit status. The outer \<open>option\<close> is an exception
  that escapes. The verdict is proved to be that of a reference interpreter which runs the
  architecture itself.
\<close>

section \<open>Data\<close>

record smoke_options =
  smoke_memory_base :: u32
  smoke_memory_size :: u64
  step_limit :: u64

definition default_smoke_options :: smoke_options where
  "default_smoke_options = \<lparr>smoke_memory_base = 0x80000000, smoke_memory_size = 16 * 1024 * 1024,
     step_limit = 50000000\<rparr>"

datatype smoke_result =
    SmokePassed session_statistics
  | SmokeFailed session_statistics u32
  | SmokeLoadFailed elf_load_failure
  | SmokeStepLimitReached session_statistics
  | SmokeTrapped session_statistics trap
  | SmokeUnhandledEnvironmentCall session_statistics environment_call
  | SmokeUnexpectedBreakpoint session_statistics u32

definition kLinuxExit :: u32 where "kLinuxExit = 93"
definition kLinuxExitGroup :: u32 where "kLinuxExitGroup = 94"
definition kTestFailedExitStatus :: int where "kTestFailedExitStatus = 1"
definition kActInfrastructureFailureExitStatus :: int where
  "kActInfrastructureFailureExitStatus = 2"

section \<open>Running\<close>

text \<open>\<^verbatim>\<open>ExitEnvironment::handle\<close>: an exit carries the whole argument.\<close>

definition exit_environment :: "unit handler" where
  "exit_environment call m h =
     Some (if number call = kLinuxExit \<or> number call = kLinuxExitGroup
       then EnvironmentCallExit (arguments call ! 0) else EnvironmentCallNotHandled, h)"

text \<open>The verdict on the result of a session.\<close>

fun smoke_verdict :: "session_run_result \<Rightarrow> smoke_result" where
  "smoke_verdict (SessionRunExited st call exit_code) =
     (if exit_code = 0 then SmokePassed st else SmokeFailed st exit_code)"
| "smoke_verdict (SessionStepLimitReached st) = SmokeStepLimitReached st"
| "smoke_verdict (SessionRunTrapped st t) = SmokeTrapped st t"
| "smoke_verdict (SessionRunUnhandledEnvironmentCall st call t) =
     SmokeUnhandledEnvironmentCall st call"
| "smoke_verdict (SessionBreakpointReached st pc) = SmokeUnexpectedBreakpoint st pc"

type_synonym elf_source =
  "cpu_state \<Rightarrow> memory \<Rightarrow> ((elf_load_failure + elf_load_success) \<times> cpu_state \<times> memory) option"

definition run_with_loader :: "elf_source \<Rightarrow> smoke_options \<Rightarrow> smoke_result option" where
  "run_with_loader load_elf opts = do {
     m \<leftarrow> make_memory (smoke_memory_base opts) (unat (smoke_memory_size opts));
     (load_result, s, m) \<leftarrow> load_elf initial_cpu_state m;
     case load_result of
       Inl failure \<Rightarrow> Some (SmokeLoadFailed failure)
     | Inr _ \<Rightarrow> do {
         (run_result, _) \<leftarrow> session_run (None :: unit observe) exit_environment (step_limit opts) []
           \<lparr>engine_of = \<lparr>state = s, memory_of = m, observer = ()\<rparr>, environment = ()\<rparr>;
         Some (smoke_verdict run_result)
       }
   }"

definition run_self_checking_elf :: "u8 list \<Rightarrow> smoke_options \<Rightarrow> smoke_result option" where
  "run_self_checking_elf img opts = run_with_loader (load_elf32 img) opts"

definition run_self_checking_elf_file :: "input_file \<Rightarrow> smoke_options \<Rightarrow> smoke_result option" where
  "run_self_checking_elf_file file opts = run_with_loader (load_elf32_file file) opts"

section \<open>Reporting\<close>

text \<open>
  \<^verbatim>\<open>std::filesystem::path::filename\<close> of a POSIX path: what follows the last separator.
\<close>

definition filename :: "string \<Rightarrow> string" where
  "filename path = rev (takeWhile (\<lambda>c. c \<noteq> CHR ''/'') (rev path))"

definition print_summary :: "bool \<Rightarrow> string \<Rightarrow> string" where
  "print_summary passed path =
     ''RVCP-SUMMARY: TEST '' @ (if passed then ''PASSED'' else ''FAILED'') @ '' - Test File '' @
     [CHR 0x22] @ filename path @ [CHR 0x22] @ newline"

definition print_smoke_statistics :: "session_statistics \<Rightarrow> string" where
  "print_smoke_statistics st =
     ''guest steps: '' @ show_nat (unat (guest_steps st)) @ '', retired instructions: '' @
     show_nat (unat (instructions_retired st)) @ '', handled environment calls: '' @
     show_nat (unat (environment_calls_handled st)) @ newline"

text \<open>The exit status with the texts on the standard output and on the error stream.\<close>

fun report_result :: "smoke_result \<Rightarrow> string \<Rightarrow> int \<times> string \<times> string" where
  "report_result (SmokePassed st) path = (0, print_summary True path, print_smoke_statistics st)"
| "report_result (SmokeFailed st exit_code) path =
     (kTestFailedExitStatus, print_summary False path,
      ''self-checking ELF exited with code '' @ show_nat (unat exit_code) @ newline @
      print_smoke_statistics st)"
| "report_result (SmokeLoadFailed failure) path =
     (kActInfrastructureFailureExitStatus, [],
      ''ACT smoke infrastructure failure: '' @ elf_load_error_message (code failure) @
      (case program_header_index failure of None \<Rightarrow> []
       | Some i \<Rightarrow> '' (program header '' @ show_nat i @ '')'') @ newline)"
| "report_result (SmokeStepLimitReached st) path =
     (kActInfrastructureFailureExitStatus, [],
      ''ACT smoke infrastructure failure: the instruction limit was reached'' @ newline @
      print_smoke_statistics st)"
| "report_result (SmokeTrapped st t) path =
     (kActInfrastructureFailureExitStatus, [],
      ''ACT smoke infrastructure failure: trap cause '' @
      show_nat (unat (trap_cause_value (cause t))) @ '' at PC '' @
      print_hex32 (trap_program_counter t) @ '', value '' @ print_hex32 (trap_value t) @ newline @
      print_smoke_statistics st)"
| "report_result (SmokeUnhandledEnvironmentCall st call) path =
     (kActInfrastructureFailureExitStatus, [],
      ''ACT smoke infrastructure failure: unhandled environment call '' @
      show_nat (unat (number call)) @ '' at PC '' @
      print_hex32 (call_program_counter call) @ newline @ print_smoke_statistics st)"
| "report_result (SmokeUnexpectedBreakpoint st pc) path =
     (kActInfrastructureFailureExitStatus, [],
      ''ACT smoke infrastructure failure: unexpected breakpoint at PC '' @
      print_hex32 pc @ newline @ print_smoke_statistics st)"

text \<open>\<^verbatim>\<open>main\<close>, with the whole argument vector and the files of the host.\<close>

definition smoke_main ::
  "(string \<Rightarrow> input_file) \<Rightarrow> string list \<Rightarrow> (int \<times> string \<times> string) option" where
  "smoke_main files argv =
     (if length argv \<noteq> 2
      then Some (kActInfrastructureFailureExitStatus, [],
        ''usage: rvemu-act-smoke <self-checking-rv32im-elf>'' @ newline)
      else do {
        let path = argv ! 1;
        result \<leftarrow> run_self_checking_elf_file (files path) default_smoke_options;
        Some (report_result result path)
      })"

section \<open>The verdict of the architecture\<close>

text \<open>
  The reference: execute architectural steps; the first exception decides. An environment call
  with an exit number passes (0) if x10 is zero and fails (1) otherwise; any other exception,
  and no exception within the limit, is no verdict (2).
\<close>

fun arch_verdict :: "nat \<Rightarrow> arch \<Rightarrow> int" where
  "arch_verdict 0 A = 2"
| "arch_verdict (Suc n) A = (case arch_step A of
     Retire B \<Rightarrow> arch_verdict n B
   | Except c v \<Rightarrow>
       if c = EnvironmentCallFromUserMode \<and> xreg A 17 \<in> {93, 94}
       then (if xreg A 10 = 0 then 0 else 1) else 2)"

text \<open>The exit environment always answers; it never resumes the guest.\<close>

interpretation smoke: noexcept_handler exit_environment "\<lambda>_. True"
  by unfold_locales (simp add: exit_environment_def)

lemma answer_of_exit:
  "answer_of exit_environment s = Some (
     if reg (state (engine_of s)) 17 \<in> {93, 94}
     then EnvironmentCallExit (reg (state (engine_of s)) 10) else EnvironmentCallNotHandled,
     environment s)"
  by (simp add: answer_of_def exit_environment_def call_of_def kLinuxExit_def kLinuxExitGroup_def)

lemma exit_path_verdict:
  "session_path obs exit_environment bps s tr s' \<Longrightarrow> wf_cpu (state (engine_of s)) \<Longrightarrow>
     arch_verdict (length tr + n) (abs_engine (engine_of s)) =
     arch_verdict n (abs_engine (engine_of s'))"
proof (induction rule: session_path.induct)
  case (path_Cons s ev s' tr s'')
  from path_Cons.hyps(2) show ?case
  proof cases
    case (advances_retire ob e')
    with path_Cons.prems path_Cons.IH completes_refines [of obs "engine_of s" ob e']
      completes_wf_cpu [of obs "engine_of s" ob e'] show ?thesis by simp
  next
    case (advances_answer t v h')
    then have False using answer_of_exit [of s] by (simp add: answer_of_def split: if_splits)
    then show ?thesis ..
  qed
qed simp

lemma arch_verdict_stop:
  assumes "wf_cpu (state e)" and "step obs e = Some (StepTrapped t, e)"
  shows "arch_verdict (Suc n) (abs_engine e) =
    (if cause t = EnvironmentCallFromUserMode \<and> reg (state e) 17 \<in> {93, 94}
     then (if reg (state e) 10 = 0 then 0 else 1) else 2)"
  using step_refines [OF assms, symmetric] by (simp add: abs_engine_def)

lemma report_status:
  "fst (report_result v path) =
    (case v of SmokePassed _ \<Rightarrow> 0 | SmokeFailed _ _ \<Rightarrow> 1 | _ \<Rightarrow> 2)"
  by (cases v)
    (simp_all add: kTestFailedExitStatus_def kActInfrastructureFailureExitStatus_def)

lemma report_summary:
  "fst (snd (report_result v path)) =
    (if fst (report_result v path) = 2 then [] else print_summary (fst (report_result v path) = 0) path)"
  unfolding report_status by (cases v) simp_all

declare report_result.simps [simp del] arch_verdict.simps(2) [simp del]

lemma smoke_stop_verdict:
  assumes "wf_cpu (state (engine_of s))"
    and "session_stops obs exit_environment [] st s (Some (r, s'))"
  shows "fst (report_result (smoke_verdict r) path) = arch_verdict (Suc n) (abs_engine (engine_of s))"
proof (cases obs exit_environment s rule: session_step_cases)
  case (exited exit_code h' t)
  from assms(2) exited(2) have r: "\<exists>st call. r = SessionRunExited st call exit_code" by cases auto
  from exited(1) answer_of_exit [of s] have "reg (state (engine_of s)) 17 \<in> {93, 94}"
    and "exit_code = reg (state (engine_of s)) 10" by (simp_all split: if_splits)
  with r show ?thesis
    by (auto simp: report_status arch_verdict_stop [OF assms(1) exited(3)] exited(4))
next
  case (unhandled t h')
  from assms(2) unhandled(2) have r: "\<exists>st call t. r = SessionRunUnhandledEnvironmentCall st call t"
    by cases auto
  from unhandled(1) answer_of_exit [of s] have "reg (state (engine_of s)) 17 \<notin> {93, 94}"
    by (simp split: if_splits)
  with r show ?thesis by (auto simp: report_status arch_verdict_stop [OF assms(1) unhandled(3)])
next
  case (trapped t)
  from assms(2) trapped(3) have "\<exists>st t. r = SessionRunTrapped st t" by cases auto
  with trapped(2) show ?thesis
    by (auto simp: report_status arch_verdict_stop [OF assms(1) trapped(1)])
qed (use assms(2) in \<open>cases; simp\<close>)+

lemma smoke_session_verdict:
  assumes "wf_cpu (state (engine_of s))"
    and "session_run obs exit_environment limit [] s = Some (r, s')"
  shows "fst (report_result (smoke_verdict r) path) =
    arch_verdict (unat limit) (abs_engine (engine_of s))"
proof (cases rule: session_run_outcome [of obs exit_environment "[]" s limit])
  case (limit tr s1)
  have "arch_verdict (unat limit) (abs_engine (engine_of s)) = 2"
    using exit_path_verdict [OF limit(1) assms(1), of 0] unfolding limit(2) by simp
  with limit(3) assms(2) show ?thesis by (auto simp: report_status)
next
  case (stopped tr s1)
  define n where "n = unat limit - length tr - 1"
  have "unat limit = length tr + Suc n" using stopped(2) by (simp add: n_def)
  with exit_path_verdict [OF stopped(1) assms(1)]
  have run: "arch_verdict (unat limit) (abs_engine (engine_of s)) =
    arch_verdict (Suc n) (abs_engine (engine_of s1))" by presburger
  have "wf_cpu (state (engine_of s1))" using stopped(1) assms(1) by (rule session_path_wf_cpu)
  from smoke_stop_verdict [OF this stopped(3) [unfolded assms(2)]] show ?thesis unfolding run .
qed

section \<open>Properties\<close>

text \<open>The mapping of the default options: 16 MiB of zeros from \<open>0x80000000\<close>.\<close>

definition act_memory :: memory where
  "act_memory = \<lparr>base_address = 0x80000000, bytes = replicate (16 * 1024 * 1024) 0\<rparr>"

lemma make_act_memory: "make_memory 0x80000000 16777216 = Some act_memory"
proof -
  have "make_memory 0x80000000 16777216 \<noteq> None" unfolding make_memory_eq_None_iff by simp
  then obtain m where m: "make_memory 0x80000000 16777216 = Some m" by auto
  have "m = act_memory"
    using make_memory_Some(2,3) [OF m] by (simp add: act_memory_def)
  with m show ?thesis by simp
qed

lemma run_with_loader_eq:
  assumes "load_elf initial_cpu_state act_memory = load_elf32 img initial_cpu_state act_memory"
  shows "\<exists>result. run_with_loader load_elf default_smoke_options = Some result \<and>
    fst (report_result result path) =
      (case load_elf32 img initial_cpu_state act_memory of
         Some (Inr ok, s, m) \<Rightarrow> arch_verdict 50000000 (abs_arch s m) | _ \<Rightarrow> 2)"
proof (cases rule: load_elf32_cases [of img initial_cpu_state act_memory])
  case (failed e)
  then show ?thesis
    by (simp add: run_with_loader_def default_smoke_options_def make_act_memory assms report_status)
next
  case (loaded h st ok m)
  let ?s = "set_program_counter (header_entry_point h) initial_cpu_state"
  let ?sess = "\<lparr>engine_of = \<lparr>state = ?s, memory_of = m, observer = ()\<rparr>, environment = ()\<rparr>"
  obtain r s' where run: "session_run (None :: unit observe) exit_environment 50000000 [] ?sess =
    Some (r, s')"
    using smoke.session_run_defined [where s = ?sess] by blast
  have "fst (report_result (smoke_verdict r) path) = arch_verdict 50000000 (abs_arch ?s m)"
    using smoke_session_verdict [OF _ run, of path] by (simp add: abs_engine_def)
  with loaded run show ?thesis
    by (simp add: run_with_loader_def default_smoke_options_def make_act_memory assms)
qed

text \<open>
  C13: the verdict of the conformance runner is the verdict of the architecture. For every
  argument vector and every host it returns; its status is 2 if the arguments are wrong or the
  file cannot be loaded, and otherwise what a run of the architecture from the loaded state
  decides within 50 million instructions: 0 if its first exception is an exit call with a zero
  argument (all 32 bits of it), 1 if it is an exit call with another argument, 2 for every
  other exception and for none. The summary line is printed exactly for the statuses 0 and 1.
\<close>

theorem smoke_main_verdict:
  "\<exists>status summary diagnostics. smoke_main files argv = Some (status, summary, diagnostics) \<and>
     (case argv of
        [prog, path] \<Rightarrow>
          status = (case file_contents (files path) of
              None \<Rightarrow> 2
            | Some img \<Rightarrow> (case load_elf32 img initial_cpu_state act_memory of
                Some (Inr ok, s, m) \<Rightarrow> arch_verdict 50000000 (abs_arch s m)
              | _ \<Rightarrow> 2)) \<and>
          summary = (if status = 2 then [] else print_summary (status = 0) path)
      | _ \<Rightarrow> status = 2 \<and> summary = [])"
proof (cases "length argv = 2")
  case False
  then show ?thesis
    by (auto simp: smoke_main_def kActInfrastructureFailureExitStatus_def split: list.split)
next
  case True
  then obtain prog path where argv: "argv = [prog, path]"
    by (auto simp: numeral_2_eq_2 length_Suc_conv)
  let ?load = "load_elf32_file (files path)"
  define expected where "expected = (case file_contents (files path) of
      None \<Rightarrow> 2
    | Some img \<Rightarrow> (case load_elf32 img initial_cpu_state act_memory of
        Some (Inr ok, s, m) \<Rightarrow> arch_verdict 50000000 (abs_arch s m)
      | _ \<Rightarrow> 2))"
  obtain result where run: "run_with_loader ?load default_smoke_options = Some result" and
    status: "fst (report_result result path) = expected"
  proof (cases "file_contents (files path)")
    case None
    then obtain failure where "?load initial_cpu_state act_memory =
        Some (Inl failure, initial_cpu_state, act_memory)" by (simp add: load_elf32_file_eq)
    with None show thesis
      by (intro that [of "SmokeLoadFailed failure"])
        (simp_all add: run_with_loader_def default_smoke_options_def make_act_memory report_status
          expected_def)
  next
    case (Some img)
    then have "?load initial_cpu_state act_memory = load_elf32 img initial_cpu_state act_memory"
      by (simp add: load_elf32_file_eq)
    from run_with_loader_eq [of ?load img path, OF this] Some show thesis
      by (auto intro: that simp: expected_def)
  qed
  obtain summary diagnostics where report: "report_result result path = (expected, summary, diagnostics)"
    using status by (cases "report_result result path") simp
  moreover have "summary = (if expected = 2 then [] else print_summary (expected = 0) path)"
    using report_summary [of result path] unfolding report fst_conv snd_conv .
  ultimately show ?thesis
    using run argv
    unfolding argv list.case expected_def [symmetric]
    by (simp add: smoke_main_def run_self_checking_elf_file_def)
qed

end
