(* ===== verification/Cache_Model.thy ===== *)
theory Cache_Model
  imports Execution_Engine
begin

text \<open>
  The cache model: \<^verbatim>\<open>class SetAssociativeCache\<close> and
  \<^verbatim>\<open>class SplitCacheModel\<close> of \<^verbatim>\<open>include/rvemu/cache_model.hpp\<close> and
  \<^verbatim>\<open>src/cache_model.cpp\<close>. Sizes, tags and counters are 64-bit words; an index into
  the vector of lines is a natural number, and the lemma \<open>access_in_bounds\<close> shows that every
  index is in range.
\<close>

section \<open>Configuration\<close>

record cache_configuration =
  capacity_bytes :: u64
  line_size_bytes :: u64
  associativity :: u64

datatype cache_configuration_error_code =
    ZeroCapacity
  | LineSizeTooSmall
  | LineSizeNotPowerOfTwo
  | ZeroAssociativity
  | GeometryOverflow
  | CapacityNotDivisible

definition is_power_of_two_size :: "u64 \<Rightarrow> bool" where
  "is_power_of_two_size v \<longleftrightarrow> v \<noteq> 0 \<and> v AND (v - 1) = 0"

definition validate_configuration ::
  "cache_configuration \<Rightarrow> cache_configuration_error_code option" where
  "validate_configuration conf =
     (if capacity_bytes conf = 0 then Some ZeroCapacity
      else if line_size_bytes conf < 4 then Some LineSizeTooSmall
      else if \<not> is_power_of_two_size (line_size_bytes conf) then Some LineSizeNotPowerOfTwo
      else if associativity conf = 0 then Some ZeroAssociativity
      else if associativity conf > - 1 div line_size_bytes conf then Some GeometryOverflow
      else if capacity_bytes conf mod (line_size_bytes conf * associativity conf) \<noteq> 0
      then Some CapacityNotDivisible
      else None)"

definition checked_set_count :: "cache_configuration \<Rightarrow> cache_configuration_error_code + u64" where
  "checked_set_count conf =
     (case validate_configuration conf of
        Some e \<Rightarrow> Inl e
      | None \<Rightarrow> Inr (capacity_bytes conf div (line_size_bytes conf * associativity conf)))"

fun cache_configuration_error_message :: "cache_configuration_error_code \<Rightarrow> string" where
  "cache_configuration_error_message ZeroCapacity = ''cache capacity must be positive''"
| "cache_configuration_error_message LineSizeTooSmall =
     ''cache line size must be at least four bytes''"
| "cache_configuration_error_message LineSizeNotPowerOfTwo =
     ''cache line size must be a power of two''"
| "cache_configuration_error_message ZeroAssociativity =
     ''cache associativity must be positive''"
| "cache_configuration_error_message GeometryOverflow =
     ''cache line size and associativity overflow''"
| "cache_configuration_error_message CapacityNotDivisible =
     ''cache capacity must be divisible by line size times associativity''"

section \<open>One cache\<close>

datatype cache_access_result = Hit | Miss

record cache_statistics =
  accesses :: u64
  hits :: u64
  misses :: u64

record cache_line =
  line_tag :: u64
  valid :: bool

record cache =
  configuration :: cache_configuration
  set_count :: u64
  cache_lines :: "cache_line list"
  cache_stats :: cache_statistics

definition zero_statistics :: cache_statistics where
  "zero_statistics = \<lparr>accesses = 0, hits = 0, misses = 0\<rparr>"

definition empty_line :: cache_line where
  "empty_line = \<lparr>line_tag = 0, valid = False\<rparr>"

text \<open>The constructor; \<open>Inl\<close> is the exception it throws.\<close>

definition make_cache :: "cache_configuration \<Rightarrow> cache_configuration_error_code + cache" where
  "make_cache conf =
     and_then (checked_set_count conf) (\<lambda>sets.
       Inr \<lparr>configuration = conf, set_count = sets,
         cache_lines = replicate (unat (capacity_bytes conf div line_size_bytes conf)) empty_line,
         cache_stats = zero_statistics\<rparr>)"

definition record_access :: "cache_access_result \<Rightarrow> cache_statistics \<Rightarrow> cache_statistics" where
  "record_access result st =
     (let st = st\<lparr>accesses := accesses st + 1\<rparr>
      in if result = Hit then st\<lparr>hits := hits st + 1\<rparr> else st\<lparr>misses := misses st + 1\<rparr>)"

text \<open>
  The search loop from \<open>way\<close> on, with \<open>n\<close> ways left: whether it hits, and the selected way
  (the associativity itself if there is none).
\<close>

fun find_way ::
  "cache_line list \<Rightarrow> nat \<Rightarrow> u64 \<Rightarrow> nat \<Rightarrow> nat \<Rightarrow> nat \<Rightarrow> nat \<Rightarrow> bool \<times> nat" where
  "find_way ls set_begin tag ways 0 way selected = (False, selected)"
| "find_way ls set_begin tag ways (Suc n) way selected =
     (let line = ls ! (set_begin + way)
      in if valid line \<and> line_tag line = tag then (True, way)
         else find_way ls set_begin tag ways n (way + 1)
           (if \<not> valid line \<and> selected = ways then way else selected))"

text \<open>The loop that moves the lines before the selected way back by one.\<close>

fun shift_lines :: "nat \<Rightarrow> nat \<Rightarrow> cache_line list \<Rightarrow> cache_line list" where
  "shift_lines set_begin 0 ls = ls"
| "shift_lines set_begin (Suc way) ls =
     shift_lines set_begin way (ls[set_begin + Suc way := ls ! (set_begin + way)])"

definition block_number :: "cache \<Rightarrow> u32 \<Rightarrow> u64" where
  "block_number c address = ucast address div line_size_bytes (configuration c)"

definition set_index :: "cache \<Rightarrow> u32 \<Rightarrow> nat" where
  "set_index c address = unat (block_number c address mod set_count c)"

definition tag_of :: "cache \<Rightarrow> u32 \<Rightarrow> u64" where
  "tag_of c address = block_number c address div set_count c"

definition access_cache :: "u32 \<Rightarrow> cache \<Rightarrow> cache_access_result \<times> cache" where
  "access_cache address c =
     (let tag = tag_of c address;
          ways = unat (associativity (configuration c));
          set_begin = set_index c address * ways;
          (hit, selected) = find_way (cache_lines c) set_begin tag ways ways 0 ways;
          selected_way = (if selected = ways then ways - 1 else selected);
          selected_line = (if hit then cache_lines c ! (set_begin + selected_way)
            else \<lparr>line_tag = tag, valid = True\<rparr>);
          ls = shift_lines set_begin selected_way (cache_lines c);
          result = (if hit then Hit else Miss)
      in (result, c\<lparr>cache_lines := ls[set_begin := selected_line],
            cache_stats := record_access result (cache_stats c)\<rparr>))"

definition reset_cache :: "cache \<Rightarrow> cache" where
  "reset_cache c = c\<lparr>cache_lines := replicate (length (cache_lines c)) empty_line,
     cache_stats := zero_statistics\<rparr>"

section \<open>The split instruction and data cache\<close>

record split_cache_configuration =
  instruction_configuration :: cache_configuration
  data_configuration :: cache_configuration

record split_cache =
  split_configuration :: split_cache_configuration
  instruction_cache :: cache
  data_cache :: cache
  load_statistics :: cache_statistics
  store_statistics :: cache_statistics

definition make_split_cache ::
  "split_cache_configuration \<Rightarrow> cache_configuration_error_code + split_cache" where
  "make_split_cache conf =
     and_then (make_cache (instruction_configuration conf)) (\<lambda>ic.
     and_then (make_cache (data_configuration conf)) (\<lambda>dc.
       Inr \<lparr>split_configuration = conf, instruction_cache = ic, data_cache = dc,
         load_statistics = zero_statistics, store_statistics = zero_statistics\<rparr>))"

definition observe_split :: "execution_observation \<Rightarrow> split_cache \<Rightarrow> split_cache" where
  "observe_split ob c =
     (let c = c\<lparr>instruction_cache :=
            snd (access_cache (observed_program_counter ob) (instruction_cache c))\<rparr>
      in case data_memory_access ob of
        None \<Rightarrow> c
      | Some a \<Rightarrow>
          let (result, dc) = access_cache (access_address a) (data_cache c);
              c = c\<lparr>data_cache := dc\<rparr>
          in if access_kind a = LoadAccess
             then c\<lparr>load_statistics := record_access result (load_statistics c)\<rparr>
             else c\<lparr>store_statistics := record_access result (store_statistics c)\<rparr>)"

definition reset_split :: "split_cache \<Rightarrow> split_cache" where
  "reset_split c = c\<lparr>instruction_cache := reset_cache (instruction_cache c),
     data_cache := reset_cache (data_cache c),
     load_statistics := zero_statistics, store_statistics := zero_statistics\<rparr>"

record data_cache_statistics =
  data_total :: cache_statistics
  data_loads :: cache_statistics
  data_stores :: cache_statistics

record split_cache_statistics =
  instruction_statistics :: cache_statistics
  data_statistics :: data_cache_statistics

definition split_statistics :: "split_cache \<Rightarrow> split_cache_statistics" where
  "split_statistics c = \<lparr>instruction_statistics = cache_stats (instruction_cache c),
     data_statistics = \<lparr>data_total = cache_stats (data_cache c),
       data_loads = load_statistics c, data_stores = store_statistics c\<rparr>\<rparr>"

section \<open>The geometry of a valid configuration\<close>

lemma unat_mult_no_overflow:
  assumes "(b :: u64) \<le> - 1 div a" and "a \<noteq> 0"
  shows "unat (a * b) = unat a * unat b"
proof -
  have "unat b \<le> unat (- 1 :: u64) div unat a"
    using assms(1) by (simp add: word_le_nat_alt unat_div)
  moreover have "0 < unat a" using assms(2) by (simp add: unat_gt_0)
  ultimately have "unat b * unat a \<le> unat (- 1 :: u64)"
    by (simp add: less_eq_div_iff_mult_less_eq)
  then have "unat a * unat b < 2 ^ 64" by (simp add: mult.commute unat_max_64)
  then show ?thesis by (rule unat_mult_exact)
qed

text \<open>The number of lines is the number of sets times the associativity.\<close>

lemma checked_set_count_geometry:
  assumes "checked_set_count conf = Inr sets"
  shows "0 < unat sets" and "0 < unat (associativity conf)" and "4 \<le> unat (line_size_bytes conf)"
    and "unat (capacity_bytes conf div line_size_bytes conf) =
      unat sets * unat (associativity conf)"
    and "sets = capacity_bytes conf div (line_size_bytes conf * associativity conf)"
proof -
  let ?l = "unat (line_size_bytes conf)" and ?a = "unat (associativity conf)"
  let ?c = "unat (capacity_bytes conf)"
  from assms have v: "validate_configuration conf = None"
    and sets: "sets = capacity_bytes conf div (line_size_bytes conf * associativity conf)"
    by (auto simp: checked_set_count_def split: option.splits)
  from v have c: "?c \<noteq> 0" and l: "4 \<le> ?l" and a: "?a \<noteq> 0"
    and fits: "associativity conf \<le> - 1 div line_size_bytes conf"
    and divides: "capacity_bytes conf mod (line_size_bytes conf * associativity conf) = 0"
    by (auto simp: validate_configuration_def word_less_nat_alt word_le_nat_alt unat_eq_0 not_less
        split: if_splits)
  have prod: "unat (line_size_bytes conf * associativity conf) = ?l * ?a"
    using l by (intro unat_mult_no_overflow [OF fits]) auto
  have "?c mod (?l * ?a) = 0"
    using divides by (simp add: unat_mod [symmetric] prod [symmetric])
  then obtain k where k: "?c = ?l * ?a * k" by (auto simp: mod_eq_0_iff_dvd)
  have "unat sets = ?c div (?l * ?a)" by (simp add: sets unat_div prod)
  then have s: "unat sets = k" using k l a by simp
  show "0 < unat sets" using s k c by (cases k) auto
  show "0 < ?a" and "4 \<le> ?l" using a l by auto
  show "unat (capacity_bytes conf div line_size_bytes conf) = unat sets * ?a"
    using k s l by (simp add: unat_div mult.assoc)
  show "sets = capacity_bytes conf div (line_size_bytes conf * associativity conf)" by (rule sets)
qed

section \<open>Specification: sets as lists of tags\<close>

text \<open>
  A set with \<open>n\<close> ways is the list of its resident tags, most recently used first. An access
  moves its tag to the front; on a miss in a full set the last tag is evicted.
\<close>

definition lru_access :: "nat \<Rightarrow> 'a \<Rightarrow> 'a list \<Rightarrow> 'a list" where
  "lru_access n t ts = t # (if t \<in> set ts then remove1 t ts else take (n - 1) ts)"

definition encode_set :: "nat \<Rightarrow> u64 list \<Rightarrow> cache_line list" where
  "encode_set n ts =
     map (\<lambda>t. \<lparr>line_tag = t, valid = True\<rparr>) ts @ replicate (n - length ts) empty_line"

text \<open>The lines of a set, and its tags.\<close>

definition ways_of :: "cache \<Rightarrow> nat" where
  "ways_of c = unat (associativity (configuration c))"

definition set_lines :: "cache \<Rightarrow> nat \<Rightarrow> cache_line list" where
  "set_lines c i = take (ways_of c) (drop (i * ways_of c) (cache_lines c))"

definition set_tags :: "cache \<Rightarrow> nat \<Rightarrow> u64 list" where
  "set_tags c i = map line_tag (takeWhile valid (set_lines c i))"

definition wf_tags :: "nat \<Rightarrow> 'a list \<Rightarrow> bool" where
  "wf_tags n ts \<longleftrightarrow> distinct ts \<and> length ts \<le> n"

definition wf_cache :: "cache \<Rightarrow> bool" where
  "wf_cache c \<longleftrightarrow> 0 < ways_of c \<and> 0 < unat (set_count c) \<and>
     length (cache_lines c) = unat (set_count c) * ways_of c \<and>
     (\<forall>i < unat (set_count c). wf_tags (ways_of c) (set_tags c i) \<and>
        set_lines c i = encode_set (ways_of c) (set_tags c i))"

lemma length_encode_set [simp]: "length ts \<le> n \<Longrightarrow> length (encode_set n ts) = n"
  by (simp add: encode_set_def)

lemma tags_encode_set [simp]: "map line_tag (takeWhile valid (encode_set n ts)) = ts"
proof -
  have "takeWhile (\<lambda>_. True) xs = xs" for xs :: "u64 list" by (induction xs) simp_all
  then show ?thesis
    by (cases "n - length ts")
      (simp_all add: encode_set_def empty_line_def takeWhile_append takeWhile_map comp_def)
qed

lemma encode_set_nth:
  assumes "length ts \<le> n" and "k < n"
  shows "encode_set n ts ! k =
    (if k < length ts then \<lparr>line_tag = ts ! k, valid = True\<rparr> else empty_line)"
  using assms by (simp add: encode_set_def nth_append)

lemma wf_lru_access:
  assumes "wf_tags n ts" and "0 < n"
  shows "wf_tags n (lru_access n t ts)"
  using assms
  by (auto simp: wf_tags_def lru_access_def length_remove1 dest: in_set_takeD)

section \<open>The loops implement the list operations\<close>

lemma find_way_hit:
  assumes "\<And>k. k < ways \<Longrightarrow> ls ! (b + k) = encode_set ways ts ! k"
    and "wf_tags ways ts" and "way + n = ways" and "way \<le> k" and "k < length ts" and "ts ! k = t"
  shows "find_way ls b t ways n way sel = (True, k)"
  using assms
proof (induction n arbitrary: way sel)
  case (Suc n)
  have line: "ls ! (b + way) = \<lparr>line_tag = ts ! way, valid = True\<rparr>"
    using Suc.prems by (simp add: encode_set_nth wf_tags_def)
  show ?case
  proof (cases "way = k")
    case True
    with line Suc.prems(6) show ?thesis by simp
  next
    case False
    then have "ts ! way \<noteq> t"
      using Suc.prems by (auto simp: wf_tags_def nth_eq_iff_index_eq)
    moreover have "find_way ls b t ways n (way + 1) sel = (True, k)"
      using Suc.prems False by (intro Suc.IH) auto
    ultimately show ?thesis using line by (simp add: Let_def)
  qed
qed (simp add: wf_tags_def)

lemma find_way_miss:
  assumes "\<And>k. k < ways \<Longrightarrow> ls ! (b + k) = encode_set ways ts ! k"
    and "wf_tags ways ts" and "way + n = ways" and "t \<notin> set ts"
    and "sel = (if length ts < way then length ts else ways)"
  shows "find_way ls b t ways n way sel =
    (False, if length ts < ways then length ts else ways)"
  using assms
proof (induction n arbitrary: way sel)
  case 0
  then show ?case by (auto simp: wf_tags_def)
next
  case (Suc n)
  have line: "ls ! (b + way) =
      (if way < length ts then \<lparr>line_tag = ts ! way, valid = True\<rparr> else empty_line)"
    using Suc.prems by (simp add: encode_set_nth wf_tags_def)
  then have step: "find_way ls b t ways (Suc n) way sel = find_way ls b t ways n (way + 1)
      (if \<not> way < length ts \<and> sel = ways then way else sel)"
    using Suc.prems(4) by (auto simp: Let_def empty_line_def)
  show ?case unfolding step using Suc.prems by (intro Suc.IH) (auto simp: wf_tags_def)
qed

lemma length_shift_lines [simp]: "length (shift_lines b w ls) = length ls"
  by (induction w arbitrary: ls) simp_all

lemma nth_shift_lines:
  assumes "b + w < length ls" and "k < length ls"
  shows "shift_lines b w ls ! k = (if b < k \<and> k \<le> b + w then ls ! (k - 1) else ls ! k)"
  using assms
proof (induction w arbitrary: ls)
  case (Suc w)
  let ?ls = "ls[b + Suc w := ls ! (b + w)]"
  from Suc.IH [of ?ls] Suc.prems show ?case by (auto simp: nth_list_update not_le less_Suc_eq)
qed auto

text \<open>Moving the selected line to the front, on the lines of one set.\<close>

definition to_front :: "nat \<Rightarrow> 'a \<Rightarrow> 'a list \<Rightarrow> 'a list" where
  "to_front w x xs = x # take w xs @ drop (w + 1) xs"

lemma shift_lines_segment:
  assumes "w < n" and "b + n \<le> length ls"
  shows "take n (drop b ((shift_lines b w ls)[b := x])) = to_front w x (take n (drop b ls))"
    (is "?l = ?r")
proof (rule nth_equalityI)
  show "length ?l = length ?r" using assms by (auto simp: to_front_def min_def)
  fix k assume "k < length ?l"
  then have "k < n" using assms by simp
  then show "?l ! k = ?r ! k"
    using assms by (cases k) (auto simp: to_front_def nth_append nth_shift_lines min_def)
qed

lemma shift_lines_other:
  assumes "w < n" and "b + n \<le> length ls" and "a + n \<le> b \<or> b + n \<le> a" and "a + n \<le> length ls"
  shows "take n (drop a ((shift_lines b w ls)[b := x])) = take n (drop a ls)"
  using assms by (intro nth_equalityI) (auto simp: nth_shift_lines nth_list_update)

lemma to_front_encode_hit:
  assumes "wf_tags n ts" and "k < length ts" and "ts ! k = t"
  shows "to_front k \<lparr>line_tag = t, valid = True\<rparr> (encode_set n ts) = encode_set n (lru_access n t ts)"
proof -
  have "t \<notin> set (take k ts)"
    using assms by (auto simp: wf_tags_def in_set_conv_nth nth_eq_iff_index_eq)
  moreover have "ts = take k ts @ t # drop (k + 1) ts"
    using id_take_nth_drop [OF assms(2)] assms(3) by simp
  ultimately have "remove1 t ts = take k ts @ drop (k + 1) ts"
    by (metis remove1.simps(2) remove1_append)
  moreover have "t \<in> set ts" using assms by auto
  ultimately show ?thesis using assms
    by (simp add: to_front_def encode_set_def lru_access_def wf_tags_def take_map drop_map)
qed

lemma to_front_encode_miss:
  assumes "wf_tags n ts" and "0 < n" and "t \<notin> set ts"
  shows "to_front (if length ts < n then length ts else n - 1) \<lparr>line_tag = t, valid = True\<rparr>
      (encode_set n ts) = encode_set n (lru_access n t ts)"
  using assms by (auto simp: to_front_def encode_set_def lru_access_def wf_tags_def take_map drop_map)

section \<open>An access refines the list access\<close>

lemma set_index_less: "wf_cache c \<Longrightarrow> set_index c a < unat (set_count c)"
  by (simp add: set_index_def wf_cache_def word_less_nat_alt [symmetric] unat_mod)

text \<open>Every way of the selected set is an index into the lines.\<close>

lemma access_in_bounds:
  assumes "wf_cache c" and "i < unat (set_count c)"
  shows "i * ways_of c + ways_of c \<le> length (cache_lines c)"
proof -
  have "(i + 1) * ways_of c \<le> unat (set_count c) * ways_of c"
    using assms(2) by (intro mult_le_mono1) simp
  then show ?thesis using assms(1) by (simp add: wf_cache_def)
qed

lemma set_lines_nth:
  assumes "wf_cache c" and "i < unat (set_count c)" and "k < ways_of c"
  shows "cache_lines c ! (i * ways_of c + k) = encode_set (ways_of c) (set_tags c i) ! k"
proof -
  have "encode_set (ways_of c) (set_tags c i) = set_lines c i"
    using assms by (simp add: wf_cache_def)
  then show ?thesis
    using assms(3) access_in_bounds [OF assms(1,2)] by (simp add: set_lines_def)
qed

definition access_result :: "cache \<Rightarrow> u32 \<Rightarrow> cache_access_result" where
  "access_result c a = (if tag_of c a \<in> set (set_tags c (set_index c a)) then Hit else Miss)"

lemma access_cache_lines:
  assumes "wf_cache c"
  shows "fst (access_cache a c) = access_result c a"
    and "\<exists>w x. w < ways_of c \<and>
      snd (access_cache a c) = c\<lparr>
        cache_lines := (shift_lines (set_index c a * ways_of c) w (cache_lines c))
          [set_index c a * ways_of c := x],
        cache_stats := record_access (access_result c a) (cache_stats c)\<rparr> \<and>
      to_front w x (encode_set (ways_of c) (set_tags c (set_index c a))) =
        encode_set (ways_of c) (lru_access (ways_of c) (tag_of c a) (set_tags c (set_index c a)))"
proof -
  let ?i = "set_index c a" and ?n = "ways_of c" and ?t = "tag_of c a"
  let ?ts = "set_tags c ?i"
  have i: "?i < unat (set_count c)" using assms by (rule set_index_less)
  have wf: "wf_tags ?n ?ts" and n: "0 < ?n" using assms i by (auto simp: wf_cache_def)
  note nth = set_lines_nth [OF assms i]
  have "fst (access_cache a c) = access_result c a \<and> (\<exists>w x. w < ?n \<and>
      snd (access_cache a c) = c\<lparr>
        cache_lines := (shift_lines (?i * ?n) w (cache_lines c))[?i * ?n := x],
        cache_stats := record_access (access_result c a) (cache_stats c)\<rparr> \<and>
      to_front w x (encode_set ?n ?ts) = encode_set ?n (lru_access ?n ?t ?ts))"
  proof (cases "?t \<in> set ?ts")
    case True
    then obtain k where k: "k < length ?ts" "?ts ! k = ?t" by (auto simp: in_set_conv_nth)
    then have kn: "k < ?n" using wf by (simp add: wf_tags_def)
    have "find_way (cache_lines c) (?i * ?n) ?t ?n ?n 0 ?n = (True, k)"
      using nth wf k by (intro find_way_hit) auto
    moreover have "cache_lines c ! (?i * ?n + k) = \<lparr>line_tag = ?t, valid = True\<rparr>"
      using nth [OF kn] k wf kn by (simp add: encode_set_nth wf_tags_def)
    ultimately show ?thesis using kn True to_front_encode_hit [OF wf k]
      by (auto simp: access_cache_def access_result_def Let_def ways_of_def [symmetric])
  next
    case False
    have "find_way (cache_lines c) (?i * ?n) ?t ?n ?n 0 ?n =
        (False, if length ?ts < ?n then length ?ts else ?n)"
      using nth wf False by (intro find_way_miss) auto
    then show ?thesis using False n to_front_encode_miss [OF wf n False]
      by (intro conjI exI [of _ "if length ?ts < ?n then length ?ts else ?n - 1"]
          exI [of _ "\<lparr>line_tag = ?t, valid = True\<rparr>"]) (auto simp: access_cache_def access_result_def Let_def ways_of_def [symmetric])
  qed
  then show "fst (access_cache a c) = access_result c a"
    and "\<exists>w x. w < ?n \<and>
      snd (access_cache a c) = c\<lparr>
        cache_lines := (shift_lines (?i * ?n) w (cache_lines c))[?i * ?n := x],
        cache_stats := record_access (access_result c a) (cache_stats c)\<rparr> \<and>
      to_front w x (encode_set ?n ?ts) = encode_set ?n (lru_access ?n ?t ?ts)"
    by blast+
qed

lemma distinct_sets:
  fixes i j n :: nat
  assumes "i \<noteq> j"
  shows "j * n + n \<le> i * n \<or> i * n + n \<le> j * n"
proof (cases "i < j")
  case True
  then have "(i + 1) * n \<le> j * n" by (intro mult_le_mono1) simp
  then show ?thesis by simp
next
  case False
  then have "(j + 1) * n \<le> i * n" using assms by (intro mult_le_mono1) simp
  then show ?thesis by simp
qed

lemma access_cache_fields:
  assumes "wf_cache c" and "snd (access_cache a c) = c'"
  shows "configuration c' = configuration c" and "set_count c' = set_count c"
    and "cache_stats c' = record_access (access_result c a) (cache_stats c)"
    and "length (cache_lines c') = length (cache_lines c)"
  using access_cache_lines(2) [OF assms(1), of a] assms(2) by auto

lemma access_cache_set:
  assumes "wf_cache c" and "snd (access_cache a c) = c'" and "j < unat (set_count c)"
  shows "set_lines c' j = encode_set (ways_of c)
    (if j = set_index c a then lru_access (ways_of c) (tag_of c a) (set_tags c j)
     else set_tags c j)"
proof -
  let ?i = "set_index c a" and ?n = "ways_of c"
  have i: "?i < unat (set_count c)" using assms(1) by (rule set_index_less)
  have old: "set_lines c j = encode_set ?n (set_tags c j)" using assms(1,3) by (simp add: wf_cache_def)
  obtain w x where w: "w < ?n"
    and c': "c' = c\<lparr>cache_lines := (shift_lines (?i * ?n) w (cache_lines c))[?i * ?n := x],
      cache_stats := record_access (access_result c a) (cache_stats c)\<rparr>"
    and front: "to_front w x (encode_set ?n (set_tags c ?i)) =
      encode_set ?n (lru_access ?n (tag_of c a) (set_tags c ?i))"
    using access_cache_lines(2) [OF assms(1), of a] assms(2) by blast
  have n': "ways_of c' = ?n" by (simp add: c' ways_of_def)
  show ?thesis
  proof (cases "j = ?i")
    case True
    then have "set_lines c' j = to_front w x (set_lines c j)"
      using shift_lines_segment [OF w access_in_bounds [OF assms(1) i]]
      by (simp add: set_lines_def n') (simp add: c')
    with True old front show ?thesis by simp
  next
    case False
    then have "set_lines c' j = set_lines c j"
      using shift_lines_other [OF w access_in_bounds [OF assms(1) i] distinct_sets
          access_in_bounds [OF assms(1,3)]]
      by (simp add: set_lines_def n') (simp add: c')
    with False old show ?thesis by simp
  qed
qed

lemma set_tags_encode: "set_lines c i = encode_set n ts \<Longrightarrow> set_tags c i = ts"
  by (simp add: set_tags_def)

text \<open>The refinement: an access of a well-formed cache is an access of one list.\<close>

lemma access_cache_refines:
  assumes "wf_cache c" and "access_cache a c = (r, c')"
  shows "wf_cache c'" and "r = access_result c a"
    and "j < unat (set_count c) \<Longrightarrow> set_tags c' j =
      (if j = set_index c a then lru_access (ways_of c) (tag_of c a) (set_tags c j)
       else set_tags c j)"
proof -
  have c': "snd (access_cache a c) = c'" using assms(2) by simp
  note fields = access_cache_fields [OF assms(1) c']
  have n': "ways_of c' = ways_of c" by (simp add: ways_of_def fields)
  note lines = access_cache_set [OF assms(1) c']
  note tags = set_tags_encode [OF lines]
  show "r = access_result c a" using access_cache_lines(1) [OF assms(1), of a] assms(2) by simp
  show "j < unat (set_count c) \<Longrightarrow> set_tags c' j =
      (if j = set_index c a then lru_access (ways_of c) (tag_of c a) (set_tags c j)
       else set_tags c j)" by (rule tags)
  show "wf_cache c'"
    using assms(1) lines tags fields
    by (auto simp: wf_cache_def n' wf_lru_access)
qed

lemma make_cache_wf:
  assumes "make_cache conf = Inr c"
  shows "wf_cache c" and "cache_stats c = zero_statistics" and "configuration c = conf"
    and "set_tags c i = []"
proof -
  from assms obtain sets where sets: "checked_set_count conf = Inr sets"
    and c: "c = \<lparr>configuration = conf, set_count = sets,
         cache_lines = replicate (unat (capacity_bytes conf div line_size_bytes conf)) empty_line,
         cache_stats = zero_statistics\<rparr>"
    by (auto simp: make_cache_def and_then_eq_iffs)
  note geometry = checked_set_count_geometry [OF sets]
  have "takeWhile valid (replicate k empty_line) = []" for k by (cases k) (simp_all add: empty_line_def)
  then show tags: "set_tags c i = []" for i
    by (simp add: set_tags_def set_lines_def c)
  have "ways_of c + i * ways_of c \<le> unat sets * ways_of c" if "i < unat sets" for i
  proof -
    have "(i + 1) * ways_of c \<le> unat sets * ways_of c" using that by (intro mult_le_mono1) simp
    then show ?thesis by simp
  qed
  then have "set_lines c i = encode_set (ways_of c) []" if "i < unat sets" for i
    using that geometry(4)
    by (simp add: set_lines_def encode_set_def) (simp add: c ways_of_def min_def le_diff_conv2)
  then show "wf_cache c"
    using geometry by (simp add: wf_cache_def tags wf_tags_def) (simp add: c ways_of_def)
qed (use assms in \<open>auto simp: make_cache_def and_then_eq_iffs\<close>)

lemma reset_cache_wf:
  assumes "wf_cache c"
  shows "wf_cache (reset_cache c)" and "set_tags (reset_cache c) i = []"
    and "cache_stats (reset_cache c) = zero_statistics"
proof -
  have "takeWhile valid (replicate k empty_line) = []" for k by (cases k) (simp_all add: empty_line_def)
  then show tags: "set_tags (reset_cache c) i = []" for i
    by (simp add: set_tags_def set_lines_def reset_cache_def)
  have "set_lines (reset_cache c) i = encode_set (ways_of c) []" if "i < unat (set_count c)" for i
    using access_in_bounds [OF assms that]
    by (simp add: set_lines_def encode_set_def reset_cache_def ways_of_def min_def le_diff_conv2
        add.commute)
  then show "wf_cache (reset_cache c)"
    using assms by (simp add: wf_cache_def tags wf_tags_def) (simp add: reset_cache_def ways_of_def)
  show "cache_stats (reset_cache c) = zero_statistics" by (simp add: reset_cache_def)
qed

section \<open>Sequences of accesses: least recently used replacement\<close>

fun access_all :: "u32 list \<Rightarrow> cache \<Rightarrow> cache_access_result list \<times> cache" where
  "access_all [] c = ([], c)"
| "access_all (a # as) c =
     (let (r, c) = access_cache a c; (rs, c) = access_all as c in (r # rs, c))"

text \<open>The tags of a sequence, most recently used first, each once.\<close>

definition recency :: "'a list \<Rightarrow> 'a list" where
  "recency ts = fold (\<lambda>t xs. t # remove1 t xs) ts []"

lemma distinct_recency [simp]: "distinct (recency ts)"
proof -
  have "distinct (fold (\<lambda>t xs. t # remove1 t xs) ts xs)" if "distinct xs" for xs
    using that by (induction ts arbitrary: xs) auto
  then show ?thesis by (simp add: recency_def)
qed

lemma set_recency [simp]: "set (recency ts) = set ts"
proof -
  have "set (fold (\<lambda>t xs. t # remove1 t xs) ts xs) = set ts \<union> set xs" if "distinct xs" for xs
    using that by (induction ts arbitrary: xs) auto
  then show ?thesis by (simp add: recency_def)
qed

lemma recency_snoc: "recency (ts @ [t]) = t # remove1 t (recency ts)"
  by (simp add: recency_def)

text \<open>A bounded list is a prefix of the unbounded one, whatever its bound.\<close>

lemma take_remove1:
  "take n (remove1 t xs) =
    (if t \<in> set (take (Suc n) xs) then remove1 t (take (Suc n) xs) else take n xs)"
proof (induction xs arbitrary: n)
  case (Cons x xs)
  then show ?case by (cases n) auto
qed simp

lemma lru_access_take:
  assumes "0 < n"
  shows "lru_access n t (take n xs) = take n (t # remove1 t xs)"
  using assms by (cases n) (simp_all add: lru_access_def take_remove1)

text \<open>The tags that a sequence of accesses presents to set \<open>i\<close>.\<close>

definition tags_in :: "cache \<Rightarrow> nat \<Rightarrow> u32 list \<Rightarrow> u64 list" where
  "tags_in c i as = map (tag_of c) (filter (\<lambda>a. set_index c a = i) as)"

lemma access_geometry:
  assumes "wf_cache c" and "access_cache a c = (r, c')"
  shows "configuration c' = configuration c" and "set_count c' = set_count c"
    and "cache_stats c' = record_access r (cache_stats c)" and "set_index c' = set_index c"
    and "tag_of c' = tag_of c" and "ways_of c' = ways_of c" and "tags_in c' = tags_in c"
  using access_cache_fields [OF assms(1), of a c'] access_cache_refines(2) [OF assms] assms(2)
  by (auto simp: fun_eq_iff set_index_def tag_of_def block_number_def ways_of_def tags_in_def)

lemma access_all_tags:
  assumes "access_all as c = (rs, c')" and "wf_cache c" and "i < unat (set_count c)"
    and "set_tags c i = take (ways_of c) (recency ts)"
  shows "wf_cache c' \<and> set_tags c' i = take (ways_of c) (recency (ts @ tags_in c i as)) \<and>
    configuration c' = configuration c \<and> set_count c' = set_count c"
  using assms
proof (induction as arbitrary: c rs ts)
  case Nil
  then show ?case by (simp add: tags_in_def)
next
  case (Cons a as)
  obtain r c1 rs1 where first: "access_cache a c = (r, c1)" and rest: "access_all as c1 = (rs1, c')"
    using Cons.prems(1) by (auto split: prod.splits)
  note refines = access_cache_refines [OF Cons.prems(2) first]
  note geometry = access_geometry [OF Cons.prems(2) first]
  have n: "0 < ways_of c" using Cons.prems(2) by (simp add: wf_cache_def)
  let ?ts = "ts @ tags_in c i [a]"
  have "set_tags c1 i = take (ways_of c1) (recency ?ts)"
    using refines(3) [OF Cons.prems(3)] Cons.prems(4) lru_access_take [OF n]
    by (auto simp: tags_in_def recency_snoc geometry)
  note IH = Cons.IH [OF rest refines(1) _ this, unfolded geometry, OF Cons.prems(3)]
  have "?ts @ tags_in c i as = ts @ tags_in c i (a # as)" by (simp add: tags_in_def)
  with IH show ?case by simp
qed

text \<open>
  From a new cache, the tags resident in a set are the most recently used ones, as many as
  it has ways; the next access hits exactly when its tag is one of them.
\<close>

lemma access_all_lru:
  assumes "make_cache conf = Inr c" and "access_all as c = (rs, c')"
  shows "wf_cache c'"
    and "i < unat (set_count c) \<Longrightarrow>
      set_tags c' i = take (unat (associativity conf)) (recency (tags_in c i as))"
    and "access_result c' a = Hit \<longleftrightarrow> tag_of c a \<in>
      set (take (unat (associativity conf)) (recency (tags_in c (set_index c a) as)))"
proof -
  note made = make_cache_wf [OF assms(1)]
  have start: "set_tags c i = take (ways_of c) (recency [])" for i
    using made(4) by (simp add: recency_def)
  have ways: "ways_of c = unat (associativity conf)" by (simp add: ways_of_def made(3))
  note all = access_all_tags [OF assms(2) made(1) _ start, unfolded ways]
  have 0: "0 < unat (set_count c)" using made(1) by (simp add: wf_cache_def)
  show "wf_cache c'" using all [OF 0] by simp
  show "i < unat (set_count c) \<Longrightarrow>
      set_tags c' i = take (unat (associativity conf)) (recency (tags_in c i as))"
    using all [of i] by simp
  have same: "set_index c' a = set_index c a" "tag_of c' a = tag_of c a"
    using all [OF 0] by (simp_all add: set_index_def tag_of_def block_number_def)
  show "access_result c' a = Hit \<longleftrightarrow> tag_of c a \<in>
      set (take (unat (associativity conf)) (recency (tags_in c (set_index c a) as)))"
    using all [OF set_index_less [OF made(1), of a]] by (simp add: access_result_def same)
qed

section \<open>Counters\<close>

definition balanced :: "cache_statistics \<Rightarrow> bool" where
  "balanced st \<longleftrightarrow> hits st + misses st = accesses st"

lemma balanced_record [simp]: "balanced st \<Longrightarrow> balanced (record_access r st)"
  by (auto simp: balanced_def record_access_def Let_def)

lemma balanced_zero [simp]: "balanced zero_statistics"
  by (simp add: balanced_def zero_statistics_def)

lemma accesses_record [simp]: "accesses (record_access r st) = accesses st + 1"
  by (simp add: record_access_def Let_def)

lemma hits_record [simp]:
  "hits (record_access r st) = hits st + (if r = Hit then 1 else 0)"
  by (simp add: record_access_def Let_def)

definition wf_split :: "split_cache \<Rightarrow> bool" where
  "wf_split c \<longleftrightarrow> wf_cache (instruction_cache c) \<and> wf_cache (data_cache c) \<and>
     balanced (cache_stats (instruction_cache c)) \<and> balanced (cache_stats (data_cache c)) \<and>
     balanced (load_statistics c) \<and> balanced (store_statistics c) \<and>
     accesses (cache_stats (data_cache c)) =
       accesses (load_statistics c) + accesses (store_statistics c) \<and>
     hits (cache_stats (data_cache c)) = hits (load_statistics c) + hits (store_statistics c)"

lemma make_split_cache_wf: "make_split_cache conf = Inr c \<Longrightarrow> wf_split c"
  by (auto simp: make_split_cache_def and_then_eq_iffs wf_split_def make_cache_wf
      zero_statistics_def [symmetric]) (simp_all add: zero_statistics_def)

lemma observe_split_cases:
  assumes "wf_split c"
  obtains r ic where "access_cache (observed_program_counter ob) (instruction_cache c) = (r, ic)"
      "wf_cache ic" "cache_stats ic = record_access r (cache_stats (instruction_cache c))"
      "data_memory_access ob = None" "observe_split ob c = c\<lparr>instruction_cache := ic\<rparr>"
  | r ic a r' dc where
      "access_cache (observed_program_counter ob) (instruction_cache c) = (r, ic)"
      "wf_cache ic" "cache_stats ic = record_access r (cache_stats (instruction_cache c))"
      "data_memory_access ob = Some a" "access_cache (access_address a) (data_cache c) = (r', dc)"
      "wf_cache dc" "cache_stats dc = record_access r' (cache_stats (data_cache c))"
      "observe_split ob c = (if access_kind a = LoadAccess
        then c\<lparr>instruction_cache := ic, data_cache := dc,
          load_statistics := record_access r' (load_statistics c)\<rparr>
        else c\<lparr>instruction_cache := ic, data_cache := dc,
          store_statistics := record_access r' (store_statistics c)\<rparr>)"
proof -
  have wf: "wf_cache (instruction_cache c)" "wf_cache (data_cache c)"
    using assms by (simp_all add: wf_split_def)
  obtain r ic where ic: "access_cache (observed_program_counter ob) (instruction_cache c) = (r, ic)"
    by fastforce
  note ic' = access_cache_refines(1) [OF wf(1) ic] access_geometry(3) [OF wf(1) ic]
  show thesis
  proof (cases "data_memory_access ob")
    case None
    with ic ic' that(1) show thesis by (simp add: observe_split_def)
  next
    case (Some a)
    obtain r' dc where dc: "access_cache (access_address a) (data_cache c) = (r', dc)" by fastforce
    note dc' = access_cache_refines(1) [OF wf(2) dc] access_geometry(3) [OF wf(2) dc]
    show thesis
      using that(2) [OF ic ic' Some dc dc'] ic dc Some by (simp add: observe_split_def Let_def)
  qed
qed

lemma observe_split_wf: "wf_split c \<Longrightarrow> wf_split (observe_split ob c)"
  by (rule observe_split_cases [where c = c and ob = ob])
    (auto simp: wf_split_def split: if_splits)

lemma reset_split_wf: "wf_split c \<Longrightarrow> wf_split (reset_split c)"
  by (simp add: wf_split_def reset_split_def reset_cache_wf) (simp add: zero_statistics_def)

lemma reset_cache_access: "wf_cache c \<Longrightarrow> reset_cache (snd (access_cache a c)) = reset_cache c"
  using access_cache_fields [of c a] by (simp add: reset_cache_def)

lemma reset_split_observe:
  assumes "wf_split c"
  shows "reset_split (observe_split ob c) = reset_split c"
  using assms reset_cache_access
  by (auto simp: wf_split_def observe_split_def reset_split_def Let_def split_beta split: option.split)

section \<open>The model as an observer of the engine\<close>

text \<open>
  The instruction cache is accessed once per retired instruction, the data cache once per
  data access, of which the loads and the stores are counted apart.
\<close>

fun access_weight :: "data_memory_access_kind \<Rightarrow> execution_observation \<Rightarrow> nat" where
  "access_weight k ob = (case data_memory_access ob of
     Some a \<Rightarrow> if access_kind a = k then 1 else 0 | None \<Rightarrow> 0)"

interpretation fetches: unit_observer observe_split wf_split
  "\<lambda>c. accesses (cache_stats (instruction_cache c))" "\<lambda>_. 1"
proof
  show "wf_split (observe_split ob s)" if "wf_split s" for ob s
    using that by (rule observe_split_wf)
  show "accesses (cache_stats (instruction_cache (observe_split ob s))) =
      accesses (cache_stats (instruction_cache s)) + of_nat 1" if "wf_split s" for ob s
    using that by (rule observe_split_cases [where ob = ob]) simp_all
qed (simp split: option.split)

interpretation loads: unit_observer observe_split wf_split
  "\<lambda>c. accesses (load_statistics c)" "access_weight LoadAccess"
proof
  show "accesses (load_statistics (observe_split ob s)) =
      accesses (load_statistics s) + of_nat (access_weight LoadAccess ob)" if "wf_split s" for ob s
    using that by (rule observe_split_cases [where ob = ob]) simp_all
qed (simp split: option.split)

interpretation stores: unit_observer observe_split wf_split
  "\<lambda>c. accesses (store_statistics c)" "access_weight StoreAccess"
proof
  show "accesses (store_statistics (observe_split ob s)) =
      accesses (store_statistics s) + of_nat (access_weight StoreAccess ob)" if "wf_split s" for ob s
    using that by (rule observe_split_cases [where ob = ob])
      (auto intro: data_memory_access_kind.exhaust)
qed (simp split: option.split)

text \<open>Hits and misses grow by at most one with every retired instruction.\<close>

lemma bounded_record:
  "hits (record_access r st) = hits st \<or> hits (record_access r st) = hits st + 1"
  "misses (record_access r st) = misses st \<or> misses (record_access r st) = misses st + 1"
  by (simp_all add: record_access_def Let_def)

interpretation fetch_hits: bounded_observer observe_split wf_split
  "\<lambda>c. hits (cache_stats (instruction_cache c))"
proof
  show "hits (cache_stats (instruction_cache (observe_split ob s))) \<in>
      {hits (cache_stats (instruction_cache s)), hits (cache_stats (instruction_cache s)) + 1}"
    if "wf_split s" for ob s
    using that by (rule observe_split_cases [where ob = ob]) (simp_all add: bounded_record)
qed

interpretation fetch_misses: bounded_observer observe_split wf_split
  "\<lambda>c. misses (cache_stats (instruction_cache c))"
proof
  show "misses (cache_stats (instruction_cache (observe_split ob s))) \<in>
      {misses (cache_stats (instruction_cache s)), misses (cache_stats (instruction_cache s)) + 1}"
    if "wf_split s" for ob s
    using that by (rule observe_split_cases [where ob = ob]) (simp_all add: bounded_record)
qed

interpretation data_hits: bounded_observer observe_split wf_split
  "\<lambda>c. hits (cache_stats (data_cache c))"
proof
  show "hits (cache_stats (data_cache (observe_split ob s))) \<in>
      {hits (cache_stats (data_cache s)), hits (cache_stats (data_cache s)) + 1}"
    if "wf_split s" for ob s
    using that by (rule observe_split_cases [where ob = ob]) (simp_all add: bounded_record)
qed

interpretation data_misses: bounded_observer observe_split wf_split
  "\<lambda>c. misses (cache_stats (data_cache c))"
proof
  show "misses (cache_stats (data_cache (observe_split ob s))) \<in>
      {misses (cache_stats (data_cache s)), misses (cache_stats (data_cache s)) + 1}"
    if "wf_split s" for ob s
    using that by (rule observe_split_cases [where ob = ob]) (simp_all add: bounded_record)
qed

section \<open>Specification: blocks and their recency\<close>

text \<open>
  The cache without its lines and tags. An address belongs to the block of its line, a block to
  the set of its number, and there are as many sets as the capacity has room for.
\<close>

definition line_of :: "cache_configuration \<Rightarrow> u32 \<Rightarrow> nat" where
  "line_of conf a = unat a div unat (line_size_bytes conf)"

definition sets_of :: "cache_configuration \<Rightarrow> nat" where
  "sets_of conf = unat (capacity_bytes conf) div
     (unat (line_size_bytes conf) * unat (associativity conf))"

text \<open>
  A block hits if it is among the last distinct blocks of its set, as many as there are ways.
\<close>

definition block_hits :: "nat \<Rightarrow> nat \<Rightarrow> nat list \<Rightarrow> nat \<Rightarrow> bool" where
  "block_hits sets ways hist b \<longleftrightarrow>
     b \<in> set (take ways (recency (filter (\<lambda>x. x mod sets = b mod sets) hist)))"

lemma remove1_map:
  "inj_on f (insert t (set xs)) \<Longrightarrow> remove1 (f t) (map f xs) = map f (remove1 t xs)"
proof (induction xs)
  case (Cons x xs)
  have "f x = f t \<longleftrightarrow> x = t" "f t = f x \<longleftrightarrow> t = x" using inj_on_eq_iff [OF Cons.prems] by simp_all
  moreover have "inj_on f (insert t (set xs))" using Cons.prems by (rule inj_on_subset) auto
  ultimately show ?case using Cons.IH by simp
qed simp

lemma recency_map: "inj_on f (set ts) \<Longrightarrow> recency (map f ts) = map f (recency ts)"
proof (induction ts rule: rev_induct)
  case Nil
  show ?case by (simp add: recency_def)
next
  case (snoc t ts)
  then have "recency (map f ts) = map f (recency ts)" by (auto intro: inj_on_subset)
  moreover have "inj_on f (insert t (set (recency ts)))" using snoc.prems by simp
  ultimately show ?case by (simp add: recency_snoc remove1_map)
qed

lemma fresh_geometry:
  assumes "make_cache conf = Inr c"
  shows "0 < sets_of conf" and "set_index c a = line_of conf a mod sets_of conf"
    and "unat (tag_of c a) = line_of conf a div sets_of conf"
proof -
  obtain sets where sets: "checked_set_count conf = Inr sets"
    and c: "configuration c = conf" "set_count c = sets"
    using assms by (auto simp: make_cache_def and_then_eq_iffs)
  note geometry = checked_set_count_geometry [OF sets]
  have "sets_of conf = unat (capacity_bytes conf) div unat (line_size_bytes conf) div
      unat (associativity conf)"
    by (simp add: sets_of_def div_mult2_eq)
  also have "\<dots> = unat sets" using geometry(2,4) by (simp add: unat_div)
  finally have n: "sets_of conf = unat sets" .
  show "0 < sets_of conf" using geometry(1) by (simp add: n)
  have "unat (ucast a :: u64) = unat a"
    using unat_lt_2_32 [of a] by (simp add: unsigned_ucast_eq take_bit_nat_eq_self_iff)
  then have "unat (block_number c a) = line_of conf a"
    by (simp add: block_number_def line_of_def c unat_div)
  then show "set_index c a = line_of conf a mod sets_of conf"
    and "unat (tag_of c a) = line_of conf a div sets_of conf"
    by (simp_all add: set_index_def tag_of_def c n unat_mod unat_div)
qed

text \<open>Within a set, the tag of a block determines the block.\<close>

lemma resident_iff:
  assumes "make_cache conf = Inr c"
  shows "tag_of c a \<in> set (take n (recency (tags_in c (set_index c a) as))) \<longleftrightarrow>
    block_hits (sets_of conf) n (map (line_of conf) as) (line_of conf a)"
proof -
  note geometry = fresh_geometry [OF assms]
  let ?s = "sets_of conf" and ?b = "line_of conf a"
  let ?tags = "tags_in c (set_index c a) as"
  let ?bs = "filter (\<lambda>x. x mod ?s = ?b mod ?s) (map (line_of conf) as)"
  have tags: "map unat ?tags = map (\<lambda>b. b div ?s) ?bs"
    by (simp add: tags_in_def geometry(2,3) filter_map comp_def)
  have inj: "inj_on (\<lambda>b. b div ?s) {x. x mod ?s = ?b mod ?s}"
  proof (rule inj_onI)
    fix x y assume "x \<in> {x. x mod ?s = ?b mod ?s}" "y \<in> {x. x mod ?s = ?b mod ?s}"
      and "x div ?s = y div ?s"
    then show "x = y" using div_mult_mod_eq [of x ?s] div_mult_mod_eq [of y ?s] by simp
  qed
  have "inj_on (\<lambda>b. b div ?s) (set ?bs)" by (rule inj_on_subset [OF inj]) auto
  then have "recency (map unat ?tags) = map (\<lambda>b. b div ?s) (recency ?bs)"
    unfolding tags by (rule recency_map)
  moreover have "recency (map unat ?tags) = map unat (recency ?tags)"
    by (rule recency_map) (simp add: inj_on_def word_unat_eq_iff)
  ultimately have "map unat (recency ?tags) = map (\<lambda>b. b div ?s) (recency ?bs)" by (simp only:)
  then have resident: "unat ` set (take n (recency ?tags)) = (\<lambda>b. b div ?s) ` set (take n (recency ?bs))"
    by (simp only: set_map [symmetric] take_map [symmetric])
  have "tag_of c a \<in> set (take n (recency ?tags)) \<longleftrightarrow>
      unat (tag_of c a) \<in> unat ` set (take n (recency ?tags))"
    by (rule inj_image_mem_iff [symmetric]) (simp add: inj_def word_unat_eq_iff)
  also have "\<dots> \<longleftrightarrow> ?b div ?s \<in> (\<lambda>b. b div ?s) ` set (take n (recency ?bs))"
    by (simp only: resident geometry(3))
  also have "\<dots> \<longleftrightarrow> ?b \<in> set (take n (recency ?bs))"
    using set_take_subset [of n "recency ?bs"]
    by (intro inj_on_image_mem_iff [OF inj]) auto
  finally show ?thesis by (simp only: block_hits_def)
qed

section \<open>Properties\<close>

text \<open>Two caches of two sets with one and two ways, for the witnesses.\<close>

definition sample_configuration :: "u64 \<Rightarrow> cache_configuration" where
  "sample_configuration ways = \<lparr>capacity_bytes = 8 * ways, line_size_bytes = 4, associativity = ways\<rparr>"

definition sample_cache :: "u64 \<Rightarrow> cache" where
  "sample_cache ways = \<lparr>configuration = sample_configuration ways, set_count = 2,
     cache_lines = replicate (2 * unat ways) empty_line, cache_stats = zero_statistics\<rparr>"

lemma make_sample_cache:
  "make_cache (sample_configuration 1) = Inr (sample_cache 1)"
  "make_cache (sample_configuration 2) = Inr (sample_cache 2)"
  by code_simp+

lemma tag_of_fresh:
  assumes "make_cache conf = Inr c" and "make_cache conf' = Inr c'"
    and "line_size_bytes conf = line_size_bytes conf'" and "set_count c = set_count c'"
  shows "tag_of c = tag_of c'" and "set_index c = set_index c'"
  using assms make_cache_wf(3) by (auto simp: tag_of_def set_index_def block_number_def fun_eq_iff)

lemma access_after:
  assumes "make_cache conf = Inr c" and "access_all as c = (rs, c')"
  shows "fst (access_cache a c') = Hit \<longleftrightarrow> tag_of c a \<in>
    set (take (unat (associativity conf)) (recency (tags_in c (set_index c a) as)))"
  using access_all_lru(1,3) [OF assms] access_cache_lines(1) by simp

lemma hit_iff_recent:
  assumes "make_cache conf = Inr c" and "access_all as c = (rs, c')"
  shows "fst (access_cache a c') = Hit \<longleftrightarrow> block_hits (sets_of conf) (unat (associativity conf))
    (map (line_of conf) as) (line_of conf a)"
  by (simp only: access_after [OF assms] resident_iff [OF assms(1)])

text \<open>
  C9: a cache is least recently used. After any sequence of accesses to a new cache the next
  access hits exactly if its block, the address divided by the line size, is among the last
  distinct blocks accessed in its set, as many as the associativity. Blocks are in the same set
  if they agree modulo the number of sets, the capacity divided by the bytes of a set; neither
  the tags nor the lines of the code occur in this.
\<close>

theorem cache_hits_are_recent:
  assumes "make_cache conf = Inr c" and "access_all as c = (rs, c')"
  shows "fst (access_cache a c') = (if block_hits (sets_of conf) (unat (associativity conf))
      (map (line_of conf) as) (line_of conf a) then Hit else Miss)"
  using hit_iff_recent [OF assms, of a] by (cases "fst (access_cache a c')") auto

lemma cache_hits_are_recent_witness:
  "fst (access_cache 8 (snd (access_all [0, 8, 16] (sample_cache 2)))) = Hit \<and>
   fst (access_cache 0 (snd (access_all [0, 8, 16] (sample_cache 2)))) = Miss"
proof -
  let ?c = "sample_cache 2" and ?conf = "sample_configuration 2"
  obtain rs c' where all: "access_all [0, 8, 16] ?c = (rs, c')"
    by (cases "access_all [0, 8, 16] ?c")
  have "block_hits (sets_of ?conf) (unat (associativity ?conf))
      (map (line_of ?conf) [0, 8, 16]) (line_of ?conf 8)"
    "\<not> block_hits (sets_of ?conf) (unat (associativity ?conf))
      (map (line_of ?conf) [0, 8, 16]) (line_of ?conf 0)"
    by code_simp+
  then show ?thesis
    using cache_hits_are_recent [OF make_sample_cache(2) all, of 8]
      cache_hits_are_recent [OF make_sample_cache(2) all, of 0]
    by (simp add: all del: access_all.simps)
qed

text \<open>
  C32: more ways never hurt. Of two new caches with the same lines and the same number of sets,
  the one with the greater associativity hits whenever the other does, after any sequence of
  accesses.
\<close>

theorem cache_inclusion:
  assumes "make_cache conf = Inr c" and "make_cache conf' = Inr c'"
    and "line_size_bytes conf = line_size_bytes conf'" and "set_count c = set_count c'"
    and "associativity conf \<le> associativity conf'"
    and "fst (access_cache a (snd (access_all as c))) = Hit"
  shows "fst (access_cache a (snd (access_all as c'))) = Hit"
proof -
  note same = tag_of_fresh [OF assms(1-4)]
  have tags: "tags_in c = tags_in c'" by (simp add: tags_in_def fun_eq_iff same)
  have mono: "set (take (unat (associativity conf)) xs) \<subseteq> set (take (unat (associativity conf')) xs)"
    for xs :: "u64 list" using assms(5) by (intro set_take_subset_set_take) (simp add: word_le_nat_alt)
  obtain rs d where d: "access_all as c = (rs, d)" by (cases "access_all as c")
  obtain rs' d' where d': "access_all as c' = (rs', d')" by (cases "access_all as c'")
  from assms(6) access_after [OF assms(1) d, of a] mono
  have "tag_of c a \<in> set (take (unat (associativity conf')) (recency (tags_in c (set_index c a) as)))"
    by (auto simp: d)
  with access_after [OF assms(2) d', of a] show ?thesis by (simp add: d' same tags)
qed

lemma cache_inclusion_witness:
  "fst (access_cache 8 (snd (access_all [0, 8] (sample_cache 2)))) = Hit"
proof -
  have "fst (access_cache 8 (snd (access_all [0, 8] (sample_cache 1)))) = Hit"
    by code_simp
  with cache_inclusion [OF make_sample_cache, of 8 "[0, 8]"] show ?thesis
    by (simp add: sample_configuration_def sample_cache_def del: access_all.simps)
qed

lemma is_power_of_two_size_iff: "is_power_of_two_size v \<longleftrightarrow> (\<exists>k. unat v = 2 ^ k)"
proof -
  have "k < 64" if "unat v = 2 ^ k" for k
    using unat_lt_2_64 [of v] power_less_imp_less_exp [of "2 :: nat" k 64] that by simp
  then show ?thesis unfolding is_power_of_two_size_def power_of_two_word_iff by auto
qed

lemma no_overflow_iff:
  assumes "0 < unat (l :: u64)"
  shows "a \<le> - 1 div l \<longleftrightarrow> unat l * unat a < 2 ^ 64"
proof -
  have "unat (- 1 div l) = (2 ^ 64 - 1) div unat l" by (simp only: unat_div unat_max_64)
  then have "a \<le> - 1 div l \<longleftrightarrow> unat a \<le> (2 ^ 64 - 1) div unat l" by (simp only: word_le_nat_alt)
  also have "\<dots> \<longleftrightarrow> unat a * unat l \<le> 2 ^ 64 - 1"
    using assms by (rule less_eq_div_iff_mult_less_eq)
  finally show ?thesis by (auto simp: mult.commute)
qed

lemma validate_configuration_None_iff:
  "validate_configuration conf = None \<longleftrightarrow>
     0 < unat (capacity_bytes conf) \<and> 4 \<le> unat (line_size_bytes conf) \<and>
     (\<exists>k. unat (line_size_bytes conf) = 2 ^ k) \<and> 0 < unat (associativity conf) \<and>
     unat (line_size_bytes conf) * unat (associativity conf) < 2 ^ 64 \<and>
     unat (line_size_bytes conf) * unat (associativity conf) dvd unat (capacity_bytes conf)"
proof (cases "0 < unat (line_size_bytes conf) \<and>
    unat (line_size_bytes conf) * unat (associativity conf) < 2 ^ 64")
  case True
  then have over: "- 1 div line_size_bytes conf < associativity conf \<longleftrightarrow> False"
    using no_overflow_iff [of "line_size_bytes conf" "associativity conf"] by (simp add: not_less)
  have small: "\<not> line_size_bytes conf < 4 \<longleftrightarrow> 4 \<le> unat (line_size_bytes conf)"
    by (auto simp: word_less_nat_alt)
  from True have p: "unat (line_size_bytes conf * associativity conf) =
      unat (line_size_bytes conf) * unat (associativity conf)"
    by (simp add: unat_mult_exact)
  have "capacity_bytes conf mod (line_size_bytes conf * associativity conf) = 0 \<longleftrightarrow>
    unat (line_size_bytes conf) * unat (associativity conf) dvd unat (capacity_bytes conf)"
    by (simp add: word_unat_eq_iff unat_mod_distrib p mod_eq_0_iff_dvd)
  then have d: "capacity_bytes conf mod (line_size_bytes conf * associativity conf) = 0 \<longleftrightarrow>
    unat (line_size_bytes conf) * unat (associativity conf) dvd unat (capacity_bytes conf)" by simp
  have z: "capacity_bytes conf = 0 \<longleftrightarrow> \<not> 0 < unat (capacity_bytes conf)"
    "associativity conf = 0 \<longleftrightarrow> \<not> 0 < unat (associativity conf)"
    by (simp_all add: unat_gt_0)
  have "validate_configuration conf = None \<longleftrightarrow> capacity_bytes conf \<noteq> 0 \<and>
    \<not> line_size_bytes conf < 4 \<and> is_power_of_two_size (line_size_bytes conf) \<and>
    associativity conf \<noteq> 0 \<and> \<not> - 1 div line_size_bytes conf < associativity conf \<and>
    \<not> (capacity_bytes conf mod (line_size_bytes conf * associativity conf) \<noteq> 0)"
    by (simp add: validate_configuration_def)
  with True show ?thesis
    by (simp only: d z small over is_power_of_two_size_iff not_not simp_thms)
next
  case False
  have "validate_configuration conf \<noteq> None"
  proof (cases "line_size_bytes conf = 0")
    case True
    then show ?thesis by (simp add: validate_configuration_def)
  next
    case nonzero: False
    then have "\<not> associativity conf \<le> - 1 div line_size_bytes conf"
      using False no_overflow_iff [of "line_size_bytes conf" "associativity conf"]
      by (simp only: unat_gt_0) blast
    then show ?thesis by (simp add: validate_configuration_def not_le)
  qed
  with False show ?thesis by (metis zero_less_iff_neq_zero not_numeral_le_zero)
qed

text \<open>
  C33: which geometries are accepted. The constructor succeeds exactly for a positive capacity,
  a line size that is a power of two of at least four bytes, a positive associativity whose
  product with the line size fits in 64 bits, and a capacity that this product divides; the
  cache then has one line for each line-sized part of its capacity.
\<close>

theorem cache_geometry:
  "case make_cache conf of
     Inr c \<Rightarrow> 0 < unat (capacity_bytes conf) \<and> 4 \<le> unat (line_size_bytes conf) \<and>
       (\<exists>k. unat (line_size_bytes conf) = 2 ^ k) \<and> 0 < unat (associativity conf) \<and>
       unat (line_size_bytes conf) * unat (associativity conf) < 2 ^ 64 \<and>
       unat (line_size_bytes conf) * unat (associativity conf) dvd unat (capacity_bytes conf) \<and>
       length (cache_lines c) * unat (line_size_bytes conf) = unat (capacity_bytes conf)
   | Inl e \<Rightarrow> \<not> (0 < unat (capacity_bytes conf) \<and> 4 \<le> unat (line_size_bytes conf) \<and>
       (\<exists>k. unat (line_size_bytes conf) = 2 ^ k) \<and> 0 < unat (associativity conf) \<and>
       unat (line_size_bytes conf) * unat (associativity conf) < 2 ^ 64 \<and>
       unat (line_size_bytes conf) * unat (associativity conf) dvd unat (capacity_bytes conf))"
proof (cases "validate_configuration conf")
  case None
  then have ok: "unat (line_size_bytes conf) * unat (associativity conf) dvd unat (capacity_bytes conf)"
    unfolding validate_configuration_None_iff by simp
  then have "unat (line_size_bytes conf) dvd unat (capacity_bytes conf)" by (rule dvd_mult_left)
  with None show ?thesis
    using validate_configuration_None_iff [of conf]
    by (simp add: make_cache_def checked_set_count_def unat_div)
next
  case (Some e)
  then have "\<not> validate_configuration conf = None" by simp
  then show ?thesis
    unfolding validate_configuration_None_iff by (simp add: make_cache_def checked_set_count_def Some)
qed

end
