(* ===== verification/Branch_Predictor.thy ===== *)
theory Branch_Predictor
  imports Execution_Engine
begin

text \<open>
  The branch predictor model: \<^verbatim>\<open>class BranchPredictorModel\<close> of
  \<^verbatim>\<open>include/rvemu/branch_predictor.hpp\<close> and
  \<^verbatim>\<open>src/branch_predictor.cpp\<close>. The table holds bytes, as in the code; the
  enumeration of the counter states is the abstract value of a byte. A configuration holds
  the bytes of its enumerations, which a cast may set to a value without an enumerator.
\<close>

section \<open>Data\<close>

datatype branch_prediction_strategy =
    AlwaysNotTaken | AlwaysTaken | BimodalTwoBit | UnnamedStrategy u8

datatype two_bit_counter_state =
    StronglyNotTaken | WeaklyNotTaken | WeaklyTaken | StronglyTaken

fun counter_value :: "two_bit_counter_state \<Rightarrow> u8" where
  "counter_value StronglyNotTaken = 0"
| "counter_value WeaklyNotTaken = 1"
| "counter_value WeaklyTaken = 2"
| "counter_value StronglyTaken = 3"

text \<open>The states are ordered as their values are.\<close>

instantiation two_bit_counter_state :: linorder
begin

definition less_eq_two_bit_counter_state ::
  "two_bit_counter_state \<Rightarrow> two_bit_counter_state \<Rightarrow> bool" where
  "less_eq_two_bit_counter_state a b \<longleftrightarrow> counter_value a \<le> counter_value b"

definition less_two_bit_counter_state ::
  "two_bit_counter_state \<Rightarrow> two_bit_counter_state \<Rightarrow> bool" where
  "less_two_bit_counter_state a b \<longleftrightarrow> counter_value a < counter_value b"

instance
proof
  fix a b c :: two_bit_counter_state
  show "a < b \<longleftrightarrow> a \<le> b \<and> \<not> b \<le> a"
    by (auto simp: less_eq_two_bit_counter_state_def less_two_bit_counter_state_def)
  show "a \<le> a" by (simp add: less_eq_two_bit_counter_state_def)
  show "a \<le> b \<Longrightarrow> b \<le> c \<Longrightarrow> a \<le> c" by (simp add: less_eq_two_bit_counter_state_def)
  show "a = b" if "a \<le> b" "b \<le> a"
  proof -
    have "counter_value a = counter_value b"
      using that by (simp add: less_eq_two_bit_counter_state_def)
    then show ?thesis by (cases a; cases b; simp)
  qed
  show "a \<le> b \<or> b \<le> a" by (auto simp: less_eq_two_bit_counter_state_def)
qed

end

record branch_predictor_configuration =
  strategy :: branch_prediction_strategy
  table_entries :: u64
  initial_counter :: u8

datatype branch_predictor_configuration_error_code =
    UnknownStrategy
  | StaticStrategyHasTable
  | MissingTableEntries
  | TableEntriesNotPowerOfTwo
  | InvalidInitialCounter

record branch_prediction_statistics =
  predictions :: u64
  correct :: u64
  incorrect :: u64
  predicted_taken :: u64
  predicted_not_taken :: u64
  actual_taken :: u64
  actual_not_taken :: u64

record branch_predictor =
  predictor_configuration :: branch_predictor_configuration
  counters :: "u8 list"
  predictor_statistics :: branch_prediction_statistics

section \<open>Configuration\<close>

definition is_power_of_two_entries :: "u64 \<Rightarrow> bool" where
  "is_power_of_two_entries v \<longleftrightarrow> v \<noteq> 0 \<and> v AND (v - 1) = 0"

definition is_valid_counter :: "u8 \<Rightarrow> bool" where
  "is_valid_counter counter \<longleftrightarrow> counter \<le> counter_value StronglyTaken"

definition validate_predictor ::
  "branch_predictor_configuration \<Rightarrow> branch_predictor_configuration_error_code option" where
  "validate_predictor conf =
     (if \<not> is_valid_counter (initial_counter conf) then Some InvalidInitialCounter
      else if strategy conf = AlwaysNotTaken \<or> strategy conf = AlwaysTaken then
        (if table_entries conf \<noteq> 0 then Some StaticStrategyHasTable else None)
      else if strategy conf = BimodalTwoBit then
        (if table_entries conf = 0 then Some MissingTableEntries
         else if \<not> is_power_of_two_entries (table_entries conf)
         then Some TableEntriesNotPowerOfTwo
         else None)
      else Some UnknownStrategy)"

definition counter_count :: "branch_predictor_configuration \<Rightarrow> u64" where
  "counter_count conf = (if strategy conf = BimodalTwoBit then table_entries conf else 0)"

fun branch_predictor_configuration_error_message ::
  "branch_predictor_configuration_error_code \<Rightarrow> string" where
  "branch_predictor_configuration_error_message UnknownStrategy =
     ''unknown branch prediction strategy''"
| "branch_predictor_configuration_error_message StaticStrategyHasTable =
     ''static branch predictors must not configure table entries''"
| "branch_predictor_configuration_error_message MissingTableEntries =
     ''bimodal branch predictor table must contain entries''"
| "branch_predictor_configuration_error_message TableEntriesNotPowerOfTwo =
     ''bimodal branch predictor table size must be a power of two''"
| "branch_predictor_configuration_error_message InvalidInitialCounter =
     ''invalid initial two-bit branch predictor counter''"

definition zero_predictions :: branch_prediction_statistics where
  "zero_predictions = \<lparr>predictions = 0, correct = 0, incorrect = 0, predicted_taken = 0,
     predicted_not_taken = 0, actual_taken = 0, actual_not_taken = 0\<rparr>"

definition make_branch_predictor ::
  "branch_predictor_configuration \<Rightarrow>
     branch_predictor_configuration_error_code + branch_predictor" where
  "make_branch_predictor conf =
     (case validate_predictor conf of
        Some e \<Rightarrow> Inl e
      | None \<Rightarrow> Inr \<lparr>predictor_configuration = conf,
          counters = replicate (unat (counter_count conf)) (initial_counter conf),
          predictor_statistics = zero_predictions\<rparr>)"

section \<open>Prediction and update\<close>

definition table_index :: "branch_predictor \<Rightarrow> u32 \<Rightarrow> nat" where
  "table_index p pc =
     (let word_address = (ucast (drop_bit 2 pc) :: u64)
      in unat (word_address AND (table_entries (predictor_configuration p) - 1)))"

definition predict :: "branch_predictor \<Rightarrow> u32 \<Rightarrow> bool" where
  "predict p pc =
     (case strategy (predictor_configuration p) of
        AlwaysNotTaken \<Rightarrow> False
      | AlwaysTaken \<Rightarrow> True
      | BimodalTwoBit \<Rightarrow> counters p ! table_index p pc \<ge> counter_value WeaklyTaken
      | UnnamedStrategy _ \<Rightarrow> False)"

definition update_predictor :: "u32 \<Rightarrow> bool \<Rightarrow> branch_predictor \<Rightarrow> branch_predictor" where
  "update_predictor pc branch_taken p =
     (if strategy (predictor_configuration p) \<noteq> BimodalTwoBit then p
      else let index = table_index p pc; counter = counters p ! index
        in if branch_taken \<and> counter < counter_value StronglyTaken
           then p\<lparr>counters := (counters p)[index := counter + 1]\<rparr>
           else if \<not> branch_taken \<and> counter > counter_value StronglyNotTaken
           then p\<lparr>counters := (counters p)[index := counter - 1]\<rparr>
           else p)"

definition record_prediction ::
  "bool \<Rightarrow> bool \<Rightarrow> branch_prediction_statistics \<Rightarrow> branch_prediction_statistics" where
  "record_prediction predicted actual st =
     (let st = st\<lparr>predictions := predictions st + 1\<rparr>;
          st = (if predicted then st\<lparr>predicted_taken := predicted_taken st + 1\<rparr>
            else st\<lparr>predicted_not_taken := predicted_not_taken st + 1\<rparr>);
          st = (if actual then st\<lparr>actual_taken := actual_taken st + 1\<rparr>
            else st\<lparr>actual_not_taken := actual_not_taken st + 1\<rparr>)
      in if predicted = actual then st\<lparr>correct := correct st + 1\<rparr>
         else st\<lparr>incorrect := incorrect st + 1\<rparr>)"

definition observe_branch :: "execution_observation \<Rightarrow> branch_predictor \<Rightarrow> branch_predictor" where
  "observe_branch ob p =
     (case control_flow ob of
        None \<Rightarrow> p
      | Some flow \<Rightarrow>
          if flow_kind flow \<noteq> ConditionalBranch then p
          else let predicted = predict p (observed_program_counter ob);
                   actual = taken flow;
                   p = p\<lparr>predictor_statistics :=
                     record_prediction predicted actual (predictor_statistics p)\<rparr>
            in update_predictor (observed_program_counter ob) actual p)"

definition reset_predictor :: "branch_predictor \<Rightarrow> branch_predictor" where
  "reset_predictor p = p\<lparr>
     counters := replicate (length (counters p)) (initial_counter (predictor_configuration p)),
     predictor_statistics := zero_predictions\<rparr>"

section \<open>Invariant\<close>

definition tallied :: "branch_prediction_statistics \<Rightarrow> bool" where
  "tallied st \<longleftrightarrow> correct st + incorrect st = predictions st \<and>
     predicted_taken st + predicted_not_taken st = predictions st \<and>
     actual_taken st + actual_not_taken st = predictions st"

text \<open>
  The table has the configured size, and each of its bytes is one of the four counter
  values. Every index the model computes is inside the table.
\<close>

definition wf_predictor :: "branch_predictor \<Rightarrow> bool" where
  "wf_predictor p \<longleftrightarrow> validate_predictor (predictor_configuration p) = None \<and>
     length (counters p) = unat (counter_count (predictor_configuration p)) \<and>
     (\<forall>c \<in> set (counters p). c \<le> 3) \<and> tallied (predictor_statistics p)"

lemma tallied_record [simp]: "tallied st \<Longrightarrow> tallied (record_prediction p a st)"
  by (auto simp: tallied_def record_prediction_def Let_def)

lemma tallied_zero [simp]: "tallied zero_predictions"
  by (simp add: tallied_def zero_predictions_def)

lemma bimodal_entries:
  assumes "wf_predictor p" and "strategy (predictor_configuration p) = BimodalTwoBit"
  shows "is_power_of_two_entries (table_entries (predictor_configuration p))"
    and "length (counters p) = unat (table_entries (predictor_configuration p))"
  using assms by (auto simp: wf_predictor_def validate_predictor_def counter_count_def
      split: if_splits)

lemma table_index_eq:
  assumes "wf_predictor p" and "strategy (predictor_configuration p) = BimodalTwoBit"
  shows "table_index p pc = unat pc div 4 mod length (counters p)"
proof -
  let ?n = "table_entries (predictor_configuration p)" and ?w = "ucast (drop_bit 2 pc) :: u64"
  have "?w AND (?n - 1) = ?w mod ?n"
    using bimodal_entries(1) [OF assms]
    by (intro and_minus_one_eq_mod) (auto simp: is_power_of_two_entries_def)
  moreover have "unat (drop_bit 2 pc) = unat pc div 4"
    by (simp add: drop_bit_eq_div unat_div)
  moreover have "unat ?w = unat (drop_bit 2 pc)"
    using unat_lt_2_32 [of "drop_bit 2 pc"]
    by (simp add: unsigned_ucast_eq take_bit_nat_eq_self_iff)
  ultimately show ?thesis
    using bimodal_entries(2) [OF assms] by (simp add: table_index_def unat_mod)
qed

lemma table_index_less:
  assumes "wf_predictor p" and "strategy (predictor_configuration p) = BimodalTwoBit"
  shows "table_index p pc < length (counters p)"
  using bimodal_entries [OF assms]
  by (simp add: table_index_eq [OF assms] is_power_of_two_entries_def unat_eq_0 [symmetric])

section \<open>Specification: a table of saturating counters\<close>

fun saturate :: "bool \<Rightarrow> two_bit_counter_state \<Rightarrow> two_bit_counter_state" where
  "saturate True StronglyNotTaken = WeaklyNotTaken"
| "saturate True WeaklyNotTaken = WeaklyTaken"
| "saturate True WeaklyTaken = StronglyTaken"
| "saturate True StronglyTaken = StronglyTaken"
| "saturate False StronglyNotTaken = StronglyNotTaken"
| "saturate False WeaklyNotTaken = StronglyNotTaken"
| "saturate False WeaklyTaken = WeaklyNotTaken"
| "saturate False StronglyTaken = WeaklyTaken"

definition counter_state :: "u8 \<Rightarrow> two_bit_counter_state" where
  "counter_state c = (if c = 0 then StronglyNotTaken else if c = 1 then WeaklyNotTaken
     else if c = 2 then WeaklyTaken else StronglyTaken)"

definition table :: "branch_predictor \<Rightarrow> nat \<Rightarrow> two_bit_counter_state" where
  "table p i = counter_state (counters p ! i)"

lemma counter_state_value [simp]: "counter_state (counter_value st) = st"
  by (cases st) (simp_all add: counter_state_def)

lemma counter_cases:
  assumes "(c :: u8) \<le> 3"
  obtains "c = 0" | "c = 1" | "c = 2" | "c = 3"
proof -
  have "unat c \<le> 3" using assms by (simp add: word_le_nat_alt)
  then have "unat c = 0 \<or> unat c = 1 \<or> unat c = 2 \<or> unat c = 3" by auto
  then have "c = 0 \<or> c = 1 \<or> c = 2 \<or> c = 3" by (simp add: word_unat_eq_iff)
  then show thesis using that by blast
qed

lemma counter_value_state: "c \<le> 3 \<Longrightarrow> counter_value (counter_state c) = c"
  by (erule counter_cases) (simp_all add: counter_state_def)

text \<open>The state of the counter after an outcome, and the byte the code stores for it.\<close>

definition next_counter :: "bool \<Rightarrow> u8 \<Rightarrow> u8" where
  "next_counter branch_taken c = counter_value (saturate branch_taken (counter_state c))"

lemma next_counter_le: "next_counter branch_taken c \<le> 3"
  by (cases branch_taken; cases "counter_state c") (simp_all add: next_counter_def)

lemma update_predictor_eq:
  assumes "wf_predictor p"
  shows "update_predictor pc branch_taken p =
    (if strategy (predictor_configuration p) = BimodalTwoBit
     then p\<lparr>counters := (counters p)[table_index p pc :=
       next_counter branch_taken (counters p ! table_index p pc)]\<rparr>
     else p)"
proof (cases "strategy (predictor_configuration p) = BimodalTwoBit")
  case True
  let ?i = "table_index p pc"
  obtain c where c: "counters p ! ?i = c" by simp
  have "c \<in> set (counters p)"
    using table_index_less [OF assms True, of pc] c by auto
  then have "c \<le> 3" using assms by (simp add: wf_predictor_def)
  moreover have "(counters p)[?i := c] = counters p" using c by (metis list_update_id)
  ultimately show ?thesis
    using True c
    by (cases rule: counter_cases; cases branch_taken)
      (simp_all add: update_predictor_def Let_def next_counter_def counter_state_def)
qed (simp add: update_predictor_def)

lemma wf_predictor_update: "wf_predictor p \<Longrightarrow> wf_predictor (update_predictor pc b p)"
  by (auto simp: update_predictor_eq wf_predictor_def next_counter_le
      dest!: set_update_subset_insert [THEN subsetD])

lemma make_branch_predictor_wf: "make_branch_predictor conf = Inr p \<Longrightarrow> wf_predictor p"
  by (auto simp: make_branch_predictor_def wf_predictor_def validate_predictor_def
      is_valid_counter_def split: option.splits if_splits)

lemma wf_predictor_reset: "wf_predictor p \<Longrightarrow> wf_predictor (reset_predictor p)"
  by (auto simp: reset_predictor_def wf_predictor_def validate_predictor_def
      is_valid_counter_def split: if_splits)

text \<open>The conditional branch an observation reports, if any.\<close>

definition branch_of :: "execution_observation \<Rightarrow> bool option" where
  "branch_of ob = (case control_flow ob of
     Some flow \<Rightarrow> if flow_kind flow = ConditionalBranch then Some (taken flow) else None
   | None \<Rightarrow> None)"

lemma observe_branch_eq:
  "observe_branch ob p = (case branch_of ob of
     None \<Rightarrow> p
   | Some b \<Rightarrow> update_predictor (observed_program_counter ob) b
       (p\<lparr>predictor_statistics := record_prediction (predict p (observed_program_counter ob)) b
          (predictor_statistics p)\<rparr>))"
  by (auto simp: observe_branch_def branch_of_def Let_def split: option.splits)

lemma wf_predictor_statistics:
  "wf_predictor p \<Longrightarrow> tallied st \<Longrightarrow> wf_predictor (p\<lparr>predictor_statistics := st\<rparr>)"
  by (simp add: wf_predictor_def)

lemma observe_branch_wf: "wf_predictor p \<Longrightarrow> wf_predictor (observe_branch ob p)"
  by (auto simp: observe_branch_eq wf_predictor_def [THEN iffD1, THEN conjunct2]
      intro!: wf_predictor_update wf_predictor_statistics split: option.splits)

lemma reset_predictor_observe: "reset_predictor (observe_branch ob p) = reset_predictor p"
  by (simp add: reset_predictor_def observe_branch_eq update_predictor_def Let_def split: option.split)

lemma update_predictor_fields [simp]:
  "predictor_statistics (update_predictor pc b p) = predictor_statistics p"
  "predictor_configuration (update_predictor pc b p) = predictor_configuration p"
  "length (counters (update_predictor pc b p)) = length (counters p)"
  by (simp_all add: update_predictor_def Let_def)

lemma predictions_record [simp]:
  "predictions (record_prediction p a st) = predictions st + 1"
  "correct (record_prediction p a st) = correct st + (if p = a then 1 else 0)"
  "incorrect (record_prediction p a st) = incorrect st + (if p = a then 0 else 1)"
  by (simp_all add: record_prediction_def Let_def)

text \<open>
  The refinement: on a conditional branch the model predicts from the state of the branch's
  entry and moves that entry, and no other, one state towards the outcome.
\<close>

lemma observe_branch_refines:
  assumes "wf_predictor p" and "strategy (predictor_configuration p) = BimodalTwoBit"
    and "branch_of ob = Some b" and "i < length (counters p)"
  defines "j \<equiv> unat (observed_program_counter ob) div 4 mod length (counters p)"
  shows "predict p (observed_program_counter ob) \<longleftrightarrow> WeaklyTaken \<le> table p j"
    and "table (observe_branch ob p) i = (if i = j then saturate b (table p j) else table p i)"
proof -
  let ?pc = "observed_program_counter ob"
  let ?p = "p\<lparr>predictor_statistics := record_prediction (predict p ?pc) b (predictor_statistics p)\<rparr>"
  have j: "table_index p ?pc = j" using table_index_eq [OF assms(1,2)] by (simp add: j_def)
  have "counters p ! j \<in> set (counters p)"
    using table_index_less [OF assms(1,2), of ?pc] by (simp add: j)
  then have le: "counters p ! j \<le> 3" using assms(1) by (simp add: wf_predictor_def)
  show "predict p ?pc \<longleftrightarrow> WeaklyTaken \<le> table p j"
    using assms(2) counter_value_state [OF le]
    by (simp add: predict_def table_def j less_eq_two_bit_counter_state_def)
  have wf: "wf_predictor ?p"
    using assms(1) by (intro wf_predictor_statistics) (simp_all add: wf_predictor_def)
  have "table_index ?p ?pc = j" using j by (simp add: table_index_def)
  then show "table (observe_branch ob p) i = (if i = j then saturate b (table p j) else table p i)"
    using assms(2-4)
    by (simp add: observe_branch_eq update_predictor_eq [OF wf] table_def next_counter_def)
qed

section \<open>The model as an observer of the engine\<close>

definition branch_weight :: "execution_observation \<Rightarrow> nat" where
  "branch_weight ob = (if branch_of ob = None then 0 else 1)"

interpretation branches: unit_observer observe_branch wf_predictor
  "\<lambda>p. predictions (predictor_statistics p)" branch_weight
proof
  show "wf_predictor (observe_branch ob s)" if "wf_predictor s" for ob s
    using that by (rule observe_branch_wf)
  show "predictions (predictor_statistics (observe_branch ob s)) =
      predictions (predictor_statistics s) + of_nat (branch_weight ob)" for ob s
    by (auto simp: observe_branch_eq branch_weight_def split: option.splits)
qed (simp add: branch_weight_def)

interpretation correct_predictions: bounded_observer observe_branch wf_predictor
  "\<lambda>p. correct (predictor_statistics p)"
  by unfold_locales (simp_all add: observe_branch_wf observe_branch_eq split: option.split)

interpretation mispredictions: bounded_observer observe_branch wf_predictor
  "\<lambda>p. incorrect (predictor_statistics p)"
  by unfold_locales (simp_all add: observe_branch_wf observe_branch_eq split: option.split)

section \<open>Properties\<close>

definition sample_bimodal :: branch_predictor_configuration where
  "sample_bimodal = \<lparr>strategy = BimodalTwoBit, table_entries = 4, initial_counter = 0\<rparr>"

definition sample_predictor :: branch_predictor where
  "sample_predictor = \<lparr>predictor_configuration = sample_bimodal, counters = [0, 0, 0, 0],
     predictor_statistics = zero_predictions\<rparr>"

lemma make_sample_predictor: "make_branch_predictor sample_bimodal = Inr sample_predictor"
  by code_simp

lemma wf_sample_predictor: "wf_predictor sample_predictor"
  using make_sample_predictor by (rule make_branch_predictor_wf)

definition sample_branch :: "u32 \<Rightarrow> bool \<Rightarrow> execution_observation" where
  "sample_branch pc b = \<lparr>instruction = default_instruction, observed_program_counter = pc,
     next_program_counter = pc + 4, data_memory_access = None,
     control_flow = Some \<lparr>flow_kind = ConditionalBranch, taken = b\<rparr>\<rparr>"

lemma branch_of_sample [simp]: "branch_of (sample_branch pc b) = Some b"
  "observed_program_counter (sample_branch pc b) = pc"
  by (simp_all add: branch_of_def sample_branch_def)

text \<open>
  C15: the bimodal predictor is a table of two-bit saturating counters, indexed by the word
  address modulo the table size: a branch is predicted taken exactly in the two taken states,
  an observed branch moves its counter one state towards the outcome, and no other counter.
\<close>

theorem bimodal_refines_table:
  assumes "wf_predictor p" and "strategy (predictor_configuration p) = BimodalTwoBit"
    and "branch_of ob = Some b"
  shows "predict p (observed_program_counter ob) =
      (WeaklyTaken \<le> table p (unat (observed_program_counter ob) div 4 mod length (counters p))) \<and>
    (\<forall>i < length (counters p). table (observe_branch ob p) i =
      (if i = unat (observed_program_counter ob) div 4 mod length (counters p)
       then saturate b (table p i) else table p i))"
proof (cases "counters p = []")
  case True
  with table_index_less [OF assms(1,2)] show ?thesis by simp
next
  case False
  then have "0 < length (counters p)" by simp
  then show ?thesis
    using observe_branch_refines [OF assms(1,2,3)] by auto
qed

lemma bimodal_refines_table_witness:
  "table (observe_branch (sample_branch 8 True) sample_predictor) 2 = WeaklyNotTaken \<and>
   table (observe_branch (sample_branch 8 True) sample_predictor) 3 = StronglyNotTaken"
proof -
  have "strategy (predictor_configuration sample_predictor) = BimodalTwoBit"
    "length (counters sample_predictor) = 4" "table sample_predictor 2 = StronglyNotTaken"
    "table sample_predictor 3 = StronglyNotTaken" by code_simp+
  with bimodal_refines_table [OF wf_sample_predictor, of "sample_branch 8 True" True] show ?thesis
    by simp
qed

text \<open>
  The predictor learns, and a single surprise does not unlearn it. From any well-formed
  state, a branch that was taken twice in a row is predicted taken; and one that was taken three
  times in a row still is after it was not taken once.
\<close>

theorem bimodal_hysteresis:
  assumes "wf_predictor p" and "strategy (predictor_configuration p) = BimodalTwoBit"
    and "\<forall>ob \<in> {ob1, ob2, ob3, ob4}. observed_program_counter ob = pc"
    and "branch_of ob1 = Some True" "branch_of ob2 = Some True" "branch_of ob3 = Some True"
    and "branch_of ob4 = Some False"
  shows "predict (observe_branch ob2 (observe_branch ob1 p)) pc \<and>
    predict (observe_branch ob4 (observe_branch ob3 (observe_branch ob2 (observe_branch ob1 p)))) pc"
proof -
  let ?i = "unat pc div 4 mod length (counters p)"
  have keep: "strategy (predictor_configuration (observe_branch ob q)) = BimodalTwoBit"
    "length (counters (observe_branch ob q)) = length (counters q)"
    if "strategy (predictor_configuration q) = BimodalTwoBit" for ob q
    using that by (simp_all add: observe_branch_eq split: option.split)
  have step: "table (observe_branch ob q) ?i = saturate b (table q ?i)"
    if "wf_predictor q" "strategy (predictor_configuration q) = BimodalTwoBit"
      "length (counters q) = length (counters p)" "observed_program_counter ob = pc"
      "branch_of ob = Some b" for ob q b
  proof -
    have "0 < length (counters q)" using table_index_less [OF that(1,2), of pc] by linarith
    then have "?i < length (counters q)" using that(3) by simp
    from observe_branch_refines(2) [OF that(1,2,5) this] that(3,4) show ?thesis by simp
  qed
  have pred: "predict q pc \<longleftrightarrow> WeaklyTaken \<le> table q ?i"
    if "wf_predictor q" "strategy (predictor_configuration q) = BimodalTwoBit"
      "length (counters q) = length (counters p)" for q
  proof -
    have "0 < length (counters q)" using table_index_less [OF that(1,2), of pc] by linarith
    from observe_branch_refines(1) [OF that(1,2) branch_of_sample(1) this, of pc True] that(3)
    show ?thesis by simp
  qed
  show ?thesis
    using assms by (cases "table p ?i")
      (simp_all add: pred step [where b = True] step [where b = False] keep observe_branch_wf less_eq_two_bit_counter_state_def)
qed

lemma bimodal_hysteresis_witness:
  "predict (observe_branch (sample_branch 8 True) (observe_branch (sample_branch 8 True)
     sample_predictor)) 8"
proof -
  have "strategy (predictor_configuration sample_predictor) = BimodalTwoBit" by code_simp
  from bimodal_hysteresis [OF wf_sample_predictor this, of "sample_branch 8 True" "sample_branch 8 True"
    "sample_branch 8 True" "sample_branch 8 False" 8] show ?thesis by simp
qed

end
