(* ===== verification/Cycle_Estimator.thy ===== *)
theory Cycle_Estimator
  imports Prelude
begin

text \<open>
  The cycle estimate: \<^verbatim>\<open>class CycleEstimator\<close> of
  \<^verbatim>\<open>include/rvemu/cycle_estimator.hpp\<close> and
  \<^verbatim>\<open>src/cycle_estimator.cpp\<close>. All quantities are 64-bit words; the theorems
  read them as natural numbers.
\<close>

section \<open>Data and code\<close>

record cycle_cost_configuration =
  base_instruction_cycles :: u64
  instruction_cache_miss_penalty_cycles :: u64
  data_cache_miss_penalty_cycles :: u64
  branch_misprediction_penalty_cycles :: u64

text \<open>The member initialisers.\<close>

definition default_cycle_costs :: cycle_cost_configuration where
  "default_cycle_costs = \<lparr>base_instruction_cycles = 1, instruction_cache_miss_penalty_cycles = 0,
     data_cache_miss_penalty_cycles = 0, branch_misprediction_penalty_cycles = 0\<rparr>"

datatype cycle_cost_configuration_error_code = ZeroBaseInstructionCycles

record cycle_event_counts =
  instructions :: u64
  instruction_cache_misses :: u64
  data_cache_misses :: u64
  branch_mispredictions :: u64

datatype cycle_estimate_error_code =
    BaseInstructionCostOverflow
  | InstructionCacheMissCostOverflow
  | DataCacheMissCostOverflow
  | BranchMispredictionCostOverflow
  | TotalOverflow

record cycle_estimate =
  estimated_base_cycles :: u64
  instruction_cache_miss_cycles :: u64
  data_cache_miss_cycles :: u64
  branch_misprediction_cycles :: u64
  total_cycles :: u64

definition checked_multiply :: "u64 \<Rightarrow> u64 \<Rightarrow> u64 option" where
  "checked_multiply left right =
     (if left \<noteq> 0 \<and> right > - 1 div left then None else Some (left * right))"

definition checked_add :: "u64 \<Rightarrow> u64 \<Rightarrow> u64 option" where
  "checked_add accumulated v = (if v > - 1 - accumulated then None else Some (accumulated + v))"

fun cycle_cost_configuration_error_message :: "cycle_cost_configuration_error_code \<Rightarrow> string" where
  "cycle_cost_configuration_error_message ZeroBaseInstructionCycles =
     ''base instruction cycle cost must be positive''"

fun cycle_estimate_error_message :: "cycle_estimate_error_code \<Rightarrow> string" where
  "cycle_estimate_error_message BaseInstructionCostOverflow =
     ''base instruction cycle cost overflow''"
| "cycle_estimate_error_message InstructionCacheMissCostOverflow =
     ''instruction-cache miss cycle cost overflow''"
| "cycle_estimate_error_message DataCacheMissCostOverflow =
     ''data-cache miss cycle cost overflow''"
| "cycle_estimate_error_message BranchMispredictionCostOverflow =
     ''branch-misprediction cycle cost overflow''"
| "cycle_estimate_error_message TotalOverflow = ''total estimated cycle count overflow''"

definition make_cycle_estimator ::
  "cycle_cost_configuration \<Rightarrow> cycle_cost_configuration_error_code + cycle_cost_configuration" where
  "make_cycle_estimator conf =
     (if base_instruction_cycles conf = 0 then Inl ZeroBaseInstructionCycles else Inr conf)"

definition estimate ::
  "cycle_cost_configuration \<Rightarrow> cycle_event_counts \<Rightarrow> cycle_estimate_error_code + cycle_estimate" where
  "estimate conf ev =
     (case checked_multiply (instructions ev) (base_instruction_cycles conf) of
        None \<Rightarrow> Inl BaseInstructionCostOverflow
      | Some base \<Rightarrow>
     (case checked_multiply (instruction_cache_misses ev)
         (instruction_cache_miss_penalty_cycles conf) of
        None \<Rightarrow> Inl InstructionCacheMissCostOverflow
      | Some icache \<Rightarrow>
     (case checked_multiply (data_cache_misses ev) (data_cache_miss_penalty_cycles conf) of
        None \<Rightarrow> Inl DataCacheMissCostOverflow
      | Some dcache \<Rightarrow>
     (case checked_multiply (branch_mispredictions ev)
         (branch_misprediction_penalty_cycles conf) of
        None \<Rightarrow> Inl BranchMispredictionCostOverflow
      | Some branch \<Rightarrow>
     (case Option.bind (Option.bind (checked_add base icache) (\<lambda>acc. checked_add acc dcache))
         (\<lambda>acc. checked_add acc branch) of
        None \<Rightarrow> Inl TotalOverflow
      | Some whole \<Rightarrow> Inr \<lparr>estimated_base_cycles = base, instruction_cache_miss_cycles = icache,
          data_cache_miss_cycles = dcache, branch_misprediction_cycles = branch,
          total_cycles = whole\<rparr>)))))"

section \<open>The checked operations are exact\<close>

lemma checked_multiply_eq:
  "checked_multiply a b = (if unat a * unat b < 2 ^ 64 then Some (a * b) else None)"
proof (cases "a = 0")
  case False
  then have a: "0 < unat a" by (simp add: unat_gt_0)
  have "b > - 1 div a \<longleftrightarrow> (2 ^ 64 - 1) div unat a < unat b"
    by (simp only: word_less_nat_alt unat_div unat_max_64)
  also have "\<dots> \<longleftrightarrow> 2 ^ 64 - 1 < unat b * unat a"
    using a by (rule div_less_iff_less_mult)
  also have "\<dots> \<longleftrightarrow> \<not> unat a * unat b < 2 ^ 64" by (auto simp: mult.commute)
  finally show ?thesis using False by (simp add: checked_multiply_def)
qed (simp add: checked_multiply_def)

lemma checked_add_eq:
  "checked_add a b = (if unat a + unat b < 2 ^ 64 then Some (a + b) else None)"
proof -
  have "unat (- 1 - a) = 2 ^ 64 - 1 - unat a"
    by (subst unat_sub) (simp_all add: unat_max_64)
  then have "b > - 1 - a \<longleftrightarrow> \<not> unat a + unat b < 2 ^ 64"
    using unat_lt_2_64 [of a] by (auto simp: word_less_nat_alt)
  then show ?thesis by (simp add: checked_add_def)
qed

lemma unat_add_exact: "unat (a :: u64) + unat b < 2 ^ 64 \<Longrightarrow> unat (a + b) = unat a + unat b"
  by (simp add: unat_word_ariths)

section \<open>Specification over the natural numbers\<close>

text \<open>The four costs of a configuration and a set of event counts.\<close>

definition base_cost :: "cycle_cost_configuration \<Rightarrow> cycle_event_counts \<Rightarrow> nat" where
  "base_cost conf ev = unat (instructions ev) * unat (base_instruction_cycles conf)"

definition icache_cost :: "cycle_cost_configuration \<Rightarrow> cycle_event_counts \<Rightarrow> nat" where
  "icache_cost conf ev =
     unat (instruction_cache_misses ev) * unat (instruction_cache_miss_penalty_cycles conf)"

definition dcache_cost :: "cycle_cost_configuration \<Rightarrow> cycle_event_counts \<Rightarrow> nat" where
  "dcache_cost conf ev = unat (data_cache_misses ev) * unat (data_cache_miss_penalty_cycles conf)"

definition branch_cost :: "cycle_cost_configuration \<Rightarrow> cycle_event_counts \<Rightarrow> nat" where
  "branch_cost conf ev =
     unat (branch_mispredictions ev) * unat (branch_misprediction_penalty_cycles conf)"

definition total_cost :: "cycle_cost_configuration \<Rightarrow> cycle_event_counts \<Rightarrow> nat" where
  "total_cost conf ev =
     base_cost conf ev + icache_cost conf ev + dcache_cost conf ev + branch_cost conf ev"

lemmas cost_defs = base_cost_def icache_cost_def dcache_cost_def branch_cost_def total_cost_def

lemma estimate_exact:
  assumes "total_cost conf ev < 2 ^ 64"
  shows "\<exists>r. estimate conf ev = Inr r \<and> unat (estimated_base_cycles r) = base_cost conf ev \<and>
    unat (instruction_cache_miss_cycles r) = icache_cost conf ev \<and>
    unat (data_cache_miss_cycles r) = dcache_cost conf ev \<and>
    unat (branch_misprediction_cycles r) = branch_cost conf ev \<and>
    unat (total_cycles r) = total_cost conf ev"
proof -
  let ?b = "instructions ev * base_instruction_cycles conf"
  let ?i = "instruction_cache_misses ev * instruction_cache_miss_penalty_cycles conf"
  let ?d = "data_cache_misses ev * data_cache_miss_penalty_cycles conf"
  let ?p = "branch_mispredictions ev * branch_misprediction_penalty_cycles conf"
  have b: "unat ?b = base_cost conf ev" and i: "unat ?i = icache_cost conf ev"
    and d: "unat ?d = dcache_cost conf ev" and p: "unat ?p = branch_cost conf ev"
    using assms unfolding cost_defs by (simp_all add: unat_mult_exact)
  have s1: "unat (?b + ?i) = base_cost conf ev + icache_cost conf ev"
    using assms b i by (subst unat_add_exact) (simp_all add: total_cost_def)
  have s2: "unat (?b + ?i + ?d) = base_cost conf ev + icache_cost conf ev + dcache_cost conf ev"
    using assms s1 d by (subst unat_add_exact) (simp_all add: total_cost_def)
  have s3: "unat (?b + ?i + ?d + ?p) = total_cost conf ev"
    using assms s2 p by (subst unat_add_exact) (simp_all add: total_cost_def)
  have m: "checked_multiply (instructions ev) (base_instruction_cycles conf) = Some ?b"
    "checked_multiply (instruction_cache_misses ev)
      (instruction_cache_miss_penalty_cycles conf) = Some ?i"
    "checked_multiply (data_cache_misses ev) (data_cache_miss_penalty_cycles conf) = Some ?d"
    "checked_multiply (branch_mispredictions ev)
      (branch_misprediction_penalty_cycles conf) = Some ?p"
    using assms unfolding cost_defs by (simp_all add: checked_multiply_eq)
  have a: "checked_add ?b ?i = Some (?b + ?i)" "checked_add (?b + ?i) ?d = Some (?b + ?i + ?d)"
    "checked_add (?b + ?i + ?d) ?p = Some (?b + ?i + ?d + ?p)"
    using assms b i d p s1 s2 by (simp_all add: checked_add_eq total_cost_def)
  have "estimate conf ev = Inr \<lparr>estimated_base_cycles = ?b, instruction_cache_miss_cycles = ?i,
      data_cache_miss_cycles = ?d, branch_misprediction_cycles = ?p,
      total_cycles = ?b + ?i + ?d + ?p\<rparr>"
    by (simp add: estimate_def m a)
  then show ?thesis using b i d p s3 by simp
qed

lemma estimate_overflow:
  assumes "estimate conf ev = Inr r"
  shows "total_cost conf ev < 2 ^ 64"
  using assms
  by (auto simp: estimate_def checked_multiply_eq checked_add_eq cost_defs unat_mult_exact
      unat_add_exact split: option.splits if_splits bind_splits)

text \<open>Which error is reported: the first product that overflows, else the sum.\<close>

lemma estimate_error:
  assumes "estimate conf ev = Inl e"
  shows "e = (if 2 ^ 64 \<le> base_cost conf ev then BaseInstructionCostOverflow
    else if 2 ^ 64 \<le> icache_cost conf ev then InstructionCacheMissCostOverflow
    else if 2 ^ 64 \<le> dcache_cost conf ev then DataCacheMissCostOverflow
    else if 2 ^ 64 \<le> branch_cost conf ev then BranchMispredictionCostOverflow
    else TotalOverflow)"
  using assms
  by (auto simp: estimate_def checked_multiply_eq cost_defs split: option.splits if_splits)

section \<open>Properties\<close>

text \<open>
  C34: the cycle estimate is exact or refused. It is returned exactly if the mathematical total
  is below \<open>2 ^ 64\<close>, with every part and the total exact; otherwise the error names the first
  product that overflows, or the sum.
\<close>

theorem estimate_exact_or_refused:
  "case estimate conf ev of
     Inr r \<Rightarrow> total_cost conf ev < 2 ^ 64 \<and> unat (total_cycles r) = total_cost conf ev \<and>
       unat (estimated_base_cycles r) = base_cost conf ev \<and>
       unat (instruction_cache_miss_cycles r) = icache_cost conf ev \<and>
       unat (data_cache_miss_cycles r) = dcache_cost conf ev \<and>
       unat (branch_misprediction_cycles r) = branch_cost conf ev
   | Inl e \<Rightarrow> 2 ^ 64 \<le> total_cost conf ev \<and>
       e = (if 2 ^ 64 \<le> base_cost conf ev then BaseInstructionCostOverflow
            else if 2 ^ 64 \<le> icache_cost conf ev then InstructionCacheMissCostOverflow
            else if 2 ^ 64 \<le> dcache_cost conf ev then DataCacheMissCostOverflow
            else if 2 ^ 64 \<le> branch_cost conf ev then BranchMispredictionCostOverflow
            else TotalOverflow)"
proof (cases "estimate conf ev")
  case (Inl e)
  then have "2 ^ 64 \<le> total_cost conf ev"
    using estimate_exact [of conf ev] by (auto simp: not_less [symmetric])
  with Inl estimate_error [OF Inl] show ?thesis by simp
next
  case (Inr r)
  with estimate_exact [OF estimate_overflow [OF Inr]] estimate_overflow [OF Inr] show ?thesis by auto
qed

end
