(* ===== verification/Performance_Analyzer.thy ===== *)
theory Performance_Analyzer
  imports Cache_Model Branch_Predictor Cycle_Estimator
begin

text \<open>
  The performance analyzer: \<^verbatim>\<open>class PerformanceAnalyzer\<close> of
  \<^verbatim>\<open>include/rvemu/performance_analyzer.hpp\<close> and
  \<^verbatim>\<open>src/performance_analyzer.cpp\<close>. It observes the engine with the cache and the
  branch predictor models and turns their counters into a cycle estimate.
\<close>

section \<open>Data and code\<close>

record analyzer_configuration =
  cache_part :: split_cache_configuration
  branch_predictor_part :: branch_predictor_configuration
  cycle_costs_part :: cycle_cost_configuration

datatype analyzer_error =
    CacheError cache_configuration_error_code
  | PredictorError branch_predictor_configuration_error_code
  | CostError cycle_cost_configuration_error_code

record analyzer =
  analyzer_configuration_of :: analyzer_configuration
  cache_model :: split_cache
  predictor_model :: branch_predictor
  cycle_estimator :: cycle_cost_configuration
  instructions_observed :: u64

text \<open>The constructor: the members are built in order, the first exception escapes.\<close>

definition make_analyzer :: "analyzer_configuration \<Rightarrow> analyzer_error + analyzer" where
  "make_analyzer conf =
     and_then (map_sum CacheError id (make_split_cache (cache_part conf))) (\<lambda>c.
     and_then (map_sum PredictorError id (make_branch_predictor (branch_predictor_part conf))) (\<lambda>p.
     and_then (map_sum CostError id (make_cycle_estimator (cycle_costs_part conf))) (\<lambda>e.
       Inr \<lparr>analyzer_configuration_of = conf, cache_model = c, predictor_model = p,
         cycle_estimator = e, instructions_observed = 0\<rparr>)))"

definition observe_analyzer :: "execution_observation \<Rightarrow> analyzer \<Rightarrow> analyzer" where
  "observe_analyzer ob a = a\<lparr>cache_model := observe_split ob (cache_model a),
     predictor_model := observe_branch ob (predictor_model a),
     instructions_observed := instructions_observed a + 1\<rparr>"

definition reset_analyzer :: "analyzer \<Rightarrow> analyzer" where
  "reset_analyzer a = a\<lparr>cache_model := reset_split (cache_model a),
     predictor_model := reset_predictor (predictor_model a), instructions_observed := 0\<rparr>"

record analyzer_statistics =
  observed_instructions :: u64
  cache_summary :: split_cache_statistics
  prediction_summary :: branch_prediction_statistics

definition analyzer_statistics_of :: "analyzer \<Rightarrow> analyzer_statistics" where
  "analyzer_statistics_of a = \<lparr>observed_instructions = instructions_observed a,
     cache_summary = split_statistics (cache_model a),
     prediction_summary = predictor_statistics (predictor_model a)\<rparr>"

definition event_counts :: "analyzer_statistics \<Rightarrow> cycle_event_counts" where
  "event_counts st = \<lparr>instructions = observed_instructions st,
     instruction_cache_misses = misses (instruction_statistics (cache_summary st)),
     data_cache_misses = misses (data_total (data_statistics (cache_summary st))),
     branch_mispredictions = incorrect (prediction_summary st)\<rparr>"

definition estimate_cycles :: "analyzer \<Rightarrow> cycle_estimate_error_code + cycle_estimate" where
  "estimate_cycles a = estimate (cycle_estimator a) (event_counts (analyzer_statistics_of a))"

section \<open>Invariant\<close>

text \<open>Both models are well formed, and every observed instruction was fetched once.\<close>

definition wf_analyzer :: "analyzer \<Rightarrow> bool" where
  "wf_analyzer a \<longleftrightarrow> wf_split (cache_model a) \<and> wf_predictor (predictor_model a) \<and>
     accesses (cache_stats (instruction_cache (cache_model a))) = instructions_observed a"

lemma fetches_split:
  "wf_split c \<Longrightarrow> accesses (cache_stats (instruction_cache (observe_split ob c))) =
     accesses (cache_stats (instruction_cache c)) + 1"
  using fetches.observe_events [of c ob] by simp

lemma observe_analyzer_wf: "wf_analyzer a \<Longrightarrow> wf_analyzer (observe_analyzer ob a)"
  by (simp add: wf_analyzer_def observe_analyzer_def observe_split_wf observe_branch_wf fetches_split)

lemma make_analyzer_wf:
  assumes "make_analyzer conf = Inr a"
  shows "wf_analyzer a" and "instructions_observed a = 0"
    and "predictions (predictor_statistics (predictor_model a)) = 0"
proof -
  from assms obtain c p e where c: "make_split_cache (cache_part conf) = Inr c"
    and p: "make_branch_predictor (branch_predictor_part conf) = Inr p"
    and a: "a = \<lparr>analyzer_configuration_of = conf, cache_model = c, predictor_model = p,
      cycle_estimator = e, instructions_observed = 0\<rparr>"
    by (auto simp: make_analyzer_def and_then_eq_iffs map_sum_def split: sum.splits)
  have "cache_stats (instruction_cache c) = zero_statistics"
    using c by (auto simp: make_split_cache_def and_then_eq_iffs make_cache_wf)
  then show "wf_analyzer a"
    using make_split_cache_wf [OF c] make_branch_predictor_wf [OF p]
    by (simp add: wf_analyzer_def a zero_statistics_def)
  show "instructions_observed a = 0" by (simp add: a)
  show "predictions (predictor_statistics (predictor_model a)) = 0"
    using p by (auto simp: a make_branch_predictor_def zero_predictions_def split: option.splits)
qed

lemma reset_analyzer_wf: "wf_analyzer a \<Longrightarrow> wf_analyzer (reset_analyzer a)"
  by (simp add: wf_analyzer_def reset_analyzer_def reset_split_wf wf_predictor_reset)
    (simp add: reset_split_def reset_cache_def zero_statistics_def)

text \<open>Resetting an analyzer forgets whatever it has observed.\<close>

lemma reset_analyzer_observe:
  "wf_analyzer a \<Longrightarrow> reset_analyzer (observe_analyzer ob a) = reset_analyzer a"
  by (simp add: reset_analyzer_def observe_analyzer_def wf_analyzer_def reset_split_observe
      reset_predictor_observe)

lemma reset_analyzer_observations:
  "wf_analyzer a \<Longrightarrow> reset_analyzer (fold (notify (Some observe_analyzer)) tr a) = reset_analyzer a"
  by (induction tr arbitrary: a)
    (simp_all add: notify_def observe_analyzer_wf reset_analyzer_observe)

lemma reset_analyzer_idem [simp]: "reset_analyzer (reset_analyzer a) = reset_analyzer a"
  by (simp add: reset_analyzer_def reset_split_def reset_cache_def reset_predictor_def)

section \<open>The analyzer as an observer of the engine\<close>

interpretation analyzer: unit_observer observe_analyzer wf_analyzer
  instructions_observed "\<lambda>_. 1"
  by unfold_locales (simp_all add: observe_analyzer_wf, simp add: observe_analyzer_def)

interpretation analyzer_branches: unit_observer observe_analyzer wf_analyzer
  "\<lambda>a. predictions (predictor_statistics (predictor_model a))" branch_weight
  by unfold_locales (simp_all add: observe_analyzer_def wf_analyzer_def branches.observe_events
      branches.weight_le del: One_nat_def)

interpretation analyzer_loads: unit_observer observe_analyzer wf_analyzer
  "\<lambda>a. accesses (load_statistics (cache_model a))" "access_weight LoadAccess"
  by unfold_locales (simp_all add: observe_analyzer_def wf_analyzer_def loads.observe_events
      split: option.split)

interpretation analyzer_stores: unit_observer observe_analyzer wf_analyzer
  "\<lambda>a. accesses (store_statistics (cache_model a))" "access_weight StoreAccess"
  by unfold_locales (simp_all add: observe_analyzer_def wf_analyzer_def stores.observe_events
      split: option.split)

interpretation analyzer_fetch_hits: bounded_observer observe_analyzer wf_analyzer
  "\<lambda>a. hits (cache_stats (instruction_cache (cache_model a)))"
  using fetch_hits.observe_bounded
  by unfold_locales (simp add: observe_analyzer_def wf_analyzer_def)

interpretation analyzer_fetch_misses: bounded_observer observe_analyzer wf_analyzer
  "\<lambda>a. misses (cache_stats (instruction_cache (cache_model a)))"
  using fetch_misses.observe_bounded
  by unfold_locales (simp add: observe_analyzer_def wf_analyzer_def)

interpretation analyzer_data_hits: bounded_observer observe_analyzer wf_analyzer
  "\<lambda>a. hits (cache_stats (data_cache (cache_model a)))"
  using data_hits.observe_bounded
  by unfold_locales (simp add: observe_analyzer_def wf_analyzer_def)

interpretation analyzer_data_misses: bounded_observer observe_analyzer wf_analyzer
  "\<lambda>a. misses (cache_stats (data_cache (cache_model a)))"
  using data_misses.observe_bounded
  by unfold_locales (simp add: observe_analyzer_def wf_analyzer_def)

interpretation analyzer_correct_predictions: bounded_observer observe_analyzer wf_analyzer
  "\<lambda>a. correct (predictor_statistics (predictor_model a))"
  using correct_predictions.observe_bounded
  by unfold_locales (simp add: observe_analyzer_def wf_analyzer_def)

interpretation analyzer_mispredictions: bounded_observer observe_analyzer wf_analyzer
  "\<lambda>a. incorrect (predictor_statistics (predictor_model a))"
  using mispredictions.observe_bounded
  by unfold_locales (simp add: observe_analyzer_def wf_analyzer_def)

text \<open>The events that are charged, of an analyzer that has observed a run since a reset.\<close>

lemma reset_analyzer_counts:
  "event_counts (analyzer_statistics_of (reset_analyzer a)) =
     \<lparr>instructions = 0, instruction_cache_misses = 0, data_cache_misses = 0, branch_mispredictions = 0\<rparr>"
  by (simp add: event_counts_def analyzer_statistics_of_def split_statistics_def reset_analyzer_def
      reset_split_def reset_cache_def reset_predictor_def zero_statistics_def zero_predictions_def)

lemma observed_cycle_estimator:
  "cycle_estimator (fold (notify (Some observe_analyzer)) tr a) = cycle_estimator a"
  by (induction tr arbitrary: a) (simp_all add: notify_def observe_analyzer_def)

lemma charged_events_bounded:
  assumes "retires (Some observe_analyzer) e tr e'" and "wf_analyzer a"
    and "observer e = reset_analyzer a"
  defines "ev \<equiv> event_counts (analyzer_statistics_of (observer e'))"
  shows "instructions ev = of_nat (length tr)" and "unat (instruction_cache_misses ev) \<le> length tr"
    and "unat (data_cache_misses ev) \<le> length tr" and "unat (branch_mispredictions ev) \<le> length tr"
proof -
  have wf: "wf_analyzer (observer e)" by (simp add: assms(3) reset_analyzer_wf [OF assms(2)])
  note zero = reset_analyzer_counts [of a, folded assms(3),
    unfolded event_counts_def analyzer_statistics_of_def split_statistics_def, simplified]
  note ev = ev_def event_counts_def analyzer_statistics_of_def split_statistics_def
  show "instructions ev = of_nat (length tr)"
    using analyzer.retires_events [OF assms(1) wf] zero by (simp add: ev sum_list_triv)
  show "unat (instruction_cache_misses ev) \<le> length tr"
    using analyzer_fetch_misses.retires_bounded [OF assms(1) wf] zero by (simp add: ev)
  show "unat (data_cache_misses ev) \<le> length tr"
    using analyzer_data_misses.retires_bounded [OF assms(1) wf] zero by (simp add: ev)
  show "unat (branch_mispredictions ev) \<le> length tr"
    using analyzer_mispredictions.retires_bounded [OF assms(1) wf] zero by (simp add: ev)
qed

text \<open>Below the range of the counters the parts of every statistic add up as numbers.\<close>

lemma unat_sum_bounded:
  fixes a b c :: u64
  assumes "a + b = c" and "unat a \<le> n" and "unat b \<le> n" and "n < 2 ^ 63"
  shows "unat c = unat a + unat b"
proof -
  have "unat a + unat b < 2 ^ LENGTH(64)" using assms(2-4) by simp
  then show ?thesis using assms(1) unat_add_lem by blast
qed

lemma statistics_add_up:
  assumes "retires (Some observe_analyzer) e tr e'" and "wf_analyzer a"
    and "observer e = reset_analyzer a" and "length tr < 2 ^ 63"
  defines "st \<equiv> analyzer_statistics_of (observer e')"
  defines "i \<equiv> instruction_statistics (cache_summary st)"
    and "d \<equiv> data_total (data_statistics (cache_summary st))" and "p \<equiv> prediction_summary st"
  shows "unat (accesses i) = unat (hits i) + unat (misses i)"
    and "unat (accesses d) = unat (hits d) + unat (misses d)"
    and "unat (predictions p) = unat (correct p) + unat (incorrect p)"
    and "unat (hits i) \<le> length tr" and "unat (hits d) \<le> length tr"
    and "unat (predictions p) \<le> length tr"
proof -
  have wf: "wf_analyzer (observer e)" by (simp add: assms(3) reset_analyzer_wf [OF assms(2)])
  have zero: "hits (cache_stats (instruction_cache (cache_model (observer e)))) = 0"
    "hits (cache_stats (data_cache (cache_model (observer e)))) = 0"
    "correct (predictor_statistics (predictor_model (observer e))) = 0"
    "predictions (predictor_statistics (predictor_model (observer e))) = 0"
    by (simp_all add: assms(3) reset_analyzer_def reset_split_def reset_cache_def reset_predictor_def
        zero_statistics_def zero_predictions_def)
  note st = st_def i_def d_def p_def analyzer_statistics_of_def split_statistics_def
  have bound: "unat (hits i) \<le> length tr" "unat (hits d) \<le> length tr" "unat (correct p) \<le> length tr"
    using analyzer_fetch_hits.retires_bounded [OF assms(1) wf]
      analyzer_data_hits.retires_bounded [OF assms(1) wf]
      analyzer_correct_predictions.retires_bounded [OF assms(1) wf] zero by (simp_all add: st)
  show "unat (hits i) \<le> length tr" "unat (hits d) \<le> length tr" by (fact bound)+
  show "unat (predictions p) \<le> length tr"
    using analyzer_branches.retires_bounded [OF assms(1) wf] zero by (simp add: st)
  note missed = charged_events_bounded(2-4) [OF assms(1-3)]
  then have bound': "unat (misses i) \<le> length tr" "unat (misses d) \<le> length tr"
    "unat (incorrect p) \<le> length tr" by (simp_all add: st event_counts_def)
  have "wf_analyzer (observer e')" using analyzer.retires_valid [OF assms(1) wf] .
  then have sum: "hits i + misses i = accesses i" "hits d + misses d = accesses d"
    "correct p + incorrect p = predictions p"
    by (auto simp: st wf_analyzer_def wf_split_def balanced_def wf_predictor_def tallied_def)
  show "unat (accesses i) = unat (hits i) + unat (misses i)"
    and "unat (accesses d) = unat (hits d) + unat (misses d)"
    and "unat (predictions p) = unat (correct p) + unat (incorrect p)"
    using unat_sum_bounded [OF sum(1) bound(1) bound'(1) assms(4)]
      unat_sum_bounded [OF sum(2) bound(2) bound'(2) assms(4)]
      unat_sum_bounded [OF sum(3) bound(3) bound'(3) assms(4)] .
qed

section \<open>Properties\<close>

definition sample_analysis :: analyzer_configuration where
  "sample_analysis = \<lparr>cache_part = \<lparr>instruction_configuration = sample_configuration 1,
       data_configuration = sample_configuration 2\<rparr>,
     branch_predictor_part = sample_bimodal, cycle_costs_part = default_cycle_costs\<rparr>"

lemma make_sample_analyzer: "\<exists>a. make_analyzer sample_analysis = Inr a"
proof -
  have "make_cycle_estimator default_cycle_costs = Inr default_cycle_costs" by code_simp
  then show ?thesis
    by (simp add: make_analyzer_def sample_analysis_def make_split_cache_def make_sample_cache
        make_sample_predictor)
qed

lemma analyzer_trace:
  assumes "make_analyzer conf = Inr a" and "observer e = a"
    and "retires (Some observe_analyzer) e tr e'"
  shows "wf_analyzer (observer e')"
    and "instructions_observed (observer e') = of_nat (length tr)"
    and "predictions (predictor_statistics (predictor_model (observer e'))) =
      of_nat (length (filter (\<lambda>ob. branch_of ob \<noteq> None) tr))"
proof -
  note fresh = make_analyzer_wf [OF assms(1)]
  have wf: "wf_analyzer (observer e)" using fresh(1) assms(2) by simp
  show "wf_analyzer (observer e')" using analyzer.retires_valid [OF assms(3) wf] .
  have one: "(\<Sum>_\<leftarrow>tr. Suc 0) = length tr" by (induction tr) simp_all
  show "instructions_observed (observer e') = of_nat (length tr)"
    using analyzer.retires_events [OF assms(3) wf] fresh(2) assms(2) by (simp add: one)
  have "sum_list (map branch_weight tr) = length (filter (\<lambda>ob. branch_of ob \<noteq> None) tr)"
    by (induction tr) (auto simp: branch_weight_def)
  then show "predictions (predictor_statistics (predictor_model (observer e'))) =
      of_nat (length (filter (\<lambda>ob. branch_of ob \<noteq> None) tr))"
    using analyzer_branches.retires_events [OF assms(3) wf] fresh(3) assms(2) by simp
qed

text \<open>
  The analyzer accounts for a run. With a new analyzer observing a bounded run, it counts
  the retired instructions, each with one instruction fetch, and the retired conditional
  branches, each with one prediction; hits and misses add up to accesses in every cache, and the
  data accesses are the loads and the stores.
\<close>

theorem analyzer_accounts_run:
  assumes "make_analyzer conf = Inr (observer e)"
    and "run (Some observe_analyzer) limit e = Some (r, e')"
  shows "\<exists>tr. retires (Some observe_analyzer) e tr e' \<and> length tr \<le> limit \<and>
    instructions_observed (observer e') = of_nat (length tr) \<and>
    predictions (predictor_statistics (predictor_model (observer e'))) =
      of_nat (length (filter (\<lambda>ob. branch_of ob \<noteq> None) tr)) \<and>
    (let c = cache_model (observer e'); i = cache_stats (instruction_cache c);
         d = cache_stats (data_cache c); l = load_statistics c; st = store_statistics c
     in accesses i = of_nat (length tr) \<and> hits i + misses i = accesses i \<and>
        hits d + misses d = accesses d \<and> accesses d = accesses l + accesses st \<and>
        hits d = hits l + hits st)"
proof -
  obtain tr where tr: "retires (Some observe_analyzer) e tr e'" "length tr \<le> limit"
    by (rule run_retires [OF assms(2)])
  note end' = analyzer_trace [OF assms(1) refl tr(1)]
  from end'(1) have "wf_split (cache_model (observer e'))" and
    "accesses (cache_stats (instruction_cache (cache_model (observer e')))) =
      instructions_observed (observer e')" by (simp_all add: wf_analyzer_def)
  with tr end'(2,3) show ?thesis
    unfolding wf_split_def balanced_def Let_def by (intro exI [of _ tr]) metis
qed

lemma analyzer_accounts_run_witness:
  "\<exists>a r e' n. make_analyzer sample_analysis = Inr a \<and> n \<le> 5 \<and>
     run (Some observe_analyzer) 5 (sample_engine a) = Some (r, e') \<and>
     instructions_observed (observer e') = of_nat n"
proof -
  obtain a where a: "make_analyzer sample_analysis = Inr a" using make_sample_analyzer by blast
  have o: "observer (sample_engine a) = a" by (simp add: sample_engine_def)
  obtain r e' where "run (Some observe_analyzer) 5 (sample_engine a) = Some (r, e')"
    by (rule run_total)
  with analyzer_accounts_run [of sample_analysis "sample_engine a" 5 r e'] a o show ?thesis by auto
qed

end
