(* ===== verification/Benchmark_Workload.thy ===== *)
theory Benchmark_Workload
  imports Isa_Refinement Performance_Analyzer
begin

text \<open>
  The benchmark workloads of \<^verbatim>\<open>benchmarks/benchmark_workload.cpp\<close>: three guest
  programs, assembled by encoder functions, with the machine and the analyzer they run on. The
  encoders are proved inverse to the decoder, and every workload to run for any number of
  instructions without a trap. The outer \<open>option\<close> is an exception that escapes.
\<close>

section \<open>Encoders\<close>

definition kMemoryBaseAddress :: u32 where "kMemoryBaseAddress = 0x1000"
definition kMemorySizeBytes :: nat where "kMemorySizeBytes = 16 * 1024"
definition kDataBaseAddress :: u32 where "kDataBaseAddress = 0x2000"

definition kMultiplyFunction7 :: u8 where "kMultiplyFunction7 = 0x01"

text \<open>
  An immediate is a signed 32-bit integer of the code, here an integer; the cast to unsigned is
  \<^verbatim>\<open>word_of_int\<close>.
\<close>

definition encode_immediate_operation :: "u8 \<Rightarrow> u8 \<Rightarrow> u8 \<Rightarrow> int \<Rightarrow> u32" where
  "encode_immediate_operation dest fn3 src imm =
     push_bit 20 (word_of_int imm AND 0xFFF) OR push_bit 15 (ucast src) OR
     push_bit 12 (ucast fn3) OR push_bit 7 (ucast dest) OR
     ucast (opcode_value OpImmediate)"

definition encode_register_operation :: "u8 \<Rightarrow> u8 \<Rightarrow> u8 \<Rightarrow> u8 \<Rightarrow> u8 \<Rightarrow> u32" where
  "encode_register_operation dest fn3 src1 src2 fn7 =
     push_bit 25 (ucast fn7) OR push_bit 20 (ucast src2) OR push_bit 15 (ucast src1) OR
     push_bit 12 (ucast fn3) OR push_bit 7 (ucast dest) OR ucast (opcode_value Op)"

definition encode_load_word :: "u8 \<Rightarrow> u8 \<Rightarrow> int \<Rightarrow> u32" where
  "encode_load_word dest src imm =
     push_bit 20 (word_of_int imm AND 0xFFF) OR push_bit 15 (ucast src) OR
     push_bit 12 2 OR push_bit 7 (ucast dest) OR ucast (opcode_value Load)"

definition encode_store_word :: "u8 \<Rightarrow> u8 \<Rightarrow> int \<Rightarrow> u32" where
  "encode_store_word address_source value_source imm =
     (let bits = word_of_int imm AND 0xFFF
      in push_bit 25 (drop_bit 5 bits) OR push_bit 20 (ucast value_source) OR
         push_bit 15 (ucast address_source) OR push_bit 12 2 OR push_bit 7 (bits AND 0x1F) OR
         ucast (opcode_value Store))"

definition encode_branch :: "u8 \<Rightarrow> u8 \<Rightarrow> u8 \<Rightarrow> int \<Rightarrow> u32" where
  "encode_branch fn3 src1 src2 imm =
     (let bits = word_of_int imm AND 0x1FFF
      in push_bit 31 (drop_bit 12 bits AND 0x01) OR push_bit 25 (drop_bit 5 bits AND 0x3F) OR
         push_bit 20 (ucast src2) OR push_bit 15 (ucast src1) OR
         push_bit 12 (ucast fn3) OR push_bit 8 (drop_bit 1 bits AND 0x0F) OR
         push_bit 7 (drop_bit 11 bits AND 0x01) OR ucast (opcode_value Branch))"

definition encode_jump :: "int \<Rightarrow> u32" where
  "encode_jump imm =
     (let bits = word_of_int imm AND 0x1FFFFF
      in push_bit 31 (drop_bit 20 bits AND 0x01) OR push_bit 21 (drop_bit 1 bits AND 0x3FF) OR
         push_bit 20 (drop_bit 11 bits AND 0x01) OR push_bit 12 (drop_bit 12 bits AND 0xFF) OR
         ucast (opcode_value Jal))"

definition encode_lui :: "u8 \<Rightarrow> u32 \<Rightarrow> u32" where
  "encode_lui dest imm =
     (imm AND 0xFFFFF000) OR push_bit 7 (ucast dest) OR ucast (opcode_value Lui)"

section \<open>Programs\<close>

definition kIntegerMixProgram :: "u32 list" where
  "kIntegerMixProgram =
    [encode_immediate_operation 1 0 1 1,
     encode_immediate_operation 2 0 2 3,
     encode_register_operation 3 4 1 2 0,
     encode_register_operation 4 0 3 2 kMultiplyFunction7,
     encode_register_operation 5 0 5 4 0,
     encode_jump (- 20)]"

definition kMemoryStrideProgram :: "u32 list" where
  "kMemoryStrideProgram =
    [encode_load_word 3 1 0,
     encode_immediate_operation 3 0 3 1,
     encode_store_word 1 3 0,
     encode_immediate_operation 1 0 1 4,
     encode_branch 6 1 2 (- 16),
     encode_lui 1 kDataBaseAddress,
     encode_jump (- 24)]"

definition kBranchPatternProgram :: "u32 list" where
  "kBranchPatternProgram =
    [encode_immediate_operation 1 0 1 1,
     encode_immediate_operation 2 7 1 1,
     encode_branch 0 2 0 8,
     encode_immediate_operation 3 0 3 1,
     encode_branch 1 1 4 (- 16),
     encode_immediate_operation 1 0 0 0,
     encode_jump (- 24)]"

text \<open>The loop of \<^verbatim>\<open>load_program\<close>, from an address on.\<close>

fun load_words :: "u32 list \<Rightarrow> u32 \<Rightarrow> memory \<Rightarrow> memory option" where
  "load_words [] address m = Some m"
| "load_words (w # ws) address m =
     (case write32 m address w of Inl _ \<Rightarrow> None | Inr m \<Rightarrow> load_words ws (address + 4) m)"

definition load_program :: "u32 list \<Rightarrow> memory \<Rightarrow> memory option" where
  "load_program program m = load_words program kMemoryBaseAddress m"

section \<open>Workloads\<close>

datatype workload_kind = IntegerMix | MemoryStride | BranchPattern

text \<open>The values of the enumeration type; any other value of a byte is rejected.\<close>

definition validate_kind :: "u8 \<Rightarrow> workload_kind option" where
  "validate_kind v = (if v = 0 then Some IntegerMix else if v = 1 then Some MemoryStride
     else if v = 2 then Some BranchPattern else None)"

fun workload_name :: "workload_kind \<Rightarrow> string" where
  "workload_name IntegerMix = ''IntegerMix''"
| "workload_name MemoryStride = ''MemoryStride''"
| "workload_name BranchPattern = ''BranchPattern''"

definition benchmark_performance_configuration :: analyzer_configuration where
  "benchmark_performance_configuration =
     (let kCache = \<lparr>capacity_bytes = 4096, line_size_bytes = 64, associativity = 2\<rparr>
      in \<lparr>cache_part = \<lparr>instruction_configuration = kCache, data_configuration = kCache\<rparr>,
          branch_predictor_part = \<lparr>strategy = BimodalTwoBit, table_entries = 256,
            initial_counter = counter_value WeaklyNotTaken\<rparr>,
          cycle_costs_part = \<lparr>base_instruction_cycles = 1,
            instruction_cache_miss_penalty_cycles = 10, data_cache_miss_penalty_cycles = 20,
            branch_misprediction_penalty_cycles = 5\<rparr>\<rparr>)"

record workload =
  workload_kind_of :: workload_kind
  workload_state :: cpu_state
  workload_memory :: memory
  workload_analyzer :: analyzer

fun workload_program :: "workload_kind \<Rightarrow> u32 list" where
  "workload_program IntegerMix = kIntegerMixProgram"
| "workload_program MemoryStride = kMemoryStrideProgram"
| "workload_program BranchPattern = kBranchPatternProgram"

fun initial_registers :: "workload_kind \<Rightarrow> cpu_state \<Rightarrow> cpu_state option" where
  "initial_registers IntegerMix s = Option.bind (write_register s 1 1) (\<lambda>s. write_register s 2 3)"
| "initial_registers MemoryStride s =
     Option.bind (write_register s 1 kDataBaseAddress)
       (\<lambda>s. write_register s 2 (kDataBaseAddress + 1024))"
| "initial_registers BranchPattern s = write_register s 4 256"

definition reset_workload :: "workload \<Rightarrow> workload option" where
  "reset_workload w = do {
     let s = set_program_counter kMemoryBaseAddress (reset_cpu (workload_state w));
     m \<leftarrow> load_program (workload_program (workload_kind_of w)) (clear (workload_memory w));
     s \<leftarrow> initial_registers (workload_kind_of w) s;
     Some (w\<lparr>workload_state := s, workload_memory := m,
       workload_analyzer := reset_analyzer (workload_analyzer w)\<rparr>)
   }"

definition make_workload :: "u8 \<Rightarrow> workload option" where
  "make_workload v = do {
     kind \<leftarrow> validate_kind v;
     m \<leftarrow> make_memory kMemoryBaseAddress kMemorySizeBytes;
     case make_analyzer benchmark_performance_configuration of
       Inl _ \<Rightarrow> None
     | Inr a \<Rightarrow> reset_workload \<lparr>workload_kind_of = kind, workload_state = initial_cpu_state,
         workload_memory = m, workload_analyzer = a\<rparr>
   }"

definition run_workload :: "u64 \<Rightarrow> workload \<Rightarrow> (run_result \<times> workload) option" where
  "run_workload instruction_limit w = do {
     (r, e) \<leftarrow> run (Some observe_analyzer) (unat instruction_limit)
       \<lparr>state = workload_state w, memory_of = workload_memory w, observer = workload_analyzer w\<rparr>;
     Some (r, w\<lparr>workload_state := state e, workload_memory := memory_of e,
       workload_analyzer := observer e\<rparr>)
   }"

section \<open>The encoders and the decoder\<close>

lemma small_bits:
  assumes "unat (x :: u8) < 2 ^ k" and "k \<le> n"
  shows "\<not> bit x n"
proof -
  have "take_bit k x = x"
    using assms(1) by (simp add: word_unat_eq_iff unsigned_take_bit_eq take_bit_nat_eq_self_iff)
  then have "bit x n = bit (take_bit k x) n" by simp
  then show ?thesis using assms(2) by (simp add: bit_take_bit_iff)
qed

lemma word8_eqI:
  fixes v w :: u8
  assumes "list_all (\<lambda>n. bit v n = bit w n) [0, 1, 2, 3, 4, 5, 6, 7]"
  shows "v = w"
proof (rule bit_word_eqI)
  fix n assume "n < LENGTH(8)"
  then have "n \<in> {0, 1, 2, 3, 4, 5, 6, 7}" by (simp, presburger)
  then show "bit v n = bit w n" using assms by auto
qed

lemma operand_bits:
  "unat (x :: u8) < 32 \<Longrightarrow> 5 \<le> n \<Longrightarrow> \<not> bit x n"
  "unat (x :: u8) < 8 \<Longrightarrow> 3 \<le> n \<Longrightarrow> \<not> bit x n"
  "unat (x :: u8) < 128 \<Longrightarrow> 7 \<le> n \<Longrightarrow> \<not> bit x n"
  using small_bits [of x 5 n] small_bits [of x 3 n] small_bits [of x 7 n] by simp_all

text \<open>An immediate in the signed range of a format is its own sign extension.\<close>

lemma signed_word_of_int:
  assumes "- (2 ^ m) \<le> i" and "i < 2 ^ m" and "m < 32"
  shows "signed_take_bit m (word_of_int i :: u32) = word_of_int i"
proof -
  have "signed_take_bit m (word_of_int i :: u32) = word_of_int (signed_take_bit m i)"
    by (rule bit_word_eqI) (use assms(3) in \<open>auto simp: bit_simps min_def\<close>)
  then show ?thesis using assms(1,2) by (simp add: signed_take_bit_int_eq_self)
qed

lemma sign_extend_word_of_int:
  assumes "signed_take_bit m v = signed_take_bit m (word_of_int i)"
    and "- (2 ^ m) \<le> i" and "i < 2 ^ m" and "m < 31"
  shows "sign_extend v (Suc m) = word_of_int i"
  using signed_word_of_int [OF assms(2,3)] assms(1,4) by (simp add: sign_extend_eq_signed_take_bit)

definition reads_as :: "u32 \<Rightarrow> opcode \<Rightarrow> u8 \<Rightarrow> u8 \<Rightarrow> u8 \<Rightarrow> u8 \<Rightarrow> u32 \<Rightarrow> bool" where
  "reads_as w opc rd f3 rs1 rs2 imm \<longleftrightarrow> (case decode_instruction w of
     None \<Rightarrow> False
   | Some i \<Rightarrow> opcode i = opc \<and> destination i = rd \<and> function3 i = f3 \<and> source1 i = rs1 \<and>
       source2 i = rs2 \<and> immediate i = imm)"

lemmas encoders = encode_immediate_operation_def encode_register_operation_def
  encode_load_word_def encode_store_word_def encode_branch_def encode_jump_def encode_lui_def

lemmas encoded_bits = encoders Let_def field_def mask_simps bit_eval

lemma encoded_opcode:
  "decode_opcode (encode_immediate_operation rd f3 rs1 i) = Some OpImmediate"
  "decode_opcode (encode_register_operation rd f3 rs1 rs2 f7) = Some Op"
  "decode_opcode (encode_load_word rd rs1 i) = Some Load"
  "decode_opcode (encode_store_word rs1 rs2 i) = Some Store"
  "decode_opcode (encode_branch f3 rs1 rs2 b) = Some Branch"
  "decode_opcode (encode_jump j) = Some Jal"
  "decode_opcode (encode_lui rd v) = Some Lui"
  unfolding decode_opcode_eq_Some_iff
  by (rule word32_eqI, simp add: encoded_bits)+

lemma encoded_upper:
  "unat rd < 32 \<Longrightarrow> encode_lui rd v AND 0xFFFFF000 = v AND 0xFFFFF000"
  by (rule word32_eqI) (simp add: encoded_bits operand_bits)

lemma encoded_fields:
  assumes "unat rd < 32" "unat f3 < 8" "unat rs1 < 32" "unat rs2 < 32" "unat f7 < 128"
  shows "field (encode_immediate_operation rd f3 rs1 i) 7 0x1F = rd"
    "field (encode_immediate_operation rd f3 rs1 i) 12 0x07 = f3"
    "field (encode_immediate_operation rd f3 rs1 i) 15 0x1F = rs1"
    "field (encode_register_operation rd f3 rs1 rs2 f7) 7 0x1F = rd"
    "field (encode_register_operation rd f3 rs1 rs2 f7) 12 0x07 = f3"
    "field (encode_register_operation rd f3 rs1 rs2 f7) 15 0x1F = rs1"
    "field (encode_register_operation rd f3 rs1 rs2 f7) 20 0x1F = rs2"
    "field (encode_register_operation rd f3 rs1 rs2 f7) 25 0x7F = f7"
    "field (encode_load_word rd rs1 i) 7 0x1F = rd"
    "field (encode_load_word rd rs1 i) 12 0x07 = 2"
    "field (encode_load_word rd rs1 i) 15 0x1F = rs1"
    "field (encode_store_word rs1 rs2 i) 12 0x07 = 2"
    "field (encode_store_word rs1 rs2 i) 15 0x1F = rs1"
    "field (encode_store_word rs1 rs2 i) 20 0x1F = rs2"
    "field (encode_branch f3 rs1 rs2 i) 12 0x07 = f3"
    "field (encode_branch f3 rs1 rs2 i) 15 0x1F = rs1"
    "field (encode_branch f3 rs1 rs2 i) 20 0x1F = rs2"
    "field (encode_lui rd v) 7 0x1F = rd"
    "field (encode_jump i) 7 0x1F = 0"
  by (rule word8_eqI, simp add: encoded_bits operand_bits assms; fail)+

lemma encoded_immediates:
  assumes "unat f3 < 8" "unat rs1 < 32" "unat rs2 < 32"
  shows "signed_take_bit 11 (drop_bit 20 (encode_immediate_operation rd f3 rs1 i)) =
      signed_take_bit 11 (word_of_int i)"
    "signed_take_bit 11 (drop_bit 20 (encode_load_word rd rs1 i)) = signed_take_bit 11 (word_of_int i)"
    "signed_take_bit 11 (s_immediate (encode_store_word rs1 rs2 i)) = signed_take_bit 11 (word_of_int i)"
    "even i \<Longrightarrow> signed_take_bit 12 (b_immediate (encode_branch f3 rs1 rs2 i)) =
      signed_take_bit 12 (word_of_int i)"
    "even i \<Longrightarrow> signed_take_bit 20 (j_immediate (encode_jump i)) = signed_take_bit 20 (word_of_int i)"
  by (rule word32_eqI, simp add: encoded_bits operand_bits assms s_immediate_def b_immediate_def
      j_immediate_def, (simp add: bit_0 numeral_2_eq_2)?; fail)+

text \<open>
  C30: the benchmark's assembler and the emulator's decoder are inverse. For all registers,
  function codes and immediates in the range of the format the decoder reads every encoded
  instruction back with its opcode, operands and sign-extended immediate.
\<close>

theorem encoders_round_trip:
  assumes "unat rd < 32" "unat f3 < 8" "unat rs1 < 32" "unat rs2 < 32" "unat f7 < 128"
    and "- 2048 \<le> i" "i < 2048" and "- 4096 \<le> b" "b < 4096" "even b"
    and "- 1048576 \<le> j" "j < 1048576" "even j"
  shows "reads_as (encode_immediate_operation rd f3 rs1 i) OpImmediate rd f3 rs1 0 (word_of_int i) \<and>
    reads_as (encode_register_operation rd f3 rs1 rs2 f7) Op rd f3 rs1 rs2 0 \<and>
    map_option function7 (decode_instruction (encode_register_operation rd f3 rs1 rs2 f7)) = Some f7 \<and>
    reads_as (encode_load_word rd rs1 i) Load rd 2 rs1 0 (word_of_int i) \<and>
    reads_as (encode_store_word rs1 rs2 i) Store 0 2 rs1 rs2 (word_of_int i) \<and>
    reads_as (encode_branch f3 rs1 rs2 b) Branch 0 f3 rs1 rs2 (word_of_int b) \<and>
    reads_as (encode_jump j) Jal 0 0 0 0 (word_of_int j) \<and>
    reads_as (encode_lui rd v) Lui rd 0 0 0 (v AND 0xFFFFF000)"
proof -
  note immediates = encoded_immediates [OF assms(2-4)]
  have "sign_extend (drop_bit 20 (encode_immediate_operation rd f3 rs1 i)) 12 = word_of_int i"
    "sign_extend (drop_bit 20 (encode_load_word rd rs1 i)) 12 = word_of_int i"
    "sign_extend (s_immediate (encode_store_word rs1 rs2 i)) 12 = word_of_int i"
    "sign_extend (b_immediate (encode_branch f3 rs1 rs2 b)) 13 = word_of_int b"
    "sign_extend (j_immediate (encode_jump j)) 21 = word_of_int j"
    using sign_extend_word_of_int [OF immediates(1)] sign_extend_word_of_int [OF immediates(2)]
      sign_extend_word_of_int [OF immediates(3)] sign_extend_word_of_int [OF immediates(4) [OF assms(10)]]
      sign_extend_word_of_int [OF immediates(5) [OF assms(13)]] assms by simp_all
  then show ?thesis
    by (simp add: reads_as_def decode_instruction_def encoded_opcode Let_def default_instruction_def
        encoded_fields [OF assms(1-5)] encoded_upper [OF assms(1)])
qed

lemma encoders_round_trip_witness:
  "reads_as (encode_branch 6 1 2 (- 16)) Branch 0 6 1 2 (- 16) \<and>
   reads_as (encode_jump (- 24)) Jal 0 0 0 0 (- 24) \<and>
   reads_as (encode_immediate_operation 3 6 1 (- 1)) OpImmediate 3 6 1 0 (- 1)"
  using encoders_round_trip [of 3 6 1 2 0 "- 1" "- 16" "- 24"] by simp

section \<open>Programs in memory\<close>

fun words_at :: "u32 list \<Rightarrow> u32 \<Rightarrow> (u32 \<Rightarrow> u8 option) \<Rightarrow> bool" where
  "words_at [] a f = True"
| "words_at (w # ws) a f \<longleftrightarrow> le_value f a 4 = Some (uint w) \<and> words_at ws (a + 4) f"

lemma le_value_agree:
  assumes "\<And>i. i < n \<Longrightarrow> f (a + of_nat i) = g (a + of_nat i)"
  shows "le_value f a n = le_value g a n"
  using assms
proof (induction n arbitrary: a)
  case (Suc n)
  have "le_value f (a + 1) n = le_value g (a + 1) n"
  proof (rule Suc.IH)
    fix i assume "i < n"
    with Suc.prems [of "Suc i"] show "f (a + 1 + of_nat i) = g (a + 1 + of_nat i)"
      by (simp add: algebra_simps)
  qed
  with Suc.prems [of 0] show ?case by (simp split: option.split)
qed simp

lemma unat_offset:
  "unat (a :: u32) + n < 2 ^ 32 \<Longrightarrow> unat (a + of_nat n) = unat a + n"
  by (simp add: unat_word_ariths unsigned_of_nat take_bit_eq_mod)

lemma words_at_agree:
  assumes "unat a + 4 * length ws < 2 ^ 32"
    and "\<And>c. unat a \<le> unat c \<Longrightarrow> unat c < unat a + 4 * length ws \<Longrightarrow> f c = g c"
  shows "words_at ws a f = words_at ws a g"
  using assms
proof (induction ws arbitrary: a)
  case (Cons w ws)
  have next_address: "unat (a + 4) = unat a + 4" using unat_offset [of a 4] Cons.prems(1) by simp
  have "le_value f a 4 = le_value g a 4"
    by (rule le_value_agree, rule Cons.prems(2)) (use Cons.prems(1) in \<open>simp_all add: unat_offset\<close>)
  moreover have "words_at ws (a + 4) f = words_at ws (a + 4) g"
    by (rule Cons.IH) (use Cons.prems in \<open>simp_all add: next_address\<close>)
  ultimately show ?case by simp
qed simp

lemma le_value_read32:
  assumes "read32 m a = Inr w"
  shows "le_value (cell m) a 4 = Some (uint w)"
proof -
  from assms obtain v where v: "le_value (cell m) a 4 = Some v" "w = word_of_int v"
    by (auto simp: read32_le split: if_splits option.splits)
  from le_value_range [OF v(1)] have "uint w = v" unfolding v(2) by (simp add: uint_word_of_int)
  with v(1) show ?thesis by simp
qed

text \<open>Loading puts the words at their addresses and changes nothing else.\<close>

lemma load_words_effect:
  assumes "unat a mod 4 = 0" and "unat a + 4 * length ws < 2 ^ 32" and "mapped m a (4 * length ws)"
  shows "\<exists>m'. load_words ws a m = Some m' \<and> same_region m m' \<and> words_at ws a (cell m') \<and>
    (\<forall>c. unat c < unat a \<or> unat a + 4 * length ws \<le> unat c \<longrightarrow> cell m' c = cell m c)"
  using assms
proof (induction ws arbitrary: a m)
  case (Cons w ws)
  have next_address: "unat (a + 4) = unat a + 4" using unat_offset [of a 4] Cons.prems(2) by simp
  have "mapped m a 4" using Cons.prems(3) by (simp add: mapped_def)
  with Cons.prems(1) obtain m1 where m1: "write32 m a w = Inr m1"
    using write32_eq_Inr_iff [of m a w] by auto
  note region = write32_same_region [OF m1]
  have "mapped m1 (a + 4) (4 * length ws)"
    unfolding same_region_mapped [OF region]
    using Cons.prems(3) by (simp add: mapped_def next_address)
  then obtain m' where m': "load_words ws (a + 4) m1 = Some m'" "same_region m1 m'"
    "words_at ws (a + 4) (cell m')"
    "\<And>c. unat c < unat a + 4 \<or> unat a + 4 + 4 * length ws \<le> unat c \<Longrightarrow> cell m' c = cell m1 c"
    using Cons.IH [of "a + 4" m1] Cons.prems(1,2) by (auto simp: next_address)
  have "le_value (cell m') a 4 = le_value (cell m1) a 4"
    by (rule le_value_agree, rule m'(4)) (use Cons.prems(2) in \<open>simp add: unat_offset\<close>)
  also have "\<dots> = Some (uint w)" using read32_write32 [OF m1] by (rule le_value_read32)
  finally have "words_at (w # ws) a (cell m')" using m'(3) by simp
  moreover have "cell m' c = cell m c"
    if "unat c < unat a \<or> unat a + 4 * length (w # ws) \<le> unat c" for c
  proof -
    have "\<not> unat (c - a) < 4"
      using that unat_diff_less_iff [of a 4 c] Cons.prems(2) by auto
    with cell_write32 [OF m1, of c] m'(4) [of c] that show ?thesis by auto
  qed
  ultimately show ?case
    using m1 m'(1,2) region by (auto intro: same_region_trans)
qed simp

section \<open>The programs never leave their code\<close>

lemma program_words:
  "kIntegerMixProgram = [0x00108093, 0x00310113, 0x0020C1B3, 0x02218233, 0x004282B3, 0xFEDFF06F]"
  "kMemoryStrideProgram = [0x0000A183, 0x00118193, 0x0030A023, 0x00408093, 0xFE20E8E3, 0x000020B7,
    0xFE9FF06F]"
  "kBranchPatternProgram = [0x00108093, 0x0010F113, 0x00010463, 0x00118193, 0xFE4098E3, 0x00000093,
    0xFE9FF06F]"
  by code_simp+

lemma program_decodes:
  "rv_decode 0x00108093 = Some (ALUI Add 1 1 1)" "rv_decode 0x00310113 = Some (ALUI Add 2 2 3)"
  "rv_decode 0x0020C1B3 = Some (ALU Xor 3 1 2)" "rv_decode 0x02218233 = Some (ALU Mul 4 3 2)"
  "rv_decode 0x004282B3 = Some (ALU Add 5 5 4)" "rv_decode 0xFEDFF06F = Some (JAL 0 (- 20))"
  "rv_decode 0x0000A183 = Some (LOAD Lw 3 1 0)" "rv_decode 0x00118193 = Some (ALUI Add 3 3 1)"
  "rv_decode 0x0030A023 = Some (STORE Sw 1 3 0)" "rv_decode 0x00408093 = Some (ALUI Add 1 1 4)"
  "rv_decode 0xFE20E8E3 = Some (BRANCH Bltu 1 2 (- 16))" "rv_decode 0x000020B7 = Some (LUI 1 8192)"
  "rv_decode 0xFE9FF06F = Some (JAL 0 (- 24))" "rv_decode 0x0010F113 = Some (ALUI And 2 1 1)"
  "rv_decode 0x00010463 = Some (BRANCH Beq 2 0 8)" "rv_decode 0xFE4098E3 = Some (BRANCH Bne 1 4 (- 16))"
  "rv_decode 0x00000093 = Some (ALUI Add 1 0 0)"
  by code_simp+

lemma exec_fields [simp]:
  "xmem (put_reg r v A) = xmem A" "xpc (put_reg r v A) = xpc A"
  "xmem (go t A) = xmem A" "xpc (go t A) = t" "xreg (go t A) = xreg A"
  "xreg (put_reg r v A) = (if r = 0 then xreg A else (xreg A)(r := v))"
  by (simp_all add: put_reg_def go_def)

lemmas arch_eval = program_words program_decodes arch_step_def next_seq_def jump_to_def

lemma integer_step:
  assumes "words_at kIntegerMixProgram 0x1000 (xmem A)"
    and "xpc A \<in> {0x1000, 0x1004, 0x1008, 0x100C, 0x1010, 0x1014}"
  shows "\<exists>B. arch_step A = Retire B \<and> xmem B = xmem A \<and>
    xpc B \<in> {0x1000, 0x1004, 0x1008, 0x100C, 0x1010, 0x1014}"
  using assms by (auto simp: arch_eval)

lemma branch_step:
  assumes "words_at kBranchPatternProgram 0x1000 (xmem A)"
    and "xpc A \<in> {0x1000, 0x1004, 0x1008, 0x100C, 0x1010, 0x1014, 0x1018}"
  shows "\<exists>B. arch_step A = Retire B \<and> xmem B = xmem A \<and>
    xpc B \<in> {0x1000, 0x1004, 0x1008, 0x100C, 0x1010, 0x1014, 0x1018}"
  using assms by (auto simp: arch_eval)

text \<open>
  The stride program walks x1 over the words of a window of 1024 bytes at \<open>0x2000\<close>, whose
  end is in x2, and stores nowhere else.
\<close>

definition in_window :: "u32 \<Rightarrow> bool" where
  "in_window c \<longleftrightarrow> 0x2000 \<le> uint c \<and> uint c < 0x2400"

definition stride_point :: "arch \<Rightarrow> bool" where
  "stride_point A \<longleftrightarrow> xreg A 2 = 0x2400 \<and>
     (xpc A \<in> {0x1000, 0x1004, 0x1008, 0x100C} \<and> in_window (xreg A 1) \<and> 4 dvd uint (xreg A 1) \<or>
      xpc A = 0x1010 \<and> (\<exists>y. xreg A 1 = y + 4 \<and> in_window y \<and> 4 dvd uint y) \<or>
      xpc A = 0x1014 \<or> xpc A = 0x1018 \<and> xreg A 1 = 0x2000)"

lemma window_next:
  assumes "in_window y" and "4 dvd uint y"
  shows "4 dvd uint (y + 4)" and "uint (y + 4) < 0x2400 \<Longrightarrow> in_window (y + 4)"
proof -
  have "uint (y + 4) = uint y + 4"
    using assms(1) by (simp add: uint_word_ariths in_window_def)
  with assms show "4 dvd uint (y + 4)" and "uint (y + 4) < 0x2400 \<Longrightarrow> in_window (y + 4)"
    by (simp_all add: in_window_def)
qed

lemma window_word:
  assumes "in_window x" and "4 dvd uint x"
  shows "unat (c - x) < 4 \<Longrightarrow> in_window c"
proof -
  obtain k where "uint x = 4 * k" using assms(2) by (rule dvdE)
  with assms(1) have k: "uint x = 4 * k" "0x800 \<le> k" "k < 0x900" by (simp_all add: in_window_def)
  then have "unat x + 4 \<le> 2 ^ 32" by (simp add: unat_eq_nat_uint)
  moreover assume "unat (c - x) < 4"
  ultimately have "unat x \<le> unat c" and "unat c < unat x + 4"
    by (simp_all only: unat_diff_less_iff)
  then have "uint x \<le> uint c" and "uint c < uint x + 4" unfolding uint_nat by linarith+
  then show "in_window c" using k by (simp add: in_window_def)
qed

lemma window_mapped:
  assumes "in_window x" and "4 dvd uint x" and "\<And>c. in_window c \<Longrightarrow> f c \<noteq> None"
  shows "\<exists>v. le_value f x 4 = Some v"
proof -
  have "f (x + of_nat i) \<noteq> None" if "i < 4" for i
  proof (rule assms(3), rule window_word [OF assms(1,2)])
    have "unat (of_nat i :: u32) = i" using that by (simp add: unsigned_of_nat take_bit_eq_mod)
    then show "unat (x + of_nat i - x) < 4" using that by simp
  qed
  then have "le_value f x 4 \<noteq> None" unfolding le_value_eq_None_iff by simp
  then show ?thesis by simp
qed

lemma stride_step:
  assumes "words_at kMemoryStrideProgram 0x1000 (xmem A)" and "stride_point A"
    and mapped: "\<And>c. in_window c \<Longrightarrow> xmem A c \<noteq> None"
  shows "\<exists>B. arch_step A = Retire B \<and> stride_point B \<and>
    (\<forall>c. \<not> in_window c \<longrightarrow> xmem B c = xmem A c) \<and> (\<forall>c. xmem A c \<noteq> None \<longrightarrow> xmem B c \<noteq> None)"
proof -
  let ?x = "xreg A 1"
  from assms(2) consider
      "xpc A = 0x1000" "in_window ?x" "4 dvd uint ?x"
    | "xpc A = 0x1004" "in_window ?x" "4 dvd uint ?x"
    | "xpc A = 0x1008" "in_window ?x" "4 dvd uint ?x"
    | "xpc A = 0x100C" "in_window ?x" "4 dvd uint ?x"
    | y where "xpc A = 0x1010" "?x = y + 4" "in_window y" "4 dvd uint y"
    | "xpc A = 0x1014" | "xpc A = 0x1018" "?x = 0x2000"
    by (auto simp: stride_point_def)
  then show ?thesis
  proof cases
    case 1
    with window_mapped [of ?x "xmem A", OF 1(2,3) mapped] assms(1,2) show ?thesis
      by (auto simp: arch_eval stride_point_def Let_def)
  next
    case 3
    with window_mapped [of ?x "xmem A", OF 3(2,3) mapped] window_word [OF 3(2,3)] assms(1,2) show ?thesis
      by (auto simp: arch_eval stride_point_def le_store_eq Let_def)
  next
    case 5
    with assms(1,2) window_next [OF 5(3,4)] show ?thesis by (auto simp: arch_eval stride_point_def)
  next
    case 7
    with assms(1,2) show ?thesis by (auto simp: arch_eval stride_point_def in_window_def)
  qed (use assms(1,2) in \<open>auto simp: arch_eval stride_point_def\<close>)
qed

section \<open>Workloads run without a trap\<close>

definition writable :: "workload_kind \<Rightarrow> u32 \<Rightarrow> bool" where
  "writable k c \<longleftrightarrow> k = MemoryStride \<and> in_window c"

fun program_point :: "workload_kind \<Rightarrow> arch \<Rightarrow> bool" where
  "program_point IntegerMix A \<longleftrightarrow> xpc A \<in> {0x1000, 0x1004, 0x1008, 0x100C, 0x1010, 0x1014}"
| "program_point BranchPattern A \<longleftrightarrow>
     xpc A \<in> {0x1000, 0x1004, 0x1008, 0x100C, 0x1010, 0x1014, 0x1018}"
| "program_point MemoryStride A \<longleftrightarrow> stride_point A"

text \<open>
  The invariant of a workload, with the memory \<open>f\<close> it started with: outside the window of the
  stride program the memory is unchanged, so the program is in place.
\<close>

definition workload_invariant :: "workload_kind \<Rightarrow> (u32 \<Rightarrow> u8 option) \<Rightarrow> arch \<Rightarrow> bool" where
  "workload_invariant k f A \<longleftrightarrow> words_at (workload_program k) 0x1000 f \<and>
     (\<forall>c. in_window c \<longrightarrow> f c \<noteq> None) \<and> (\<forall>c. \<not> writable k c \<longrightarrow> xmem A c = f c) \<and>
     (\<forall>c. f c \<noteq> None \<longrightarrow> xmem A c \<noteq> None) \<and> program_point k A"

lemma workload_code:
  assumes "workload_invariant k f A"
  shows "words_at (workload_program k) 0x1000 (xmem A)"
proof -
  have len: "length (workload_program k) \<le> 7" by (cases k) (simp_all add: program_words)
  have "words_at (workload_program k) 0x1000 (xmem A) = words_at (workload_program k) 0x1000 f"
  proof (rule words_at_agree)
    fix c :: u32 assume "unat c < unat (0x1000 :: u32) + 4 * length (workload_program k)"
    with len have "unat c < 0x2000" by simp
    then have "\<not> in_window c" unfolding in_window_def uint_nat by linarith
    then show "xmem A c = f c"
      using assms by (simp add: workload_invariant_def writable_def)
  qed (use len in simp)
  then show ?thesis using assms by (simp add: workload_invariant_def)
qed

lemma workload_invariant_step:
  assumes "workload_invariant k f A"
  shows "\<exists>B. arch_step A = Retire B \<and> workload_invariant k f B"
proof -
  note code = workload_code [OF assms]
  have point: "program_point k A" using assms by (simp add: workload_invariant_def)
  have "\<exists>B. arch_step A = Retire B \<and> program_point k B \<and>
    (\<forall>c. \<not> writable k c \<longrightarrow> xmem B c = xmem A c) \<and> (\<forall>c. xmem A c \<noteq> None \<longrightarrow> xmem B c \<noteq> None)"
  proof (cases k)
    case IntegerMix
    with integer_step [of A] code point show ?thesis by fastforce
  next
    case BranchPattern
    with branch_step [of A] code point show ?thesis by fastforce
  next
    case MemoryStride
    with assms have "in_window c \<Longrightarrow> xmem A c \<noteq> None" for c
      unfolding workload_invariant_def by blast
    with stride_step [of A] code point MemoryStride show ?thesis by (simp add: writable_def)
  qed
  then show ?thesis using assms unfolding workload_invariant_def by metis
qed

lemma workload_invariant_run:
  "workload_invariant k f A \<Longrightarrow> \<exists>B. arch_run n A = Retire B \<and> workload_invariant k f B"
proof (induction n arbitrary: A)
  case (Suc n)
  from workload_invariant_step [OF Suc.prems] Suc.IH show ?case by fastforce
qed simp

text \<open>The state that \<^verbatim>\<open>reset\<close> makes, from any memory of the workload's region.\<close>

definition workload_region :: "memory \<Rightarrow> bool" where
  "workload_region m \<longleftrightarrow> base_address m = kMemoryBaseAddress \<and> length (bytes m) = kMemorySizeBytes"

fun initial_cpu :: "workload_kind \<Rightarrow> cpu_state" where
  "initial_cpu IntegerMix = set_reg 2 3 (set_reg 1 1 (set_program_counter 0x1000 initial_cpu_state))"
| "initial_cpu MemoryStride =
     set_reg 2 0x2400 (set_reg 1 0x2000 (set_program_counter 0x1000 initial_cpu_state))"
| "initial_cpu BranchPattern = set_reg 4 256 (set_program_counter 0x1000 initial_cpu_state)"

lemmas workload_constants = kMemoryBaseAddress_def kMemorySizeBytes_def kDataBaseAddress_def

lemma workload_region_mapped:
  assumes "workload_region m"
  shows "mapped m a n \<longleftrightarrow> 0x1000 \<le> unat a \<and> unat a + n \<le> 0x5000"
  using assms by (auto simp: workload_region_def mapped_def end_address_exclusive_def workload_constants)

lemma program_length: "4 * length (workload_program k) \<le> 28"
  by (cases k) (simp_all add: program_words)

lemma reset_workload_eq:
  assumes "workload_region (workload_memory w)" and "wf_cpu (workload_state w)"
  obtains m where "load_program (workload_program (workload_kind_of w)) (clear (workload_memory w)) = Some m"
    "reset_workload w = Some (w\<lparr>workload_state := initial_cpu (workload_kind_of w),
       workload_memory := m, workload_analyzer := reset_analyzer (workload_analyzer w)\<rparr>)"
    "workload_region m"
    "workload_invariant (workload_kind_of w) (cell m) (abs_arch (initial_cpu (workload_kind_of w)) m)"
proof -
  let ?k = "workload_kind_of w"
  have region: "workload_region (clear (workload_memory w))"
    using assms(1) by (simp add: workload_region_def clear_def)
  have "mapped (clear (workload_memory w)) 0x1000 (4 * length (workload_program ?k))"
    using program_length [of ?k] by (simp add: workload_region_mapped [OF region])
  then obtain m where m: "load_words (workload_program ?k) 0x1000 (clear (workload_memory w)) = Some m"
    "same_region (clear (workload_memory w)) m" "words_at (workload_program ?k) 0x1000 (cell m)"
    using load_words_effect [of "0x1000" "workload_program ?k" "clear (workload_memory w)"]
      program_length [of ?k] by auto
  have m_region: "workload_region m"
    using region m(2) by (simp add: workload_region_def same_region_def)
  have window: "cell m c \<noteq> None" if "in_window c" for c
  proof -
    have "0x1000 \<le> unat c" and "unat c + 1 \<le> 0x5000"
      using that unfolding in_window_def uint_nat by linarith+
    then show ?thesis unfolding cell_eq_None_iff workload_region_mapped [OF m_region] by simp
  qed
  have "reset_workload w = Some (w\<lparr>workload_state := initial_cpu ?k,
       workload_memory := m, workload_analyzer := reset_analyzer (workload_analyzer w)\<rparr>)"
    using m(1) reset_cpu_initial [OF assms(2)]
    by (cases ?k) (simp_all add: reset_workload_def load_program_def workload_constants)
  moreover have "program_point ?k (abs_arch (initial_cpu ?k) m)"
    by (cases ?k) (simp_all add: stride_point_def in_window_def reg_set_reg wf_cpu_set_reg)
  then have "workload_invariant ?k (cell m) (abs_arch (initial_cpu ?k) m)"
    using m(3) window by (simp add: workload_invariant_def)
  ultimately show thesis
    using that m(1) m_region by (simp add: load_program_def kMemoryBaseAddress_def)
qed

lemma wf_initial_cpu [simp]: "wf_cpu (initial_cpu k)"
  by (cases k) (simp_all add: wf_cpu_set_reg)

lemma make_benchmark_analyzer: "\<exists>a. make_analyzer benchmark_performance_configuration = Inr a"
proof -
  have "\<not> isl (make_analyzer benchmark_performance_configuration)" by code_simp
  then show ?thesis by (cases "make_analyzer benchmark_performance_configuration") simp_all
qed

lemma make_workload_cases [case_names rejected accepted]:
  obtains (rejected) "make_workload v = None" "3 \<le> unat v"
  | (accepted) a w where "make_analyzer benchmark_performance_configuration = Inr a"
      "make_workload v = Some w" "unat v < 3" "workload_analyzer w = reset_analyzer a"
      "workload_state w = initial_cpu (workload_kind_of w)" "workload_region (workload_memory w)"
      "workload_invariant (workload_kind_of w) (cell (workload_memory w))
        (abs_arch (workload_state w) (workload_memory w))"
      "\<And>m. workload_region m \<Longrightarrow> load_program (workload_program (workload_kind_of w)) (clear m) =
        Some (workload_memory w)"
proof (cases "validate_kind v")
  case None
  then have "v \<noteq> 0" "v \<noteq> 1" "v \<noteq> 2" by (auto simp: validate_kind_def)
  then have "unat v \<noteq> 0" "unat v \<noteq> 1" "unat v \<noteq> 2"
    by (auto simp: word_unat_eq_iff)
  then have "3 \<le> unat v" by linarith
  with None rejected show thesis by (simp add: make_workload_def)
next
  case (Some k)
  then have v: "unat v < 3" by (auto simp: validate_kind_def split: if_splits)
  obtain a where a: "make_analyzer benchmark_performance_configuration = Inr a"
    using make_benchmark_analyzer by blast
  have "make_memory kMemoryBaseAddress kMemorySizeBytes \<noteq> None"
    unfolding make_memory_eq_None_iff by (simp add: workload_constants)
  then obtain m0 where m0: "make_memory kMemoryBaseAddress kMemorySizeBytes = Some m0" by auto
  let ?w = "\<lparr>workload_kind_of = k, workload_state = initial_cpu_state, workload_memory = m0,
    workload_analyzer = a\<rparr>"
  have region: "workload_region m0"
    using make_memory_Some(2,3) [OF m0] by (simp add: workload_region_def)
  have same: "clear m = clear m0" if "workload_region m" for m
    using that region by (simp add: workload_region_def clear_def)
  from reset_workload_eq [of ?w] region obtain m where
    m: "load_program (workload_program k) (clear m0) = Some m"
    "reset_workload ?w = Some (?w\<lparr>workload_state := initial_cpu k, workload_memory := m,
       workload_analyzer := reset_analyzer a\<rparr>)" "workload_region m"
    "workload_invariant k (cell m) (abs_arch (initial_cpu k) m)" by auto
  then have "make_workload v = Some (?w\<lparr>workload_state := initial_cpu k, workload_memory := m,
       workload_analyzer := reset_analyzer a\<rparr>)"
    using Some a m0 by (simp add: make_workload_def)
  from accepted [OF a this v] m same show thesis by simp
qed

text \<open>What a workload does: it retires the whole budget, whatever it is.\<close>

lemma workload_run:
  assumes "make_workload v = Some w"
  obtains tr e' where
    "retires (Some observe_analyzer) \<lparr>state = workload_state w, memory_of = workload_memory w,
       observer = workload_analyzer w\<rparr> tr e'" "length tr = unat limit"
    "run_workload limit w = Some (InstructionLimitReached (unat limit),
       w\<lparr>workload_state := state e', workload_memory := memory_of e',
         workload_analyzer := observer e'\<rparr>)"
    "workload_invariant (workload_kind_of w) (cell (workload_memory w)) (abs_engine e')"
proof (cases rule: make_workload_cases [of v])
  case (accepted a w1)
  with assms have same: "w1 = w" by simp
  note ok = accepted [unfolded same]
  let ?e = "\<lparr>state = workload_state w, memory_of = workload_memory w,
    observer = workload_analyzer w\<rparr>"
  have wf: "wf_cpu (state ?e)" by (simp add: ok(5))
  have inv: "workload_invariant (workload_kind_of w) (cell (workload_memory w)) (abs_engine e')"
    if "retires (Some observe_analyzer) ?e tr e'" for tr e'
    using retires_refines [OF that wf] workload_invariant_run [OF ok(7), of "length tr"]
    by (simp add: abs_engine_def)
  show thesis
  proof (cases rule: run_cases [of "Some observe_analyzer" "unat limit" ?e])
    case (limit tr e')
    with inv [OF limit(2)] that show thesis by (simp add: run_workload_def)
  next
    case (trap tr e' t)
    have "wf_cpu (state e')" using trap(2) wf by (rule retires_wf_cpu)
    from step_refines [OF this trap(4)] workload_invariant_step [OF inv [OF trap(2)]]
    show thesis by auto
  qed
qed (use assms in simp)

text \<open>
  A reset makes a workload new: whatever it has run, processor, memory and every model of the
  analyzer are again what they were when it was made.
\<close>

lemma workload_reset_restores:
  assumes "make_workload v = Some w" and "run_workload limit w = Some (r, w')"
  shows "reset_workload w' = Some w"
proof (cases rule: make_workload_cases [of v])
  case (accepted a w1)
  with assms(1) have same: "w1 = w" by simp
  note ok = accepted [unfolded same]
  let ?e = "\<lparr>state = workload_state w, memory_of = workload_memory w,
    observer = workload_analyzer w\<rparr>"
  obtain e' where e': "run (Some observe_analyzer) (unat limit) ?e = Some (r, e')"
    "w' = w\<lparr>workload_state := state e', workload_memory := memory_of e',
       workload_analyzer := observer e'\<rparr>"
    using assms(2) by (auto simp: run_workload_def split: bind_splits)
  obtain tr where tr: "retires (Some observe_analyzer) ?e tr e'"
    using run_retires [OF e'(1)] by blast
  have wf: "wf_cpu (state e')" by (rule retires_wf_cpu [OF tr]) (simp add: ok(5))
  have "workload_region (memory_of e')"
    using retires_region [OF tr] ok(6) by (simp add: workload_region_def same_region_def)
  note memory = ok(8) [OF this]
  have "wf_analyzer (workload_analyzer w)"
    using reset_analyzer_wf [OF make_analyzer_wf(1) [OF ok(1)]] by (simp add: ok(4))
  then have "reset_analyzer (observer e') = workload_analyzer w"
    using retires_observer [OF tr] by (simp add: reset_analyzer_observations ok(4))
  moreover obtain m where "load_program (workload_program (workload_kind_of w)) (clear (memory_of e')) = Some m"
    "reset_workload w' = Some (w'\<lparr>workload_state := initial_cpu (workload_kind_of w),
       workload_memory := m, workload_analyzer := reset_analyzer (observer e')\<rparr>)"
    using reset_workload_eq [of w'] wf \<open>workload_region (memory_of e')\<close> by (auto simp: e'(2))
  ultimately show ?thesis using memory ok(5) by (simp add: e'(2))
qed (use assms(1) in simp)

lemma workload_reset_new:
  assumes "make_workload v = Some w"
  shows "reset_workload w = Some w"
proof -
  obtain tr e' where e': "retires (Some observe_analyzer) \<lparr>state = workload_state w,
      memory_of = workload_memory w, observer = workload_analyzer w\<rparr> tr e'"
    "length tr = unat (0 :: u64)" and run: "run_workload 0 w = Some (InstructionLimitReached (unat (0 :: u64)),
       w\<lparr>workload_state := state e', workload_memory := memory_of e', workload_analyzer := observer e'\<rparr>)"
    using workload_run [OF assms, of 0] by blast
  from e' have "e' = \<lparr>state = workload_state w, memory_of = workload_memory w,
    observer = workload_analyzer w\<rparr>" by (auto elim: retires.cases)
  with workload_reset_restores [OF assms run] show ?thesis by simp
qed

text \<open>
  C14: the benchmark workloads are programs for every budget. A workload is made exactly for the
  three kinds; it then retires any number of instructions without a trap, the analyzer counts
  each of them, and no memory changes but, for the stride workload, its 1024 bytes of data.
\<close>

theorem workloads_never_trap:
  "case make_workload v of
     None \<Rightarrow> 3 \<le> unat v
   | Some w \<Rightarrow> unat v < 3 \<and> (\<exists>w'. run_workload limit w =
         Some (InstructionLimitReached (unat limit), w') \<and>
       instructions_observed (workload_analyzer w') = limit \<and>
       (\<forall>c. workload_kind_of w = MemoryStride \<and> 0x2000 \<le> unat c \<and> unat c < 0x2400 \<or>
          cell (workload_memory w') c = cell (workload_memory w) c))"
proof (cases rule: make_workload_cases [of v])
  case (accepted a w)
  obtain tr e' where tr: "retires (Some observe_analyzer) \<lparr>state = workload_state w,
      memory_of = workload_memory w, observer = workload_analyzer w\<rparr> tr e'" "length tr = unat limit"
    and run: "run_workload limit w = Some (InstructionLimitReached (unat limit),
       w\<lparr>workload_state := state e', workload_memory := memory_of e', workload_analyzer := observer e'\<rparr>)"
    and inv: "workload_invariant (workload_kind_of w) (cell (workload_memory w)) (abs_engine e')"
    using workload_run [OF accepted(2), of limit] by blast
  have "wf_analyzer (workload_analyzer w)" "instructions_observed (workload_analyzer w) = 0"
    using make_analyzer_wf(1) [OF accepted(1)] reset_analyzer_wf
    by (simp_all add: accepted(4) reset_analyzer_def)
  with analyzer.retires_events [OF tr(1)] tr(2) have "instructions_observed (observer e') = limit"
    by (simp add: sum_list_triv)
  moreover have "in_window c \<longleftrightarrow> 0x2000 \<le> unat c \<and> unat c < 0x2400" for c
    unfolding in_window_def uint_nat by linarith
  then have "\<forall>c. workload_kind_of w = MemoryStride \<and> 0x2000 \<le> unat c \<and> unat c < 0x2400 \<or>
    cell (memory_of e') c = cell (workload_memory w) c"
    using inv by (auto simp: workload_invariant_def writable_def abs_engine_def)
  ultimately show ?thesis using accepted(2,3) run by auto
qed simp

end
