(* ===== verification/Act_Hooks.thy ===== *)
theory Act_Hooks
  imports Act_Smoke Benchmark_Workload
begin

text \<open>
  The hooks through which a conformance test reports its verdict:
  \<^verbatim>\<open>conformance/act4/rvmodel_macros.h\<close>. The macros are assembly text and the assembler
  is not part of the repository; what the hooks need of it is a locale, and the encoders of the
  benchmark's own assembler satisfy it. A test that reaches a hook gets the hook's verdict from
  the runner.
\<close>

section \<open>The macros\<close>

text \<open>The two instructions of the hooks, with register numbers for the names \<open>a0\<close> and \<open>a7\<close>.\<close>

datatype hook_instruction = Li nat int | Ecall

definition RVMODEL_HALT_PASS :: "hook_instruction list" where
  "RVMODEL_HALT_PASS = [Li 10 0, Li 17 93, Ecall]"

definition RVMODEL_HALT_FAIL :: "hook_instruction list" where
  "RVMODEL_HALT_FAIL = [Li 10 1, Li 17 93, Ecall]"

definition halt_hook :: "bool \<Rightarrow> hook_instruction list" where
  "halt_hook passed = (if passed then RVMODEL_HALT_PASS else RVMODEL_HALT_FAIL)"

section \<open>What an assembler does with them\<close>

text \<open>
  \<^verbatim>\<open>li\<close> of a 12-bit immediate is \<^verbatim>\<open>addi\<close> from register zero, and one instruction is one word.
\<close>

locale assembler =
  fixes assemble :: "hook_instruction \<Rightarrow> u32"
  assumes assemble_li: "0 < rd \<Longrightarrow> rd < 32 \<Longrightarrow> - 2048 \<le> i \<Longrightarrow> i < 2048 \<Longrightarrow>
      rv_decode (assemble (Li rd i)) = Some (ALUI Add rd 0 i)"
    and assemble_ecall: "rv_decode (assemble Ecall) = Some ECALL"
begin

text \<open>From the hook on, the first exception is the exit call with the hook's code.\<close>

lemma exit_hook_verdict:
  assumes "words_at (map assemble [Li 10 c, Li 17 93, Ecall]) (xpc A) (xmem A)"
    and "uint (xpc A) mod 4 = 0" and "xreg A 0 = 0" and "0 \<le> c" and "c < 2048"
  shows "arch_verdict (Suc (Suc (Suc n))) A = (if c = 0 then 0 else 1)"
proof -
  have pc: "uint (xpc A + 4) mod 4 = 0" "uint (xpc A + 4 + 4) mod 4 = 0"
    using assms(2) unat_add_4_mod_4 [of "xpc A"] unat_add_4_mod_4 [of "xpc A + 4"]
    by (simp_all only: uint_mod_4)
  note code = assms(1) [unfolded list.map words_at.simps]
  let ?B = "go (xpc A + 4) (put_reg 10 (word_of_int c) A)"
  let ?C = "go (xpc A + 4 + 4) (put_reg 17 93 ?B)"
  have "arch_step A = Retire ?B"
    using code assms by (simp add: arch_step_def assemble_li next_seq_def)
  moreover have "arch_step ?B = Retire ?C"
    using code assms pc by (simp add: arch_step_def assemble_li next_seq_def)
  moreover have "arch_step ?C = Except EnvironmentCallFromUserMode 0"
    using code assms pc by (simp add: arch_step_def assemble_ecall)
  moreover have "(word_of_int c :: u32) = 0 \<longleftrightarrow> c = 0"
    using assms(4,5) by (simp add: word_uint_eq_iff uint_word_of_int)
  ultimately show ?thesis by (simp add: arch_verdict.simps(2))
qed

end

section \<open>The encoders are such an assembler\<close>

fun assemble_word :: "hook_instruction \<Rightarrow> u32" where
  "assemble_word (Li rd i) = encode_immediate_operation (of_nat rd) 0 0 i"
| "assemble_word Ecall = kEcallInstruction"

lemma encoded_addi:
  assumes "unat rd < 32" and "unat rs1 < 32" and "- 2048 \<le> i" and "i < 2048"
  shows "rv_decode (encode_immediate_operation rd 0 rs1 i) = Some (ALUI Add (unat rd) (unat rs1) i)"
proof -
  let ?w = "encode_immediate_operation rd 0 rs1 i"
  have "bitfield 6 0 ?w = 0x13"
    using opcode_bitfield [of ?w OpImmediate] by (simp add: encoded_opcode)
  moreover have "bitfield 14 12 ?w = 0"
    using encoded_fields(2) [OF assms(1) _ assms(2), of 0 0 0 i] by (simp add: function3_eq_iff)
  moreover have "rd_of ?w = unat rd" "rs1_of ?w = unat rs1"
    using encoded_fields(1,3) [OF assms(1) _ assms(2), of 0 0 0 i] fields [of ?w] by simp_all
  moreover have "imm_I ?w = i"
  proof -
    have "word_of_int (imm_I ?w) = (word_of_int i :: u32)"
      using sign_extend_word_of_int [OF encoded_immediates(1) [of 0 rs1 0 rd i]] assms
      by (simp add: immediate_I)
    then have "(2 :: int) ^ 32 dvd imm_I ?w - i"
      by (simp add: word_of_int_eq_iff take_bit_eq_mod mod_eq_dvd_iff)
    moreover have "\<bar>imm_I ?w - i\<bar> < 2 ^ 32"
      using assms(3,4) by (simp add: imm_I_def bitfield_def)
    ultimately show ?thesis using dvd_imp_le_int [of "imm_I ?w - i" "2 ^ 32"] by fastforce
  qed
  ultimately show ?thesis
    by (simp add: rv_decode_def decode_op_imm_def op_kind_def Let_def)
qed

interpretation encoders: assembler assemble_word
proof
  show "rv_decode (assemble_word (Li rd i)) = Some (ALUI Add rd 0 i)"
    if "0 < rd" "rd < 32" "- 2048 \<le> i" "i < 2048" for rd i
    using encoded_addi [of "of_nat rd" 0 i] that by (simp add: unat_of_nat)
  show "rv_decode (assemble_word Ecall) = Some ECALL" by code_simp
qed

section \<open>Runs that reach a hook\<close>

lemma exec_aligned:
  assumes "exec i A = Retire B" and "uint (xpc A) mod 4 = 0"
  shows "uint (xpc B) mod 4 = 0"
proof -
  have seq: "uint (next_seq A) mod 4 = 0"
    using assms(2) unat_add_4_mod_4 [of "xpc A"] by (simp add: next_seq_def uint_mod_4)
  show ?thesis
    using assms(1) seq by (cases i) (auto simp: jump_to_def Let_def split: if_splits option.splits)
qed

lemma exec_zero: "exec i A = Retire B \<Longrightarrow> xreg B 0 = xreg A 0"
  by (cases i) (auto simp: jump_to_def Let_def put_reg_def go_def split: if_splits option.splits)

lemma arch_step_keeps:
  assumes "arch_step A = Retire B"
  shows "uint (xpc B) mod 4 = 0" and "xreg B 0 = xreg A 0"
  using assms by (auto simp: arch_step_def dest: exec_aligned exec_zero split: if_splits option.splits)

lemma arch_run_keeps:
  "arch_run k A = Retire B \<Longrightarrow> uint (xpc A) mod 4 = 0 \<Longrightarrow> uint (xpc B) mod 4 = 0 \<and> xreg B 0 = xreg A 0"
proof (induction k arbitrary: A)
  case (Suc k)
  from Suc.prems(1) obtain A1 where "arch_step A = Retire A1" "arch_run k A1 = Retire B"
    by (auto split: arch_outcome.splits)
  with Suc.IH [of A1] show ?case by (simp add: arch_step_keeps)
qed simp

lemma arch_run_verdict: "arch_run k A = Retire B \<Longrightarrow> arch_verdict (k + n) A = arch_verdict n B"
proof (induction k arbitrary: A)
  case (Suc k)
  then show ?case by (auto simp: arch_verdict.simps(2) split: arch_outcome.splits)
qed simp

section \<open>Properties\<close>

text \<open>
  C28: the hooks report the verdict of the test. A test that runs under the exit environment and
  after any number of retired instructions reaches the pass hook or the fail hook, assembled into
  its memory, with three steps left in its budget, ends with status 0 and the summary line PASSED,
  or with status 1 and the line FAILED.
\<close>

theorem halt_hooks_verdict:
  assumes "wf_cpu (state (engine_of s))" and "unat (program_counter (state (engine_of s))) mod 4 = 0"
    and "arch_run k (abs_engine (engine_of s)) = Retire B"
    and "words_at (map assemble_word (halt_hook passed)) (xpc B) (xmem B)"
    and "k + 3 \<le> unat limit"
  shows "\<exists>r s'. session_run obs exit_environment limit [] s = Some (r, s') \<and>
    fst (report_result (smoke_verdict r) path) = (if passed then 0 else 1) \<and>
    fst (snd (report_result (smoke_verdict r) path)) = print_summary passed path"
proof -
  have start: "uint (xpc (abs_engine (engine_of s))) mod 4 = 0" "xreg (abs_engine (engine_of s)) 0 = 0"
    using assms(1,2) by (simp_all add: abs_engine_def uint_mod_4)
  note B = arch_run_keeps [OF assms(3) start(1), unfolded start(2)]
  define n where "n = unat limit - k - 3"
  have n: "unat limit = k + Suc (Suc (Suc n))" using assms(5) by (simp add: n_def)
  have "arch_verdict (Suc (Suc (Suc n))) B = (if passed then 0 else 1)"
  proof (cases passed)
    case True
    with encoders.exit_hook_verdict [of 0 B n] assms(4) B show ?thesis
      by (simp add: halt_hook_def RVMODEL_HALT_PASS_def)
  next
    case False
    with encoders.exit_hook_verdict [of 1 B n] assms(4) B show ?thesis
      by (simp add: halt_hook_def RVMODEL_HALT_FAIL_def)
  qed
  then have "arch_verdict (unat limit) (abs_engine (engine_of s)) = (if passed then 0 else 1)"
    unfolding n arch_run_verdict [OF assms(3)] .
  moreover obtain r s' where run: "session_run obs exit_environment limit [] s = Some (r, s')"
    using smoke.session_run_defined [where s = s and obs = obs and limit = limit and bps = "[]"] by blast
  ultimately have status: "fst (report_result (smoke_verdict r) path) = (if passed then 0 else 1)"
    using smoke_session_verdict [OF assms(1) run, of path] by simp
  with run report_summary [of "smoke_verdict r" path] show ?thesis by auto
qed

definition sample_hook_session :: "(unit, unit) session" where
  "sample_hook_session = \<lparr>engine_of = \<lparr>state = initial_cpu_state, memory_of = \<lparr>base_address = 0,
     bytes = [0x13, 0x05, 0x10, 0, 0x93, 0x08, 0xD0, 0x05, 0x73, 0, 0, 0]\<rparr>, observer = ()\<rparr>,
     environment = ()\<rparr>"

lemma halt_hooks_verdict_witness:
  "\<exists>r s'. session_run (None :: unit observe) exit_environment 3 [] sample_hook_session = Some (r, s') \<and>
    fst (report_result (smoke_verdict r) ''t.elf'') = 1"
proof -
  have "wf_cpu (state (engine_of sample_hook_session))"
    "unat (program_counter (state (engine_of sample_hook_session))) mod 4 = 0"
    by (simp add: sample_hook_session_def) code_simp
  moreover have "words_at (map assemble_word (halt_hook False))
      (xpc (abs_engine (engine_of sample_hook_session))) (xmem (abs_engine (engine_of sample_hook_session)))"
    by code_simp
  ultimately show ?thesis
    using halt_hooks_verdict [where k = 0 and s = sample_hook_session and passed = False and limit = 3
        and obs = None and path = "''t.elf''"] by fastforce
qed

end
