(* ===== verification/Binary64.thy ===== *)
theory Binary64
  imports Prelude Complex_Main "HOL-Library.Log_Nat"
begin

text \<open>
  Double-precision arithmetic on nonnegative numbers, as far as the benchmark counters need it:
  a number is a rational, every operation of the code is the exact operation followed by rounding
  to 53 significant bits, to nearest with ties to even. Overflow and the subnormal range are left
  out: the operands are 64-bit counters, whose products with 100 and quotients lie in between.
\<close>

section \<open>Rounding\<close>

definition round_half_even :: "rat \<Rightarrow> int" where
  "round_half_even x =
     (let f = \<lfloor>x\<rfloor>; rest = x - of_int f
      in if rest < 1 / 2 \<or> rest = 1 / 2 \<and> even f then f else f + 1)"

text \<open>The unit in the last place of a positive number, as a power of two.\<close>

definition ulp_exponent :: "rat \<Rightarrow> int" where
  "ulp_exponent x =
     (let (n, d) = quotient_of x; e = bitlen n - bitlen d - 53
      in if x < 2 powi (e + 53) then e else e + 1)"

definition binary64 :: "rat \<Rightarrow> rat" where
  "binary64 x =
     (if x = 0 then 0
      else let u = 2 powi ulp_exponent x in of_int (round_half_even (x / u)) * u)"

text \<open>\<^verbatim>\<open>static_cast<double>\<close> of a 64-bit number, and the two operations the code uses.\<close>

definition as_double :: "u64 \<Rightarrow> rat" where
  "as_double v = binary64 (of_int (uint v))"

definition double_times :: "rat \<Rightarrow> rat \<Rightarrow> rat" where
  "double_times a b = binary64 (a * b)"

definition double_divide :: "rat \<Rightarrow> rat \<Rightarrow> rat" where
  "double_divide a b = binary64 (a / b)"

section \<open>Rounding is monotone and exact where it can be\<close>

lemma round_half_even_of_int [simp]: "round_half_even (of_int i) = i"
  by (simp add: round_half_even_def)

lemma round_half_even_mono: "x \<le> y \<Longrightarrow> round_half_even x \<le> round_half_even y"
proof -
  assume le: "x \<le> y"
  show ?thesis
  proof (cases "\<lfloor>x\<rfloor> = \<lfloor>y\<rfloor>")
    case True
    with le show ?thesis by (auto simp: round_half_even_def Let_def)
  next
    case False
    with floor_mono [OF le] have "\<lfloor>x\<rfloor> + 1 \<le> \<lfloor>y\<rfloor>" by simp
    then show ?thesis by (auto simp: round_half_even_def Let_def)
  qed
qed

lemma ulp_exponent_bounds:
  assumes "0 < x"
  shows "2 powi (ulp_exponent x + 52) \<le> x" and "x < 2 powi (ulp_exponent x + 53)"
proof -
  obtain n d where nd: "quotient_of x = (n, d)" by fastforce
  have d: "0 < d" using quotient_of_denom_pos [OF nd] .
  have x: "x = of_int n / of_int d" using quotient_of_div [OF nd] .
  with assms d have n: "0 < n" by (simp add: zero_less_divide_iff)
  have bits: "2 powi (bitlen k - 1) \<le> (of_int k :: rat)" "(of_int k :: rat) < 2 powi bitlen k"
    if "0 < k" for k :: int
  proof -
    have b: "0 < bitlen k" using that bitlen_bounds [OF that] bitlen_nonneg [of k]
      by (cases "bitlen k = 0") simp_all
    have "(2 :: rat) powi (bitlen k - 1) = of_int (2 ^ nat (bitlen k - 1))"
      "(2 :: rat) powi bitlen k = of_int (2 ^ nat (bitlen k))"
      using b by (simp_all add: power_int_def)
    with bitlen_bounds [OF that] show "2 powi (bitlen k - 1) \<le> (of_int k :: rat)"
      "(of_int k :: rat) < 2 powi bitlen k" by (simp_all only: of_int_le_iff of_int_less_iff)
  qed
  let ?e = "bitlen n - bitlen d - 53"
  have "2 powi (bitlen n - 1) * of_int d < of_int n * (2 powi bitlen d :: rat)"
    using bits [OF n] bits [OF d] d by (intro mult_le_less_imp_less) simp_all
  then have low: "2 powi (?e + 52) \<le> x"
    using d by (simp add: x power_int_diff field_simps power_int_add)
  have "of_int n * 2 powi (bitlen d - 1) < (2 powi bitlen n :: rat) * of_int d"
    using bits [OF n] bits [OF d] n d by (intro mult_less_le_imp_less) simp_all
  then have high: "x < 2 powi (?e + 54)"
    using d by (simp add: x power_int_diff field_simps power_int_add)
  show "2 powi (ulp_exponent x + 52) \<le> x" and "x < 2 powi (ulp_exponent x + 53)"
    using low high by (auto simp: ulp_exponent_def nd Let_def add.commute)
qed

text \<open>A rounded number stays in its binade, so rounding is monotone.\<close>

lemma binary64_binade:
  assumes "0 < x"
  shows "2 powi (ulp_exponent x + 52) \<le> binary64 x" and "binary64 x \<le> 2 powi (ulp_exponent x + 53)"
proof -
  let ?u = "2 powi ulp_exponent x :: rat"
  have u: "0 < ?u" by simp
  have "2 ^ 52 \<le> x / ?u" "x / ?u \<le> 2 ^ 53"
    using ulp_exponent_bounds [OF assms] u by (simp_all add: power_int_add field_simps)
  then have "round_half_even (of_int (2 ^ 52)) \<le> round_half_even (x / ?u)"
    "round_half_even (x / ?u) \<le> round_half_even (of_int (2 ^ 53))"
    by (intro round_half_even_mono; simp)+
  then have "(of_int (2 ^ 52) :: rat) \<le> of_int (round_half_even (x / ?u))"
    "of_int (round_half_even (x / ?u)) \<le> (of_int (2 ^ 53) :: rat)"
    unfolding round_half_even_of_int of_int_le_iff .
  with u show "2 powi (ulp_exponent x + 52) \<le> binary64 x" "binary64 x \<le> 2 powi (ulp_exponent x + 53)"
    using assms by (simp_all add: binary64_def Let_def power_int_add mult.commute)
qed

lemma binary64_zero [simp]: "binary64 0 = 0"
  by (simp add: binary64_def)

lemma binary64_nonneg: "0 \<le> x \<Longrightarrow> 0 \<le> binary64 x"
  using binary64_binade(1) [of x] order_trans [of 0 "2 powi (ulp_exponent x + 52)" "binary64 x"]
  by (cases "x = 0") simp_all

lemma binary64_mono:
  assumes "0 \<le> x" and "x \<le> y"
  shows "binary64 x \<le> binary64 y"
proof (cases "x = 0")
  case True
  with assms show ?thesis by (simp add: binary64_nonneg)
next
  case False
  with assms have x: "0 < x" and y: "0 < y" by simp_all
  note bx = ulp_exponent_bounds [OF x] and by' = ulp_exponent_bounds [OF y]
  have le: "ulp_exponent x \<le> ulp_exponent y"
  proof (rule ccontr)
    assume "\<not> ?thesis"
    then have "ulp_exponent y + 53 \<le> ulp_exponent x + 52" by simp
    then have "(2 :: rat) powi (ulp_exponent y + 53) \<le> 2 powi (ulp_exponent x + 52)"
      by (intro power_int_increasing) simp_all
    with bx(1) by'(2) assms(2) show False by simp
  qed
  show ?thesis
  proof (cases "ulp_exponent x = ulp_exponent y")
    case True
    have "x / 2 powi ulp_exponent x \<le> y / 2 powi ulp_exponent x"
      using assms(2) by (intro divide_right_mono) simp_all
    from round_half_even_mono [OF this] x y True show ?thesis
      by (simp add: binary64_def Let_def mult_right_mono)
  next
    case False
    with le have "ulp_exponent x + 53 \<le> ulp_exponent y + 52" by simp
    then have "(2 :: rat) powi (ulp_exponent x + 53) \<le> 2 powi (ulp_exponent y + 52)"
      by (intro power_int_increasing) simp_all
    with binary64_binade(2) [OF x] binary64_binade(1) [OF y] show ?thesis by simp
  qed
qed

text \<open>Natural numbers of at most 53 bits are represented exactly.\<close>

lemma binary64_integral:
  assumes "0 < x" and "x / 2 powi ulp_exponent x = of_int k"
  shows "binary64 x = x"
proof -
  have "binary64 x = of_int k * 2 powi ulp_exponent x"
    using assms by (simp add: binary64_def Let_def)
  also have "\<dots> = x" using assms(2) by (simp add: field_simps)
  finally show ?thesis .
qed

lemma binary64_of_nat:
  assumes "n \<le> 2 ^ 53"
  shows "binary64 (of_nat n) = of_nat n"
proof (cases "n = 0")
  case False
  let ?x = "of_nat n :: rat" and ?e = "ulp_exponent (of_nat n)"
  have x: "0 < ?x" using False by simp
  note b = ulp_exponent_bounds [OF x]
  have le: "?x \<le> 2 ^ 53" using assms by (metis of_nat_le_iff of_nat_numeral of_nat_power)
  with b(1) have "(2 :: rat) powi (?e + 52) \<le> 2 powi 53" by simp
  then have "?e + 52 \<le> 53" using power_int_le_imp_le_exp [of "2 :: rat" "?e + 52" 53] by simp
  then consider "?e \<le> 0" | "?e = 1" by linarith
  then show ?thesis
  proof cases
    case 1
    then have "?x / 2 powi ?e = of_int (int n * 2 ^ nat (- ?e))"
      by (simp add: power_int_def field_simps)
    with x show ?thesis by (rule binary64_integral)
  next
    case 2
    with b(1) le have n: "?x = 2 ^ 53" by simp
    have "?x / 2 powi ?e = ?x / 2" unfolding 2 by simp
    also have "\<dots> = of_int (2 ^ 52)" unfolding n by simp
    finally have "?x / 2 powi ?e = of_int (2 ^ 52)" .
    with x show ?thesis by (rule binary64_integral)
  qed
qed simp

lemma as_double_exact: "unat v \<le> 2 ^ 53 \<Longrightarrow> as_double v = of_nat (unat v)"
  unfolding as_double_def uint_nat of_int_of_nat_eq by (rule binary64_of_nat)

text \<open>A quotient that lies between two natural numbers is rounded to a number between them.\<close>

lemma double_divide_bounds:
  assumes "of_nat lo \<le> a / b" and "a / b \<le> of_nat hi" and "hi \<le> 2 ^ 53"
  shows "of_nat lo \<le> double_divide a b" and "double_divide a b \<le> of_nat hi"
proof -
  have "(of_nat lo :: rat) \<le> of_nat hi" using assms(1,2) by (rule order_trans)
  then have "lo \<le> 2 ^ 53" using assms(3) by simp
  with binary64_mono [OF _ assms(1)] show "of_nat lo \<le> double_divide a b"
    by (simp add: double_divide_def binary64_of_nat)
  have "0 \<le> a / b" using order_trans [OF _ assms(1), of 0] by simp
  with binary64_mono [OF _ assms(2)] show "double_divide a b \<le> of_nat hi"
    by (simp add: double_divide_def binary64_of_nat [OF assms(3)])
qed

end
