(* ===== verification/Isa_Observation.thy ===== *)
theory Isa_Observation
  imports Isa_Refinement
begin

text \<open>
  What an instruction does to the outside of the processor, stated for the architecture: where it
  is fetched, which data it accesses and how it transfers control. The observations that the
  engine reports to its observer are these footprints, one for each architectural step.
\<close>

section \<open>Footprints of the architecture\<close>

record footprint =
  fp_pc :: u32
  fp_data :: "(data_memory_access_kind \<times> u32 \<times> nat) option"
  fp_flow :: "(control_flow_kind \<times> bool) option"

fun data_access :: "rv_instr \<Rightarrow> arch \<Rightarrow> (data_memory_access_kind \<times> u32 \<times> nat) option" where
  "data_access (LOAD k rd rs1 imm) A =
     Some (LoadAccess, word_of_int (uint (xreg A rs1) + imm), load_width k)"
| "data_access (STORE k rs1 rs2 imm) A =
     Some (StoreAccess, word_of_int (uint (xreg A rs1) + imm), store_width k)"
| "data_access i A = None"

fun control_transfer :: "rv_instr \<Rightarrow> arch \<Rightarrow> (control_flow_kind \<times> bool) option" where
  "control_transfer (BRANCH c rs1 rs2 imm) A =
     Some (ConditionalBranch, branch_holds c (xreg A rs1) (xreg A rs2))"
| "control_transfer (JAL rd imm) A = Some (DirectJump, True)"
| "control_transfer (JALR rd rs1 imm) A = Some (IndirectJump, True)"
| "control_transfer i A = None"

definition current_instruction :: "arch \<Rightarrow> rv_instr option" where
  "current_instruction A =
     Option.bind (le_value (xmem A) (xpc A) 4) (\<lambda>v. rv_decode (word_of_int v))"

definition footprint_of :: "arch \<Rightarrow> footprint" where
  "footprint_of A = \<lparr>fp_pc = xpc A,
     fp_data = Option.bind (current_instruction A) (\<lambda>i. data_access i A),
     fp_flow = Option.bind (current_instruction A) (\<lambda>i. control_transfer i A)\<rparr>"

text \<open>The footprints of the first \<open>n\<close> steps, up to an exception.\<close>

fun footprints :: "nat \<Rightarrow> arch \<Rightarrow> footprint list" where
  "footprints 0 A = []"
| "footprints (Suc n) A =
     (case arch_step A of Retire B \<Rightarrow> footprint_of A # footprints n B | Except _ _ \<Rightarrow> [])"

section \<open>The engine reports them\<close>

definition accessed :: "data_memory_access_observation \<Rightarrow> data_memory_access_kind \<times> u32 \<times> nat" where
  "accessed a = (access_kind a, access_address a, unat (width_bytes a))"

definition transferred :: "control_flow_observation \<Rightarrow> control_flow_kind \<times> bool" where
  "transferred f = (flow_kind f, taken f)"

definition observed_footprint :: "execution_observation \<Rightarrow> footprint" where
  "observed_footprint ob = \<lparr>fp_pc = observed_program_counter ob,
     fp_data = map_option accessed (data_memory_access ob),
     fp_flow = map_option transferred (control_flow ob)\<rparr>"

lemma load_width_spec:
  "function3 i = field w 12 7 \<Longrightarrow> load_kind_of (bitfield 14 12 w) = Some k \<Longrightarrow>
     unat (data_access_width i) = load_width k"
  unfolding data_access_width_def load_kind_of_def
  by (auto simp: function3_eq_iff split: if_splits)

lemma store_width_spec:
  "function3 i = field w 12 7 \<Longrightarrow> store_kind_of (bitfield 14 12 w) = Some k \<Longrightarrow>
     unat (data_access_width i) = store_width k"
  unfolding data_access_width_def store_kind_of_def
  by (auto simp: function3_eq_iff split: if_splits)

lemma decode_op_imm_effects:
  assumes "decode_op_imm w = Some r"
  shows "data_access r A = None" and "control_transfer r A = None"
  using decode_op_imm_shape [OF assms] by auto

lemma opcode_footprint:
  assumes "decode_instruction w = Some i" and "wf_cpu s"
    and "execute_opcode i (program_counter s) s m = Some (Inr (l, m'))"
    and "rv_decode w = Some r"
  shows "map_option accessed (local_access l) = data_access r (abs_arch s m)"
    and "map_option transferred (local_flow l) = control_transfer r (abs_arch s m)"
proof -
  note fields = decoded_bitfield [OF assms(1)] decoded_fields [OF assms(1)]
  note widths = load_width_spec [of i w] store_width_spec [of i w] function3_eq_iff [of w 0]
  have "map_option accessed (local_access l) = data_access r (abs_arch s m) \<and>
    map_option transferred (local_flow l) = control_transfer r (abs_arch s m)"
    using assms(3,4) fields widths
    by (cases "opcode i")
      (auto simp: execute_opcode_def initial_locals_def rv_decode_def Let_def rd_less accessed_def
        transferred_def evaluate_branch_spec [of i w] decode_op_imm_effects
        split: if_splits option.splits sum.splits)
  then show "map_option accessed (local_access l) = data_access r (abs_arch s m)"
    "map_option transferred (local_flow l) = control_transfer r (abs_arch s m)" by simp_all
qed

lemma completes_footprint:
  assumes "completes obs e ob e'" and "wf_cpu (state e)"
  shows "observed_footprint ob = footprint_of (abs_engine e)"
  using assms(1)
proof cases
  case (completesI w i l m' s')
  let ?A = "abs_engine e"
  have x: "outcome_of i (state e) (Inr (l, m')) = spec_outcome w ?A"
    using opcode_outcome [OF completesI(4) assms(2) completesI(5)] by (simp add: abs_engine_def)
  then obtain r where r: "rv_decode w = Some r"
    using completesI(6) by (auto simp: outcome_of_def spec_outcome_def split: option.splits)
  have "current_instruction ?A = Some r"
    using completesI(2,3) r
    by (auto simp: current_instruction_def abs_engine_def read32_le uint_mod_4 split: option.splits if_splits)
  with opcode_footprint [OF completesI(4) assms(2) completesI(5) r] completesI(7) show ?thesis
    by (simp add: observed_footprint_def footprint_of_def abs_engine_def)
qed

lemma retires_footprints:
  assumes "retires obs e tr e'" and "wf_cpu (state e)"
  shows "map observed_footprint tr = footprints (length tr) (abs_engine e)"
  using assms
  by (induction rule: retires.induct)
    (auto simp: completes_footprint completes_refines completes_wf_cpu)

fun retired :: "run_result \<Rightarrow> nat" where
  "retired (InstructionLimitReached n) = n"
| "retired (RunTrapped n t) = n"

lemma run_retired:
  assumes "run obs limit e = Some (r, e')"
  obtains tr where "retires obs e tr e'" and "length tr = retired r"
  using assms by (cases rule: run_cases [where obs = obs and limit = limit and e = e]) auto

section \<open>Properties\<close>

text \<open>
  C6: an observer sees the execution of the architecture. In a bounded run it is told the
  retired instructions in order, each once, and what it is told of each, the address of the
  instruction, kind, address and width of its data access, and kind and outcome of its control
  transfer, is what the architecture determines in the state before it.
\<close>

theorem observations_implement_isa:
  assumes "wf_cpu (state e)" and "run (Some observe) limit e = Some (r, e')"
  shows "\<exists>tr. observer e' = fold observe tr (observer e) \<and> length tr = retired r \<and>
    map observed_footprint tr = footprints (retired r) (abs_engine e)"
proof -
  obtain tr where tr: "retires (Some observe) e tr e'" "length tr = retired r"
    by (rule run_retired [OF assms(2)])
  have "notify (Some observe) = observe" by (simp add: notify_def fun_eq_iff)
  with retires_observer [OF tr(1)] retires_footprints [OF tr(1) assms(1)] tr(2) show ?thesis
    by auto
qed

lemma observations_implement_isa_witness:
  "\<exists>r e'. run (Some (\<lambda>ob xs. xs @ [observed_footprint ob])) 5 (sample_engine []) = Some (r, e') \<and>
     observer e' = footprints (retired r) (abs_engine (sample_engine ([] :: footprint list)))"
proof -
  let ?e = "sample_engine ([] :: footprint list)"
  obtain r e' where run: "run (Some (\<lambda>ob xs. xs @ [observed_footprint ob])) 5 ?e = Some (r, e')"
    by (rule run_total)
  have "fold (\<lambda>ob xs. xs @ [observed_footprint ob]) tr ys = ys @ map observed_footprint tr" for tr ys
    by (induction tr arbitrary: ys) simp_all
  moreover have "wf_cpu (state ?e)" "observer ?e = []" by (simp_all add: sample_engine_def)
  ultimately show ?thesis using observations_implement_isa [OF _ run] run by auto
qed

end
