(* ===== verification/Performance_Report.thy ===== *)
theory Performance_Report
  imports Isa_Observation Performance_Analyzer
begin

text \<open>
  What the performance analyzer reports, stated without its code: the behaviour of a least
  recently used cache on a sequence of block numbers, of a branch predictor on a sequence of
  outcomes, and their counts over the footprints of an execution of the architecture. The
  statistics of an observed run are these counts.
\<close>

section \<open>Reference caches\<close>

fun lru_hits :: "nat \<Rightarrow> nat \<Rightarrow> nat list \<Rightarrow> nat list \<Rightarrow> bool list" where
  "lru_hits sets ways hist [] = []"
| "lru_hits sets ways hist (b # bs) =
     block_hits sets ways hist b # lru_hits sets ways (hist @ [b]) bs"

definition cache_behaviour :: "cache_configuration \<Rightarrow> u32 list \<Rightarrow> bool list" where
  "cache_behaviour conf as =
     lru_hits (sets_of conf) (unat (associativity conf)) [] (map (line_of conf) as)"

definition hit_statistics :: "bool list \<Rightarrow> cache_statistics" where
  "hit_statistics hs = \<lparr>accesses = of_nat (length hs), hits = of_nat (length (filter (\<lambda>h. h) hs)),
     misses = of_nat (length (filter Not hs))\<rparr>"

section \<open>Reference branch predictors\<close>

text \<open>The predictions for a sequence of branches, each with its outcome.\<close>

definition predicts :: "branch_predictor_configuration \<Rightarrow> (nat \<Rightarrow> two_bit_counter_state) \<Rightarrow> nat \<Rightarrow> bool" where
  "predicts conf T pc \<longleftrightarrow> (case strategy conf of
     AlwaysTaken \<Rightarrow> True
   | BimodalTwoBit \<Rightarrow> WeaklyTaken \<le> T (pc div 4 mod unat (table_entries conf))
   | _ \<Rightarrow> False)"

definition learns :: "branch_predictor_configuration \<Rightarrow> nat \<Rightarrow> bool \<Rightarrow>
    (nat \<Rightarrow> two_bit_counter_state) \<Rightarrow> (nat \<Rightarrow> two_bit_counter_state)" where
  "learns conf pc b T = (let i = pc div 4 mod unat (table_entries conf) in T(i := saturate b (T i)))"

fun predictor_behaviour :: "branch_predictor_configuration \<Rightarrow> (nat \<Rightarrow> two_bit_counter_state) \<Rightarrow>
    (nat \<times> bool) list \<Rightarrow> (bool \<times> bool) list" where
  "predictor_behaviour conf T [] = []"
| "predictor_behaviour conf T ((pc, b) # bs) =
     (predicts conf T pc, b) # predictor_behaviour conf (learns conf pc b T) bs"

definition outcome_statistics :: "(bool \<times> bool) list \<Rightarrow> branch_prediction_statistics" where
  "outcome_statistics ps = \<lparr>predictions = of_nat (length ps),
     correct = of_nat (length (filter (\<lambda>(p, b). p = b) ps)),
     incorrect = of_nat (length (filter (\<lambda>(p, b). p \<noteq> b) ps)),
     predicted_taken = of_nat (length (filter (\<lambda>(p, b). p) ps)),
     predicted_not_taken = of_nat (length (filter (\<lambda>(p, b). \<not> p) ps)),
     actual_taken = of_nat (length (filter (\<lambda>(p, b). b) ps)),
     actual_not_taken = of_nat (length (filter (\<lambda>(p, b). \<not> b) ps))\<rparr>"

section \<open>The report of an execution\<close>

definition branch_outcome :: "footprint \<Rightarrow> (nat \<times> bool) option" where
  "branch_outcome fp = (case fp_flow fp of
     Some (ConditionalBranch, b) \<Rightarrow> Some (unat (fp_pc fp), b) | _ \<Rightarrow> None)"

definition of_kind :: "data_memory_access_kind \<Rightarrow> 'a list \<Rightarrow> data_memory_access_kind list \<Rightarrow> 'a list" where
  "of_kind k hs ks = map fst (filter (\<lambda>(h, k'). k' = k) (zip hs ks))"

definition report_of :: "analyzer_configuration \<Rightarrow> footprint list \<Rightarrow> analyzer_statistics" where
  "report_of conf fps =
     (let data = List.map_filter fp_data fps;
          hs = cache_behaviour (data_configuration (cache_part conf)) (map (fst \<circ> snd) data);
          bp = branch_predictor_part conf
      in \<lparr>observed_instructions = of_nat (length fps),
          cache_summary = \<lparr>
            instruction_statistics = hit_statistics
              (cache_behaviour (instruction_configuration (cache_part conf)) (map fp_pc fps)),
            data_statistics = \<lparr>data_total = hit_statistics hs,
              data_loads = hit_statistics (of_kind LoadAccess hs (map fst data)),
              data_stores = hit_statistics (of_kind StoreAccess hs (map fst data))\<rparr>\<rparr>,
          prediction_summary = outcome_statistics (predictor_behaviour bp
            (\<lambda>_. counter_state (initial_counter bp)) (List.map_filter branch_outcome fps))\<rparr>)"

section \<open>The cache model behaves like the reference\<close>

definition outcome_of_hit :: "bool \<Rightarrow> cache_access_result" where
  "outcome_of_hit h = (if h then Hit else Miss)"

lemma access_all_append:
  "access_all (as @ bs) c = (fst (access_all as c) @ fst (access_all bs (snd (access_all as c))),
     snd (access_all bs (snd (access_all as c))))"
  by (induction as arbitrary: c) (simp_all add: split_beta)

lemma access_all_behaviour_from:
  assumes "make_cache conf = Inr c"
  shows "fst (access_all as (snd (access_all hist c))) = map outcome_of_hit
    (lru_hits (sets_of conf) (unat (associativity conf)) (map (line_of conf) hist) (map (line_of conf) as))"
proof (induction as arbitrary: hist)
  case (Cons a as)
  let ?c = "snd (access_all hist c)"
  have "fst (access_cache a ?c) = Hit \<longleftrightarrow>
      block_hits (sets_of conf) (unat (associativity conf)) (map (line_of conf) hist) (line_of conf a)"
    using access_after [OF assms, of hist "fst (access_all hist c)" ?c a] resident_iff [OF assms]
    by simp
  then have "fst (access_cache a ?c) = outcome_of_hit
      (block_hits (sets_of conf) (unat (associativity conf)) (map (line_of conf) hist) (line_of conf a))"
    by (cases "fst (access_cache a ?c)") (auto simp: outcome_of_hit_def)
  moreover have "snd (access_cache a ?c) = snd (access_all (hist @ [a]) c)"
    by (simp add: access_all_append split_beta)
  ultimately show ?case using Cons.IH [of "hist @ [a]"] by (simp add: split_beta)
qed simp

lemma access_all_behaviour:
  "make_cache conf = Inr c \<Longrightarrow> fst (access_all as c) = map outcome_of_hit (cache_behaviour conf as)"
  using access_all_behaviour_from [of conf c as "[]"] by (simp add: cache_behaviour_def)

text \<open>The counters of a sequence of outcomes.\<close>

lemma fold_record_access:
  "fold record_access (map outcome_of_hit hs) st =
     \<lparr>accesses = accesses st + of_nat (length hs),
      hits = hits st + of_nat (length (filter (\<lambda>h. h) hs)),
      misses = misses st + of_nat (length (filter Not hs))\<rparr>"
  by (induction hs arbitrary: st) (simp_all add: record_access_def outcome_of_hit_def Let_def)

lemma record_hit_statistics:
  "fold record_access (map outcome_of_hit hs) zero_statistics = hit_statistics hs"
  by (simp add: fold_record_access hit_statistics_def zero_statistics_def)

lemma access_all_statistics:
  "wf_cache c \<Longrightarrow> cache_stats (snd (access_all as c)) =
     fold record_access (fst (access_all as c)) (cache_stats c)"
proof (induction as arbitrary: c)
  case (Cons a as)
  obtain r c1 where first: "access_cache a c = (r, c1)" by fastforce
  with Cons.IH [of c1] access_cache_refines(1) [OF Cons.prems first]
    access_geometry(3) [OF Cons.prems first] show ?case
    by (simp add: split_beta)
qed simp

section \<open>The observers behave like the references\<close>

lemma of_kind_simps [simp]:
  "of_kind k [] ks = []"
  "of_kind k (h # hs) (k' # ks) = (if k' = k then h # of_kind k hs ks else of_kind k hs ks)"
  by (simp_all add: of_kind_def)

lemma map_of_kind: "of_kind k (map f hs) ks = map f (of_kind k hs ks)"
  by (induction hs ks rule: list_induct2') (simp_all add: of_kind_def)

lemma fold_observe_split:
  "fold observe_split tr c = (let data = List.map_filter data_memory_access tr;
       (rs, dc) = access_all (map access_address data) (data_cache c); ks = map access_kind data
     in c\<lparr>instruction_cache :=
            snd (access_all (map observed_program_counter tr) (instruction_cache c)),
          data_cache := dc,
          load_statistics := fold record_access (of_kind LoadAccess rs ks) (load_statistics c),
          store_statistics := fold record_access (of_kind StoreAccess rs ks) (store_statistics c)\<rparr>)"
proof (induction tr arbitrary: c)
  case (Cons ob tr)
  show ?case
  proof (cases "data_memory_access ob")
    case None
    with Cons show ?thesis by (simp add: observe_split_def map_filter_simps split_beta Let_def)
  next
    case (Some a)
    with Cons show ?thesis
      by (cases "access_kind a") (simp_all add: observe_split_def map_filter_simps split_beta Let_def)
  qed
qed (simp add: map_filter_simps)

text \<open>The table of a predictor, over all slots.\<close>

definition agrees :: "branch_predictor \<Rightarrow> (nat \<Rightarrow> two_bit_counter_state) \<Rightarrow> bool" where
  "agrees p T \<longleftrightarrow> (\<forall>i < length (counters p). table p i = T i)"

definition branch_seen :: "execution_observation \<Rightarrow> (nat \<times> bool) option" where
  "branch_seen ob = map_option (\<lambda>b. (unat (observed_program_counter ob), b)) (branch_of ob)"

lemma observe_branch_fields:
  "predictor_configuration (observe_branch ob p) = predictor_configuration p"
  "branch_of ob = Some b \<Longrightarrow> predictor_statistics (observe_branch ob p) =
     record_prediction (predict p (observed_program_counter ob)) b (predictor_statistics p)"
  "branch_of ob = None \<Longrightarrow> observe_branch ob p = p"
  by (simp_all add: observe_branch_eq split: option.split)

lemma predict_agrees:
  assumes "wf_predictor p" and "agrees p T" and "branch_of ob = Some b"
  defines "conf \<equiv> predictor_configuration p" and "pc \<equiv> unat (observed_program_counter ob)"
  shows "predict p (observed_program_counter ob) = predicts conf T pc"
    and "agrees (observe_branch ob p) (learns conf pc b T)"
proof -
  let ?i = "pc div 4 mod length (counters p)"
  have "predict p (observed_program_counter ob) = predicts conf T pc \<and>
    agrees (observe_branch ob p) (learns conf pc b T)"
  proof (cases "strategy conf = BimodalTwoBit")
    case True
    then have bim: "strategy (predictor_configuration p) = BimodalTwoBit" by (simp add: conf_def)
    have n: "unat (table_entries conf) = length (counters p)"
      using bimodal_entries(2) [OF assms(1) bim] by (simp add: conf_def)
    have i: "?i < length (counters p)"
      using table_index_less [OF assms(1) bim, of "observed_program_counter ob"]
      by (simp add: table_index_eq [OF assms(1) bim] pc_def)
    note refines = observe_branch_refines [OF assms(1) bim assms(3), folded pc_def]
    have "predict p (observed_program_counter ob) = predicts conf T pc"
      using refines(1) [OF i] assms(2) i True by (simp add: predicts_def n agrees_def)
    moreover have "length (counters (observe_branch ob p)) = length (counters p)"
      by (simp add: observe_branch_eq assms(3))
    ultimately show ?thesis
      using refines(2) assms(2) i by (simp add: agrees_def learns_def Let_def n)
  next
    case False
    then have "counters p = []"
      using assms(1) by (auto simp: wf_predictor_def counter_count_def conf_def)
    then have "agrees (observe_branch ob p) T'" for T'
      by (simp add: agrees_def observe_branch_eq assms(3) update_predictor_def
          False [unfolded conf_def])
    with False show ?thesis
      by (auto simp: predict_def predicts_def conf_def split: branch_prediction_strategy.split)
  qed
  then show "predict p (observed_program_counter ob) = predicts conf T pc"
    and "agrees (observe_branch ob p) (learns conf pc b T)" by simp_all
qed

lemma fold_observe_branch:
  assumes "wf_predictor p" and "agrees p T"
  shows "predictor_statistics (fold observe_branch tr p) =
    fold (\<lambda>(q, b). record_prediction q b)
      (predictor_behaviour (predictor_configuration p) T (List.map_filter branch_seen tr))
      (predictor_statistics p)"
  using assms
proof (induction tr arbitrary: p T)
  case (Cons ob tr)
  show ?case
  proof (cases "branch_of ob")
    case None
    with Cons show ?thesis by (simp add: observe_branch_fields branch_seen_def map_filter_simps)
  next
    case (Some b)
    note agree = predict_agrees [OF Cons.prems Some]
    from Cons.IH [OF observe_branch_wf [OF Cons.prems(1)] agree(2)] show ?thesis
      by (simp add: Some branch_seen_def map_filter_simps observe_branch_fields(1)
          observe_branch_fields(2) [OF Some] agree(1))
  qed
qed (simp add: map_filter_simps)

lemma fold_record_prediction:
  "fold (\<lambda>(q, b). record_prediction q b) ps zero_predictions = outcome_statistics ps"
proof -
  have "fold (\<lambda>(q, b). record_prediction q b) ps st = \<lparr>
      predictions = predictions st + predictions (outcome_statistics ps),
      correct = correct st + correct (outcome_statistics ps),
      incorrect = incorrect st + incorrect (outcome_statistics ps),
      predicted_taken = predicted_taken st + predicted_taken (outcome_statistics ps),
      predicted_not_taken = predicted_not_taken st + predicted_not_taken (outcome_statistics ps),
      actual_taken = actual_taken st + actual_taken (outcome_statistics ps),
      actual_not_taken = actual_not_taken st + actual_not_taken (outcome_statistics ps)\<rparr>" for st
    by (induction ps arbitrary: st)
      (auto simp: record_prediction_def outcome_statistics_def Let_def)
  from this [of zero_predictions] show ?thesis by (simp add: zero_predictions_def)
qed

lemma fold_observe_analyzer:
  "cache_model (fold observe_analyzer tr a) = fold observe_split tr (cache_model a)"
  "predictor_model (fold observe_analyzer tr a) = fold observe_branch tr (predictor_model a)"
  "instructions_observed (fold observe_analyzer tr a) = instructions_observed a + of_nat (length tr)"
  "cycle_estimator (fold observe_analyzer tr a) = cycle_estimator a"
  by (induction tr arbitrary: a) (simp_all add: observe_analyzer_def)

text \<open>The parts of a new analyzer.\<close>

lemma make_analyzer_parts:
  assumes "make_analyzer conf = Inr a"
  defines "c \<equiv> cache_model a"
  shows "make_cache (instruction_configuration (cache_part conf)) = Inr (instruction_cache c)"
    and "make_cache (data_configuration (cache_part conf)) = Inr (data_cache c)"
    and "load_statistics c = zero_statistics" and "store_statistics c = zero_statistics"
    and "make_branch_predictor (branch_predictor_part conf) = Inr (predictor_model a)"
    and "instructions_observed a = 0" and "cycle_estimator a = cycle_costs_part conf"
  using assms(1)
  by (auto simp: c_def make_analyzer_def make_split_cache_def make_cycle_estimator_def and_then_eq_iffs
      map_sum_def split: sum.splits if_splits)

lemma fresh_predictor:
  assumes "make_branch_predictor conf = Inr p"
  shows "predictor_configuration p = conf" and "predictor_statistics p = zero_predictions"
    and "agrees p (\<lambda>_. counter_state (initial_counter conf))"
  using assms by (auto simp: make_branch_predictor_def agrees_def table_def split: option.splits)

text \<open>The footprints carry what the models look at.\<close>

lemma branch_seen_footprint: "branch_seen ob = branch_outcome (observed_footprint ob)"
  by (auto simp: branch_seen_def branch_of_def branch_outcome_def observed_footprint_def
      transferred_def split: option.split control_flow_kind.split)

lemma map_filter_map: "List.map_filter f (map g xs) = List.map_filter (\<lambda>x. f (g x)) xs"
  by (induction xs) (simp_all add: map_filter_simps split: option.split)

lemma map_filter_map_option: "List.map_filter (\<lambda>x. map_option f (g x)) xs = map f (List.map_filter g xs)"
  by (induction xs) (simp_all add: map_filter_simps split: option.split)

lemma observed_report:
  assumes "make_analyzer conf = Inr a"
  shows "analyzer_statistics_of (fold observe_analyzer tr a) =
    report_of conf (map observed_footprint tr)"
proof -
  note parts = make_analyzer_parts [OF assms]
  let ?i = "instruction_cache (cache_model a)" and ?d = "data_cache (cache_model a)"
  let ?data = "List.map_filter data_memory_access tr"
  have data: "List.map_filter fp_data (map observed_footprint tr) = map accessed ?data"
    by (simp add: map_filter_map observed_footprint_def map_filter_map_option)
  have cache: "cache_stats (snd (access_all as c)) = hit_statistics (cache_behaviour cc as)"
    if "make_cache cc = Inr c" for cc c as
    using access_all_statistics [OF make_cache_wf(1) [OF that], of as]
    by (simp add: access_all_behaviour [OF that] make_cache_wf(2) [OF that] record_hit_statistics)
  have predictor: "predictor_statistics (fold observe_branch tr (predictor_model a)) =
      outcome_statistics (predictor_behaviour (branch_predictor_part conf)
        (\<lambda>_. counter_state (initial_counter (branch_predictor_part conf)))
        (List.map_filter branch_outcome (map observed_footprint tr)))"
    using fold_observe_branch [OF make_branch_predictor_wf [OF parts(5)] fresh_predictor(3) [OF parts(5)]]
    by (simp add: fresh_predictor [OF parts(5)] fold_record_prediction map_filter_map
        branch_seen_footprint [abs_def])
  have kinds: "fold record_access (of_kind k (fst (access_all as ?d)) ks) zero_statistics =
      hit_statistics (of_kind k (cache_behaviour (data_configuration (cache_part conf)) as) ks)" for k as ks
    by (simp add: access_all_behaviour [OF parts(2)] map_of_kind record_hit_statistics)
  have fps: "map fp_pc (map observed_footprint tr) = map observed_program_counter tr"
    "map (fst \<circ> snd) (map accessed ?data) = map access_address ?data"
    "map fst (map accessed ?data) = map access_kind ?data"
    by (simp_all add: observed_footprint_def accessed_def)
  show ?thesis
    unfolding report_of_def data Let_def fps analyzer_statistics_of_def fold_observe_analyzer
      predictor split_statistics_def
    by (simp add: fold_observe_split Let_def split_beta parts cache kinds)
qed

text \<open>A new analyzer is its own reset.\<close>

lemma make_analyzer_reset:
  assumes "make_analyzer conf = Inr a"
  shows "reset_analyzer a = a"
proof -
  have "reset_cache c = c" if "make_cache cc = Inr c" for cc c
    using that by (auto simp: make_cache_def reset_cache_def and_then_eq_iffs)
  moreover have "reset_predictor p = p" if "make_branch_predictor bc = Inr p" for bc p
    using that by (auto simp: make_branch_predictor_def reset_predictor_def split: option.splits)
  ultimately show ?thesis
    using make_analyzer_parts [OF assms] by (simp add: reset_analyzer_def reset_split_def)
qed

section \<open>Properties\<close>

text \<open>
  C35: the performance report is a function of the architecture. After a bounded run observed by
  a new analyzer every counter of its statistics is the count of a reference model over the
  execution of the architecture: fetches, loads and stores that hit a least recently used cache
  of the configured geometry, and branches that a table of saturating counters predicts; and
  the cycle estimate is made from these counts.
\<close>

theorem report_implements_isa:
  assumes "make_analyzer conf = Inr (observer e)" and "wf_cpu (state e)"
    and "run (Some observe_analyzer) limit e = Some (r, e')"
  shows "analyzer_statistics_of (observer e') =
      report_of conf (footprints (retired r) (abs_engine e)) \<and>
    estimate_cycles (observer e') = estimate (cycle_costs_part conf)
      (event_counts (report_of conf (footprints (retired r) (abs_engine e))))"
proof -
  obtain tr where tr: "retires (Some observe_analyzer) e tr e'" "length tr = retired r"
    by (rule run_retired [OF assms(3)])
  have "notify (Some observe_analyzer) = observe_analyzer" by (simp add: notify_def fun_eq_iff)
  then have final: "observer e' = fold observe_analyzer tr (observer e)"
    using retires_observer [OF tr(1)] by simp
  have "map observed_footprint tr = footprints (retired r) (abs_engine e)"
    using retires_footprints [OF tr(1) assms(2)] by (simp add: tr(2))
  with observed_report [OF assms(1), of tr] show ?thesis
    by (simp add: final estimate_cycles_def fold_observe_analyzer make_analyzer_parts [OF assms(1)])
qed

lemma report_implements_isa_witness:
  "\<exists>a r e'. make_analyzer sample_analysis = Inr a \<and>
     run (Some observe_analyzer) 5 (sample_engine a) = Some (r, e') \<and>
     analyzer_statistics_of (observer e') =
       report_of sample_analysis (footprints (retired r) (abs_engine (sample_engine a)))"
proof -
  obtain a where a: "make_analyzer sample_analysis = Inr a" using make_sample_analyzer by blast
  have e: "observer (sample_engine a) = a" "wf_cpu (state (sample_engine a))"
    by (simp_all add: sample_engine_def)
  obtain r e' where "run (Some observe_analyzer) 5 (sample_engine a) = Some (r, e')"
    by (rule run_total)
  with report_implements_isa [of sample_analysis "sample_engine a" 5 r e'] a e show ?thesis by auto
qed

end
