(* ===== verification/Benchmark_Driver.thy ===== *)
theory Benchmark_Driver
  imports Benchmark_Workload Binary64 Text_Format Performance_Report
begin

text \<open>
  The benchmark driver: \<^verbatim>\<open>run_workload\<close> of
  \<^verbatim>\<open>benchmarks/rvemu_benchmarks.cpp\<close>, the loop that measures a workload. How
  many iterations the loop has is the decision of the benchmark library and a parameter; the
  calls the driver makes on the library's state and on the workload are recorded in the order in
  which they are made, so that it shows what happens while the library's timer runs. The outer \<open>option\<close> is an
  exception that escapes. The counters it sets are in double precision, as rationals rounded by
  \<open>Binary64\<close>.
\<close>

section \<open>Data and code\<close>

definition kInstructionsPerIteration :: u64 where "kInstructionsPerIteration = 65536"

datatype benchmark_call = PauseTiming | ResumeTiming | SkipWithError string
  | WorkloadReset | WorkloadRun u64 | WorkloadStatistics | WorkloadEstimate

record benchmark_driver =
  driven_workload :: workload
  last_statistics :: analyzer_statistics
  last_estimate :: cycle_estimate
  completed :: bool
  benchmark_calls :: "benchmark_call list"

definition record_call :: "benchmark_call \<Rightarrow> benchmark_driver \<Rightarrow> benchmark_driver" where
  "record_call c d = d\<lparr>benchmark_calls := benchmark_calls d @ [c]\<rparr>"

definition driver_reset :: "benchmark_driver \<Rightarrow> benchmark_driver option" where
  "driver_reset d = do {
     w \<leftarrow> reset_workload (driven_workload d);
     Some (record_call WorkloadReset (d\<lparr>driven_workload := w\<rparr>))
   }"

definition driver_run :: "u64 \<Rightarrow> benchmark_driver \<Rightarrow> (run_result \<times> benchmark_driver) option" where
  "driver_run limit d = do {
     (result, w) \<leftarrow> run_workload limit (driven_workload d);
     Some (result, record_call (WorkloadRun limit) (d\<lparr>driven_workload := w\<rparr>))
   }"

text \<open>The value-initialised records \<^verbatim>\<open>last_statistics{}\<close> and \<^verbatim>\<open>last_estimate{}\<close>.\<close>

definition no_statistics :: analyzer_statistics where
  "no_statistics = \<lparr>observed_instructions = 0,
     cache_summary = \<lparr>instruction_statistics = zero_statistics,
       data_statistics = \<lparr>data_total = zero_statistics, data_loads = zero_statistics,
         data_stores = zero_statistics\<rparr>\<rparr>,
     prediction_summary = zero_predictions\<rparr>"

definition no_estimate :: cycle_estimate where
  "no_estimate = \<lparr>estimated_base_cycles = 0, instruction_cache_miss_cycles = 0,
     data_cache_miss_cycles = 0, branch_misprediction_cycles = 0, total_cycles = 0\<rparr>"

text \<open>
  The second block of an iteration, between the pauses: it checks the result and keeps the
  statistics and the estimate. The first component says whether the loop goes on.
\<close>

definition collect_measurement :: "run_result \<Rightarrow> benchmark_driver \<Rightarrow> bool \<times> benchmark_driver" where
  "collect_measurement result d =
     (if result \<noteq> InstructionLimitReached (unat kInstructionsPerIteration)
      then (False, record_call
        (SkipWithError ''benchmark workload did not reach its exact instruction limit'') d)
      else let d = record_call WorkloadStatistics
          (d\<lparr>last_statistics := analyzer_statistics_of (workload_analyzer (driven_workload d))\<rparr>);
          d = record_call WorkloadEstimate d
        in case estimate_cycles (workload_analyzer (driven_workload d)) of
          Inl _ \<Rightarrow> (False, record_call
            (SkipWithError ''benchmark workload cycle estimate overflowed'') d)
        | Inr e \<Rightarrow> (True, d\<lparr>last_estimate := e, completed := True\<rparr>))"

definition benchmark_iteration :: "benchmark_driver \<Rightarrow> (bool \<times> benchmark_driver) option" where
  "benchmark_iteration d = do {
     let d = record_call PauseTiming (d\<lparr>completed := False\<rparr>);
     d \<leftarrow> driver_reset d;
     let d = record_call ResumeTiming d;
     (result, d) \<leftarrow> driver_run kInstructionsPerIteration d;
     let d = record_call PauseTiming d;
     let (goes_on, d) = collect_measurement result d;
     Some (goes_on, record_call ResumeTiming d)
   }"

fun benchmark_loop :: "nat \<Rightarrow> benchmark_driver \<Rightarrow> benchmark_driver option" where
  "benchmark_loop 0 d = Some d"
| "benchmark_loop (Suc n) d = do {
     (goes_on, d) \<leftarrow> benchmark_iteration d;
     if goes_on then benchmark_loop n d else Some d
   }"

text \<open>
  The function: the result is what \<^verbatim>\<open>add_counters\<close> is called with, if it is
  called, and the calls on the state.
\<close>

definition run_benchmark ::
  "nat \<Rightarrow> u8 \<Rightarrow> ((analyzer_statistics \<times> cycle_estimate) option \<times> benchmark_call list) option" where
  "run_benchmark iterations kind = do {
     w \<leftarrow> make_workload kind;
     d \<leftarrow> benchmark_loop iterations \<lparr>driven_workload = w, last_statistics = no_statistics,
       last_estimate = no_estimate, completed = False, benchmark_calls = []\<rparr>;
     Some (if completed d then Some (last_statistics d, last_estimate d) else None, benchmark_calls d)
   }"

section \<open>The counters\<close>

definition percentage :: "u64 \<Rightarrow> u64 \<Rightarrow> rat" where
  "percentage numerator denominator =
     (if denominator = 0 then 0
      else double_divide (double_times 100 (as_double numerator)) (as_double denominator))"

text \<open>
  A counter of the library is a number, or a number that the library turns into a rate. The
  assignments to the map of counters, in order.
\<close>

datatype benchmark_counter = Counter rat | IterationInvariantRate rat

definition add_counters ::
  "analyzer_statistics \<Rightarrow> cycle_estimate \<Rightarrow> (string \<times> benchmark_counter) list" where
  "add_counters st est =
     (let instruction = instruction_statistics (cache_summary st);
          data = data_statistics (cache_summary st);
          branches = prediction_summary st
      in [(''guest_instructions'', Counter (as_double (observed_instructions st))),
          (''guest_instructions_per_second'',
             IterationInvariantRate (as_double kInstructionsPerIteration)),
          (''icache_accesses'', Counter (as_double (accesses instruction))),
          (''icache_hits'', Counter (as_double (hits instruction))),
          (''icache_misses'', Counter (as_double (misses instruction))),
          (''icache_hit_percent'', Counter (percentage (hits instruction) (accesses instruction))),
          (''dcache_accesses'', Counter (as_double (accesses (data_total data)))),
          (''dcache_hits'', Counter (as_double (hits (data_total data)))),
          (''dcache_misses'', Counter (as_double (misses (data_total data)))),
          (''dcache_loads'', Counter (as_double (accesses (data_loads data)))),
          (''dcache_stores'', Counter (as_double (accesses (data_stores data)))),
          (''dcache_hit_percent'',
             Counter (percentage (hits (data_total data)) (accesses (data_total data)))),
          (''branch_predictions'', Counter (as_double (predictions branches))),
          (''branch_correct'', Counter (as_double (correct branches))),
          (''branch_mispredictions'', Counter (as_double (incorrect branches))),
          (''branch_accuracy_percent'', Counter (percentage (correct branches) (predictions branches))),
          (''estimated_cycles'', Counter (as_double (total_cycles est))),
          (''estimated_cpi'', Counter (double_divide (as_double (total_cycles est))
             (as_double (observed_instructions st))))])"

section \<open>The program\<close>

text \<open>
  The registered benchmarks with the kind each runs, and \<^verbatim>\<open>main\<close>: whether the library
  recognises the arguments is its own decision. The result is the status with the context lines
  and the benchmarks that are run.
\<close>

definition registered_benchmarks :: "(string \<times> u8) list" where
  "registered_benchmarks = [(''IntegerMix'', 0), (''MemoryStride'', 1), (''BranchPattern'', 2)]"

definition custom_contexts :: "(string \<times> string) list" where
  "custom_contexts =
     [(''rvemu_workload_instructions'', ''65536''),
      (''rvemu_cache_model'', ''split-4096B-64B-2way''),
      (''rvemu_branch_predictor'', ''bimodal-256-entry-weakly-not-taken''),
      (''rvemu_cycle_costs'', ''base=1,icache_miss=10,dcache_miss=20,branch_miss=5'')]"

definition benchmarks_main ::
  "(string list \<Rightarrow> bool) \<Rightarrow> string list \<Rightarrow> int \<times> (string \<times> string) list \<times> (string \<times> u8) list" where
  "benchmarks_main unrecognized argv =
     (if unrecognized argv then (1, [], []) else (0, custom_contexts, registered_benchmarks))"

section \<open>One measurement\<close>

definition benchmark_costs :: cycle_cost_configuration where
  "benchmark_costs = cycle_costs_part benchmark_performance_configuration"

definition iteration_calls :: "benchmark_call list" where
  "iteration_calls = [PauseTiming, WorkloadReset, ResumeTiming,
     WorkloadRun kInstructionsPerIteration, PauseTiming, WorkloadStatistics, WorkloadEstimate,
     ResumeTiming]"

text \<open>What is called while the timer runs, given whether it runs at the start.\<close>

fun timed_calls :: "bool \<Rightarrow> benchmark_call list \<Rightarrow> benchmark_call list" where
  "timed_calls on [] = []"
| "timed_calls on (PauseTiming # cs) = timed_calls False cs"
| "timed_calls on (ResumeTiming # cs) = timed_calls True cs"
| "timed_calls on (c # cs) = (if on then c # timed_calls on cs else timed_calls on cs)"

lemma timed_iterations:
  "timed_calls True (concat (replicate n iteration_calls)) =
     replicate n (WorkloadRun kInstructionsPerIteration)"
  by (induction n) (simp_all add: iteration_calls_def)

text \<open>What a measurement of a workload has to be, over the natural numbers.\<close>

definition measurement :: "analyzer_statistics \<Rightarrow> cycle_estimate \<Rightarrow> bool" where
  "measurement st est \<longleftrightarrow> observed_instructions st = 65536 \<and>
     unat (total_cycles est) = 65536 + 10 * unat (misses (instruction_statistics (cache_summary st))) +
       20 * unat (misses (data_total (data_statistics (cache_summary st)))) +
       5 * unat (incorrect (prediction_summary st)) \<and>
     unat (total_cycles est) \<le> 36 * 65536"

text \<open>The parts of the statistics add up.\<close>

definition adds_up :: "cache_statistics \<Rightarrow> bool" where
  "adds_up s \<longleftrightarrow> unat (accesses s) = unat (hits s) + unat (misses s) \<and> unat (accesses s) \<le> 131072"

definition predictions_add_up :: "branch_prediction_statistics \<Rightarrow> bool" where
  "predictions_add_up p \<longleftrightarrow> unat (predictions p) = unat (correct p) + unat (incorrect p) \<and>
     unat (predictions p) \<le> 65536"

definition consistent :: "analyzer_statistics \<Rightarrow> bool" where
  "consistent st \<longleftrightarrow> adds_up (instruction_statistics (cache_summary st)) \<and>
     adds_up (data_total (data_statistics (cache_summary st))) \<and>
     predictions_add_up (prediction_summary st)"

lemma benchmark_estimate:
  assumes "instructions (event_counts st) = 65536"
    and "unat (instruction_cache_misses (event_counts st)) \<le> 65536"
    and "unat (data_cache_misses (event_counts st)) \<le> 65536"
    and "unat (branch_mispredictions (event_counts st)) \<le> 65536"
  shows "\<exists>est. estimate benchmark_costs (event_counts st) = Inr est \<and> measurement st est"
proof -
  have cost: "total_cost benchmark_costs (event_counts st) = 65536 +
     10 * unat (instruction_cache_misses (event_counts st)) +
     20 * unat (data_cache_misses (event_counts st)) + 5 * unat (branch_mispredictions (event_counts st))"
    by (simp add: cost_defs benchmark_costs_def benchmark_performance_configuration_def Let_def assms(1))
  moreover have "total_cost benchmark_costs (event_counts st) \<le> 36 * 65536"
    using assms(2-4) unfolding cost by linarith
  ultimately show ?thesis
    using estimate_exact [of benchmark_costs "event_counts st"] assms(1)
    by (auto simp: measurement_def event_counts_def)
qed

text \<open>
  The report of a workload, from the architecture: what the reference cache and predictor of the
  configuration count over the footprints of its steps.
\<close>

definition workload_report :: "workload \<Rightarrow> analyzer_statistics" where
  "workload_report w = report_of benchmark_performance_configuration
     (footprints 65536 (abs_arch (workload_state w) (workload_memory w)))"

lemma workload_measurement:
  assumes "make_workload v = Some w"
  obtains w' st est where
    "run_workload kInstructionsPerIteration w =
       Some (InstructionLimitReached (unat kInstructionsPerIteration), w')"
    "reset_workload w' = Some w" "analyzer_statistics_of (workload_analyzer w') = st"
    "estimate_cycles (workload_analyzer w') = Inr est" "measurement st est" "consistent st"
    "st = workload_report w"
proof -
  let ?n = kInstructionsPerIteration
  obtain tr e' where tr: "retires (Some observe_analyzer) \<lparr>state = workload_state w,
      memory_of = workload_memory w, observer = workload_analyzer w\<rparr> tr e'" "length tr = unat ?n"
    and run: "run_workload ?n w = Some (InstructionLimitReached (unat ?n),
       w\<lparr>workload_state := state e', workload_memory := memory_of e', workload_analyzer := observer e'\<rparr>)"
    using workload_run [OF assms, of ?n] by blast
  obtain a where a: "make_analyzer benchmark_performance_configuration = Inr a"
    "workload_analyzer w = reset_analyzer a" "wf_cpu (workload_state w)"
    by (rule make_workload_cases [of v]) (use assms in auto)
  let ?st = "analyzer_statistics_of (observer e')"
  have "cycle_estimator a = benchmark_costs"
    using a(1) by (auto simp: make_analyzer_def make_cycle_estimator_def benchmark_costs_def
        and_then_eq_iffs map_sum_def split: sum.splits if_splits)
  then have costs: "cycle_estimator (observer e') = benchmark_costs"
    using retires_observer [OF tr(1)] by (simp add: observed_cycle_estimator a(2) reset_analyzer_def)
  have n: "length tr = 65536" using tr(2) by (simp add: kInstructionsPerIteration_def)
  note events = charged_events_bounded [OF tr(1) make_analyzer_wf(1) [OF a(1)], unfolded n]
  obtain est where "estimate benchmark_costs (event_counts ?st) = Inr est" "measurement ?st est"
    using benchmark_estimate [of ?st] events a(2) by auto
  moreover have "consistent ?st"
    using statistics_add_up [OF tr(1) make_analyzer_wf(1) [OF a(1)], unfolded n] a(2) events(2-4)
    by (simp add: consistent_def adds_up_def predictions_add_up_def event_counts_def)
  moreover have "?st = workload_report w"
    using retires_observer [OF tr(1)] retires_footprints [OF tr(1)] observed_report [OF a(1), of tr]
      make_analyzer_reset [OF a(1)]
    by (simp add: workload_report_def a(2,3) n abs_engine_def notify_def [abs_def])
  ultimately show thesis
    using that [OF run workload_reset_restores [OF assms run] refl]
    by (simp add: estimate_cycles_def costs)
qed

text \<open>Every iteration from a state whose reset is the new workload measures the same.\<close>

lemma benchmark_iteration_measures:
  assumes "make_workload v = Some w"
  obtains w' st est where "reset_workload w' = Some w" "measurement st est" "consistent st"
    "st = workload_report w"
    "\<And>d. reset_workload (driven_workload d) = Some w \<Longrightarrow> benchmark_iteration d = Some (True,
       d\<lparr>driven_workload := w', last_statistics := st, last_estimate := est, completed := True,
         benchmark_calls := benchmark_calls d @ iteration_calls\<rparr>)"
proof -
  obtain w' st est where m: "run_workload kInstructionsPerIteration w =
       Some (InstructionLimitReached (unat kInstructionsPerIteration), w')"
    "reset_workload w' = Some w" "analyzer_statistics_of (workload_analyzer w') = st"
    "estimate_cycles (workload_analyzer w') = Inr est" "measurement st est" "consistent st"
    "st = workload_report w"
    using workload_measurement [OF assms] by blast
  show thesis
    by (rule that [OF m(2,5,6,7)])
      (simp add: benchmark_iteration_def driver_reset_def driver_run_def record_call_def collect_measurement_def m(1-4) iteration_calls_def
        Let_def)
qed

lemma benchmark_loop_measures:
  assumes iteration: "\<And>d. reset_workload (driven_workload d) = Some w \<Longrightarrow> benchmark_iteration d =
      Some (True, d\<lparr>driven_workload := w', last_statistics := st, last_estimate := est,
        completed := True, benchmark_calls := benchmark_calls d @ iteration_calls\<rparr>)"
    and "reset_workload w' = Some w" and "reset_workload (driven_workload d) = Some w"
  shows "benchmark_loop n d = Some (if n = 0 then d else
    d\<lparr>driven_workload := w', last_statistics := st, last_estimate := est, completed := True,
      benchmark_calls := benchmark_calls d @ concat (replicate n iteration_calls)\<rparr>)"
  using assms(3)
proof (induction n arbitrary: d)
  case (Suc n)
  with assms(2) show ?case by (simp add: iteration [OF Suc.prems])
qed simp

lemma run_benchmark_measures:
  assumes "make_workload v = Some w"
  obtains st est where "measurement st est" "consistent st" "st = workload_report w"
    "\<And>n. run_benchmark n v = Some (if n = 0 then None else Some (st, est),
       concat (replicate n iteration_calls))"
proof -
  obtain w' st est where m: "reset_workload w' = Some w" "measurement st est" "consistent st"
      "st = workload_report w"
    and iteration: "\<And>d. reset_workload (driven_workload d) = Some w \<Longrightarrow> benchmark_iteration d =
      Some (True, d\<lparr>driven_workload := w', last_statistics := st, last_estimate := est,
        completed := True, benchmark_calls := benchmark_calls d @ iteration_calls\<rparr>)"
    using benchmark_iteration_measures [OF assms] by blast
  define d where "d = \<lparr>driven_workload = w, last_statistics = no_statistics,
    last_estimate = no_estimate, completed = False, benchmark_calls = []\<rparr>"
  have start: "reset_workload (driven_workload d) = Some w"
    by (simp add: d_def workload_reset_new [OF assms])
  have "run_benchmark n v = Some (if n = 0 then None else Some (st, est),
    concat (replicate n iteration_calls))" for n
  proof (cases "n = 0")
    case True
    then show ?thesis by (simp add: run_benchmark_def assms)
  next
    case False
    then have "benchmark_loop n d = Some (d\<lparr>driven_workload := w', last_statistics := st,
      last_estimate := est, completed := True,
      benchmark_calls := benchmark_calls d @ concat (replicate n iteration_calls)\<rparr>)"
      using benchmark_loop_measures [OF iteration m(1) start, of n] by simp
    then show ?thesis using False by (simp add: run_benchmark_def assms d_def)
  qed
  with m(2-4) that show thesis by blast
qed

section \<open>The counters of a measurement\<close>

lemma quotient_range:
  fixes p q hi :: nat
  assumes "p \<le> hi * q" and "0 < q" and "hi \<le> 2 ^ 53"
  shows "0 \<le> double_divide (of_nat p) (of_nat q)" and "double_divide (of_nat p) (of_nat q) \<le> of_nat hi"
proof -
  have "(of_nat p :: rat) \<le> of_nat (hi * q)" using assms(1) by (simp only: of_nat_le_iff)
  then have "of_nat p / of_nat q \<le> (of_nat hi :: rat)" using assms(2) by (simp add: divide_le_eq)
  from double_divide_bounds [of 0, OF _ this assms(3)]
  show "0 \<le> double_divide (of_nat p) (of_nat q)" "double_divide (of_nat p) (of_nat q) \<le> of_nat hi"
    by simp_all
qed

lemma percentage_range:
  assumes "unat n \<le> unat d" and "unat d \<le> 2 ^ 46"
  shows "0 \<le> percentage n d" and "percentage n d \<le> 100"
proof -
  have n: "as_double n = of_nat (unat n)" and d: "as_double d = of_nat (unat d)"
    using assms by (intro as_double_exact; simp)+
  have exact: "double_times 100 (of_nat p) = of_nat (100 * p)" if "p \<le> 2 ^ 46" for p
    using binary64_of_nat [of "100 * p"] that by (simp add: double_times_def)
  have product: "double_times 100 (as_double n) = of_nat (100 * unat n)"
    unfolding n using assms by (intro exact) simp
  have zero: "0 < unat d" if "d \<noteq> 0" using that by (simp add: unat_gt_0)
  have "100 * unat n \<le> 100 * unat d" using assms(1) by simp
  from quotient_range [OF this zero, simplified]
  show "0 \<le> percentage n d" "percentage n d \<le> 100"
    unfolding percentage_def product d by (cases "d = 0"; simp)+
qed

lemma counter_names:
  "map_of (add_counters st est) ''guest_instructions'' =
     Some (Counter (as_double (observed_instructions st)))"
  "map_of (add_counters st est) ''icache_hit_percent'' = Some (Counter (percentage
     (hits (instruction_statistics (cache_summary st)))
     (accesses (instruction_statistics (cache_summary st)))))"
  "map_of (add_counters st est) ''dcache_hit_percent'' = Some (Counter (percentage
     (hits (data_total (data_statistics (cache_summary st))))
     (accesses (data_total (data_statistics (cache_summary st))))))"
  "map_of (add_counters st est) ''branch_accuracy_percent'' = Some (Counter (percentage
     (correct (prediction_summary st)) (predictions (prediction_summary st))))"
  "map_of (add_counters st est) ''estimated_cycles'' = Some (Counter (as_double (total_cycles est)))"
  "map_of (add_counters st est) ''estimated_cpi'' = Some (Counter (double_divide
     (as_double (total_cycles est)) (as_double (observed_instructions st))))"
  by (simp_all add: add_counters_def Let_def)

lemma cpi_range:
  assumes "measurement st est"
  shows "as_double (observed_instructions st) = 65536"
    and "as_double (total_cycles est) = of_nat (unat (total_cycles est))"
    and "1 \<le> double_divide (as_double (total_cycles est)) (as_double (observed_instructions st))"
    and "double_divide (as_double (total_cycles est)) (as_double (observed_instructions st)) \<le> 36"
proof -
  let ?t = "unat (total_cycles est)"
  have t: "65536 \<le> ?t" "?t \<le> 36 * 65536" using assms by (simp_all add: measurement_def)
  show n: "as_double (observed_instructions st) = 65536"
    using assms as_double_exact [of "65536"] by (simp add: measurement_def)
  show c: "as_double (total_cycles est) = of_nat ?t" using t by (intro as_double_exact) simp
  have "(of_nat 65536 :: rat) \<le> of_nat ?t" using t(1) by (simp only: of_nat_le_iff)
  moreover have "(of_nat ?t :: rat) \<le> of_nat (36 * 65536)" using t(2) by (simp only: of_nat_le_iff)
  ultimately have "of_nat 1 \<le> of_nat ?t / (65536 :: rat)" "of_nat ?t / (65536 :: rat) \<le> of_nat 36"
    by (simp_all add: le_divide_eq divide_le_eq)
  from double_divide_bounds [OF this]
  show "1 \<le> double_divide (as_double (total_cycles est)) (as_double (observed_instructions st))"
    "double_divide (as_double (total_cycles est)) (as_double (observed_instructions st)) \<le> 36"
    unfolding n c by simp_all
qed

text \<open>The context lines of the program describe the configuration it measures with.\<close>

definition context_lines :: "analyzer_configuration \<Rightarrow> (string \<times> string) list" where
  "context_lines conf =
     (let c = instruction_configuration (cache_part conf); p = branch_predictor_part conf;
          k = cycle_costs_part conf; n = (\<lambda>v :: u64. show_nat (unat v))
      in [(''rvemu_workload_instructions'', n kInstructionsPerIteration),
          (''rvemu_cache_model'', ''split-'' @ n (capacity_bytes c) @ ''B-'' @
             n (line_size_bytes c) @ ''B-'' @ n (associativity c) @ ''way''),
          (''rvemu_branch_predictor'', ''bimodal-'' @ n (table_entries p) @ ''-entry-weakly-not-taken''),
          (''rvemu_cycle_costs'', ''base='' @ n (base_instruction_cycles k) @ '',icache_miss='' @
             n (instruction_cache_miss_penalty_cycles k) @ '',dcache_miss='' @
             n (data_cache_miss_penalty_cycles k) @ '',branch_miss='' @
             n (branch_misprediction_penalty_cycles k))])"

lemma custom_contexts_describe:
  "custom_contexts = context_lines benchmark_performance_configuration"
  "strategy (branch_predictor_part benchmark_performance_configuration) = BimodalTwoBit"
  "initial_counter (branch_predictor_part benchmark_performance_configuration) = counter_value WeaklyNotTaken"
  "instruction_configuration (cache_part benchmark_performance_configuration) =
     data_configuration (cache_part benchmark_performance_configuration)"
proof -
  have "char_of (48 :: nat) = CHR ''0''" "char_of (49 :: nat) = CHR ''1''"
    "char_of (50 :: nat) = CHR ''2''" "char_of (51 :: nat) = CHR ''3''"
    "char_of (52 :: nat) = CHR ''4''" "char_of (53 :: nat) = CHR ''5''"
    "char_of (54 :: nat) = CHR ''6''" "char_of (57 :: nat) = CHR ''9''" by code_simp+
  then show "custom_contexts = context_lines benchmark_performance_configuration"
    by (simp add: custom_contexts_def context_lines_def benchmark_performance_configuration_def
        kInstructionsPerIteration_def show_nat_def show_base.simps digit_char_def Let_def) 
qed (simp_all add: benchmark_performance_configuration_def Let_def)

section \<open>Properties\<close>

text \<open>
  C31: benchmark measurements are reproducible. The driver is refused exactly for a byte that is
  no workload kind. Otherwise every iteration completes without an error call, what is called
  while the timer runs is one guest run of 65536 instructions for each iteration and nothing
  else, and all iteration counts report the same statistics and the same estimate: those of 65536 steps of the architecture from the new workload, as a least
  recently used cache and a table of saturating counters see them, with the exact cycle total of
  the configured costs.
\<close>

theorem benchmark_reproducible:
  "case make_workload v of
     None \<Rightarrow> 3 \<le> unat v \<and> (\<forall>iterations. run_benchmark iterations v = None)
   | Some w \<Rightarrow> unat v < 3 \<and> (\<exists>est. measurement (workload_report w) est \<and>
       (\<forall>iterations. run_benchmark iterations v =
         Some (if iterations = 0 then None else Some (workload_report w, est),
           concat (replicate iterations iteration_calls)) \<and>
         timed_calls True (concat (replicate iterations iteration_calls)) =
           replicate iterations (WorkloadRun 65536)))"
proof (cases rule: make_workload_cases [of v])
  case rejected
  then show ?thesis by (simp add: run_benchmark_def)
next
  case (accepted a w)
  obtain st est where "measurement st est" "st = workload_report w"
    "\<And>n. run_benchmark n v = Some (if n = 0 then None else Some (st, est),
      concat (replicate n iteration_calls))"
    using run_benchmark_measures [OF accepted(2)] by blast
  with accepted(2,3) timed_iterations show ?thesis by (auto simp: kInstructionsPerIteration_def)
qed

text \<open>
  C29: the reported counters make sense. Whenever the driver reports, in double precision with
  its roundings, the instruction and cycle counters are exact, every percentage is between 0 and
  100, and the cycles per instruction are between 1 and the 36 that a miss of every kind in every
  instruction would cost.
\<close>

theorem benchmark_counters_sound:
  assumes "run_benchmark iterations v = Some (Some (st, est), calls)"
  shows "\<exists>icache dcache branches cpi.
    map_of (add_counters st est) ''guest_instructions'' = Some (Counter 65536) \<and>
    map_of (add_counters st est) ''estimated_cycles'' = Some (Counter (of_nat (unat (total_cycles est)))) \<and>
    map_of (add_counters st est) ''icache_hit_percent'' = Some (Counter icache) \<and>
    map_of (add_counters st est) ''dcache_hit_percent'' = Some (Counter dcache) \<and>
    map_of (add_counters st est) ''branch_accuracy_percent'' = Some (Counter branches) \<and>
    map_of (add_counters st est) ''estimated_cpi'' = Some (Counter cpi) \<and>
    icache \<in> {0..100} \<and> dcache \<in> {0..100} \<and> branches \<in> {0..100} \<and> cpi \<in> {1..36}"
proof -
  have "measurement st est \<and> consistent st"
  proof (cases rule: make_workload_cases [of v])
    case rejected
    with assms show ?thesis by (simp add: run_benchmark_def)
  next
    case (accepted a w)
    obtain st' est' where m: "measurement st' est'" "consistent st'" and
      run: "\<And>n. run_benchmark n v = Some (if n = 0 then None else Some (st', est'),
        concat (replicate n iteration_calls))"
      using run_benchmark_measures [OF accepted(2)] by blast
    from assms [unfolded run [of iterations]] m show ?thesis by (simp split: if_splits)
  qed
  then have m: "measurement st est" and c: "consistent st" by simp_all
  let ?i = "instruction_statistics (cache_summary st)" and ?p = "prediction_summary st"
  let ?d = "data_total (data_statistics (cache_summary st))"
  from c have sums: "unat (hits ?i) \<le> unat (accesses ?i)" "unat (accesses ?i) \<le> 2 ^ 46"
    "unat (hits ?d) \<le> unat (accesses ?d)" "unat (accesses ?d) \<le> 2 ^ 46"
    "unat (correct ?p) \<le> unat (predictions ?p)" "unat (predictions ?p) \<le> 2 ^ 46"
    by (simp_all add: consistent_def adds_up_def predictions_add_up_def)
  have "percentage (hits ?i) (accesses ?i) \<in> {0..100}"
    "percentage (hits ?d) (accesses ?d) \<in> {0..100}"
    "percentage (correct ?p) (predictions ?p) \<in> {0..100}"
    using percentage_range [OF sums(1,2)] percentage_range [OF sums(3,4)]
      percentage_range [OF sums(5,6)] by simp_all
  moreover have "double_divide (as_double (total_cycles est)) (as_double (observed_instructions st)) \<in> {1..36}"
    using cpi_range(3,4) [OF m] by simp
  ultimately show ?thesis
    unfolding counter_names cpi_range(1,2) [OF m] by (intro exI conjI) (rule refl | assumption)+
qed

lemma benchmark_counters_sound_witness:
  "\<exists>st est calls. run_benchmark 1 0 = Some (Some (st, est), calls) \<and>
     map_of (add_counters st est) ''guest_instructions'' = Some (Counter 65536)"
proof -
  obtain w where w: "make_workload 0 = Some w"
    using make_workload_cases [of 0] by fastforce
  obtain st est where run: "\<And>n. run_benchmark n 0 = Some (if n = 0 then None else Some (st, est),
    concat (replicate n iteration_calls))" using run_benchmark_measures [OF w] by blast
  have one: "run_benchmark 1 0 = Some (Some (st, est), iteration_calls)" using run [of 1] by simp
  from benchmark_counters_sound [OF one] one show ?thesis by blast
qed

end
