(* ===== verification/Session_Spec.thy ===== *)
theory Session_Spec
  imports Isa_Refinement Program_Session
begin

text \<open>
  A guest under any environment, stated for the architecture: an interpreter over the machine of
  \<open>Isa_Spec\<close> that counts what it does in natural numbers, asks a handler at every environment
  call and stops at breakpoints. It uses nothing of the session but the interface of the
  handler. A bounded run of a session computes it.
\<close>

section \<open>Guests\<close>

text \<open>
  The call a machine makes, and the memory that the handler is shown: the bytes of the region in
  which the machine lives.
\<close>

definition call_made :: "arch \<Rightarrow> environment_call" where
  "call_made A = \<lparr>call_program_counter = xpc A, number = xreg A 17,
     arguments = map (xreg A) [10, 11, 12, 13, 14, 15]\<rparr>"

definition memory_at :: "u32 \<Rightarrow> nat \<Rightarrow> (u32 \<Rightarrow> u8 option) \<Rightarrow> memory" where
  "memory_at base n f =
     \<lparr>base_address = base, bytes = map (\<lambda>i. the (f (base + of_nat i))) [0..<n]\<rparr>"

datatype guest_stop =
    BudgetUsed
  | AtBreakpoint u32
  | ExitedWith environment_call u32
  | Declined environment_call u32 trap_cause u32
  | RaisedTrap u32 trap_cause u32

record 'h guest_end =
  steps_taken :: nat
  retired_count :: nat
  answered_count :: nat
  guest_stop :: guest_stop
  guest_machine :: arch
  guest_environment :: 'h

definition stopping :: "guest_stop \<Rightarrow> arch \<Rightarrow> 'h \<Rightarrow> 'h guest_end" where
  "stopping stop A h = \<lparr>steps_taken = 0, retired_count = 0, answered_count = 0, guest_stop = stop,
     guest_machine = A, guest_environment = h\<rparr>"

definition after_instruction :: "'h guest_end \<Rightarrow> 'h guest_end" where
  "after_instruction g = g\<lparr>steps_taken := steps_taken g + 1, retired_count := retired_count g + 1\<rparr>"

definition after_call :: "'h guest_end \<Rightarrow> 'h guest_end" where
  "after_call g = g\<lparr>steps_taken := steps_taken g + 1, answered_count := answered_count g + 1\<rparr>"

text \<open>
  The guest in the region of \<open>n\<close> bytes at \<open>base\<close>, for at most the given number of steps.
  \<open>None\<close> is a handler that throws. The call with which a guest exits counts as answered.
\<close>

fun guest :: "'h handler \<Rightarrow> u32 \<Rightarrow> nat \<Rightarrow> u32 list \<Rightarrow> nat \<Rightarrow> arch \<Rightarrow> 'h \<Rightarrow> 'h guest_end option" where
  "guest handle base n bps 0 A h = Some (stopping BudgetUsed A h)"
| "guest handle base n bps (Suc steps) A h =
     (if xpc A \<in> set bps then Some (stopping (AtBreakpoint (xpc A)) A h)
      else case arch_step A of
        Retire B \<Rightarrow> map_option after_instruction (guest handle base n bps steps B h)
      | Except c v \<Rightarrow>
          if c \<noteq> EnvironmentCallFromUserMode then Some (stopping (RaisedTrap (xpc A) c v) A h)
          else case handle (call_made A) (memory_at base n (xmem A)) h of
            None \<Rightarrow> None
          | Some (EnvironmentCallResume r, h') \<Rightarrow> map_option after_call
              (guest handle base n bps steps (go (next_seq A) (put_reg 10 r A)) h')
          | Some (EnvironmentCallExit code, h') \<Rightarrow>
              Some (after_call (stopping (ExitedWith (call_made A) code) A h'))
          | Some (EnvironmentCallNotHandled, h') \<Rightarrow>
              Some (stopping (Declined (call_made A) (xpc A) c v) A h'))"

declare guest.simps(2) [simp del]

section \<open>Sessions compute guests\<close>

lemma memory_at_cell:
  assumes "wf_memory m"
  shows "memory_at (base_address m) (length (bytes m)) (cell m) = m"
proof -
  have "the (cell m (base_address m + of_nat i)) = bytes m ! i" if "i < length (bytes m)" for i
  proof -
    have fits: "unat (base_address m) + i < 2 ^ 32"
      using assms that by (simp add: wf_memory_def end_address_exclusive_def)
    then have "unat (of_nat i :: u32) = i" by (simp add: unat_of_nat)
    with fits have "unat (base_address m + of_nat i) = unat (base_address m) + i"
      by (simp add: unat_word_ariths)
    then show ?thesis using that by (simp add: cell_def end_address_exclusive_def)
  qed
  then have "map (\<lambda>i. the (cell m (base_address m + of_nat i))) [0..<length (bytes m)] = bytes m"
    by (intro nth_equalityI) simp_all
  then show ?thesis by (simp add: memory_at_def)
qed

definition abs_session :: "('o, 'h) session \<Rightarrow> arch" where
  "abs_session s = abs_engine (engine_of s)"

lemma call_made_abs: "call_made (abs_session s) = call_of (state (engine_of s))"
proof -
  have "[10..<16] = [10, 11, 12, 13, 14, 15 :: nat]" by code_simp
  then show ?thesis by (simp add: call_made_def abs_session_def abs_engine_def abs_arch_def call_of_def)
qed

text \<open>The machines of a session, all in one region.\<close>

definition lives_in :: "u32 \<Rightarrow> nat \<Rightarrow> ('o, 'h) session \<Rightarrow> bool" where
  "lives_in base n s \<longleftrightarrow> wf_cpu (state (engine_of s)) \<and> wf_memory (memory_of (engine_of s)) \<and>
     base_address (memory_of (engine_of s)) = base \<and> length (bytes (memory_of (engine_of s))) = n"

lemma lives_in_advances: "advances obs handle s ev s' \<Longrightarrow> lives_in base n s \<Longrightarrow> lives_in base n s'"
  using advances_wf_cpu [of obs handle s ev s'] advances_region [of obs handle s ev s']
    same_region_wf [of "memory_of (engine_of s)" "memory_of (engine_of s')"]
  by (auto simp: lives_in_def same_region_def)

lemma answer_at:
  assumes "lives_in base n s"
  shows "handle (call_of (state (engine_of s))) (memory_at base n (xmem (abs_session s))) (environment s) =
    answer_of handle s"
  using assms memory_at_cell [of "memory_of (engine_of s)"]
  by (auto simp: lives_in_def answer_of_def abs_session_def abs_engine_def abs_arch_def)

lemma xpc_abs_session: "xpc (abs_session s) = program_counter (state (engine_of s))"
  by (simp add: abs_session_def abs_engine_def abs_arch_def)

lemma abs_session_environment [simp]: "abs_session (s\<lparr>environment := h\<rparr>) = abs_session s"
  by (simp add: abs_session_def)

fun counted :: "session_event \<Rightarrow> 'h guest_end \<Rightarrow> 'h guest_end" where
  "counted (Retired _) g = after_instruction g"
| "counted (Answered _ _) g = after_call g"

lemma counted_eq: "counted (Retired ob) = after_instruction" "counted (Answered call v) = after_call"
  by (simp_all add: fun_eq_iff)

lemma guest_advances:
  assumes "advances obs handle s ev s'" and "lives_in base n s" and "xpc (abs_session s) \<notin> set bps"
  shows "guest handle base n bps (Suc k) (abs_session s) (environment s) =
    map_option (counted ev) (guest handle base n bps k (abs_session s') (environment s'))"
proof -
  have wf: "wf_cpu (state (engine_of s))" using assms(2) by (simp add: lives_in_def)
  from assms(1) show ?thesis
  proof cases
    case (advances_retire ob e')
    have "arch_step (abs_session s) = Retire (abs_session s')"
      using completes_refines [OF advances_retire(3) wf] by (simp add: abs_session_def advances_retire(2))
    moreover have "environment s' = environment s" by (simp add: advances_retire(2))
    ultimately show ?thesis
      using assms(3) by (simp add: guest.simps(2) advances_retire(1) counted_eq)
  next
    case (advances_answer t v h')
    have "arch_step (abs_session s) = Except EnvironmentCallFromUserMode (trap_value t)"
      using step_refines [OF wf advances_answer(3)] advances_answer(4) by (simp add: abs_session_def)
    moreover have "answer_of handle s = Some (EnvironmentCallResume v, h')"
      using advances_answer(5) by (simp add: answer_of_def)
    moreover have "abs_session s' = go (next_seq (abs_session s)) (put_reg 10 v (abs_session s))"
      using advances_answer(2) wf
      by (simp add: abs_session_def abs_engine_def resume_def abs_arch_set_pc abs_arch_set_reg)
    moreover have "environment s' = h'" by (simp add: advances_answer(2))
    ultimately show ?thesis
      using assms(3)
      by (simp add: guest.simps(2) answer_at [OF assms(2)] call_made_abs advances_answer(1) counted_eq)
  qed
qed

lemma lives_in_path:
  "session_path obs handle bps s tr s' \<Longrightarrow> lives_in base n s \<Longrightarrow> lives_in base n s'"
  by (rule session_path_invariant [where P = "lives_in base n"]) (auto intro: lives_in_advances)

lemma guest_path:
  "session_path obs handle bps s tr s' \<Longrightarrow> lives_in base n s \<Longrightarrow>
   guest handle base n bps (length tr + k) (abs_session s) (environment s) =
   map_option (\<lambda>g. foldr counted tr g) (guest handle base n bps k (abs_session s') (environment s'))"
proof (induction rule: session_path.induct)
  case (path_Cons s ev s' tr s'')
  have bp: "xpc (abs_session s) \<notin> set bps" using path_Cons.hyps(1) by (simp add: xpc_abs_session)
  have "lives_in base n s'" using path_Cons.hyps(2) path_Cons.prems by (rule lives_in_advances)
  with guest_advances [OF path_Cons.hyps(2) path_Cons.prems bp, of "length tr + k"] path_Cons.IH
  show ?case by (simp add: option.map_comp comp_def)
qed (simp add: map_option.id)

text \<open>How a result of a session reads as the stop of a guest.\<close>

fun stop_of :: "session_run_result \<Rightarrow> guest_stop" where
  "stop_of (SessionStepLimitReached st) = BudgetUsed"
| "stop_of (SessionBreakpointReached st pc) = AtBreakpoint pc"
| "stop_of (SessionRunExited st call code) = ExitedWith call code"
| "stop_of (SessionRunUnhandledEnvironmentCall st call t) =
     Declined call (trap_program_counter t) (cause t) (trap_value t)"
| "stop_of (SessionRunTrapped st t) = RaisedTrap (trap_program_counter t) (cause t) (trap_value t)"

definition guest_end_of :: "session_run_result \<times> ('o, 'h) session \<Rightarrow> 'h guest_end" where
  "guest_end_of p = (case p of (r, s) \<Rightarrow>
     \<lparr>steps_taken = unat (guest_steps (result_statistics r)),
      retired_count = unat (instructions_retired (result_statistics r)),
      answered_count = unat (environment_calls_handled (result_statistics r)),
      guest_stop = stop_of r, guest_machine = abs_session s, guest_environment = environment s\<rparr>)"

definition is_exit :: "session_run_result \<Rightarrow> bool" where
  "is_exit r \<longleftrightarrow> (\<exists>st call code. r = SessionRunExited st call code)"

text \<open>A step that does not return has made a call on which the handler throws.\<close>

lemma session_step_escapes:
  assumes "session_step obs handle s = None"
  obtains t where "step obs (engine_of s) = Some (StepTrapped t, engine_of s)"
    "cause t = EnvironmentCallFromUserMode" "answer_of handle s = None"
proof (cases obs "engine_of s" rule: step_outcomes)
  case (completed ob e')
  with session_step_completed [OF completed(1)] assms show thesis by simp
next
  case (trapped t)
  with session_step_trap [OF trapped(1), of handle] assms that show thesis
    by (auto split: if_splits option.splits environment_call_result.splits)
qed

lemma guest_stops:
  assumes "session_stops obs handle bps st s res" and "lives_in base n s"
  shows "guest handle base n bps (Suc k) (abs_session s) (environment s) =
    map_option (\<lambda>(r, s'). (if is_exit r then after_call else id)
      (stopping (stop_of r) (abs_session s') (environment s'))) res"
proof -
  have wf: "wf_cpu (state (engine_of s))" using assms(2) by (simp add: lives_in_def)
  have raises: "arch_step (abs_session s) = Except (cause t) (trap_value t)"
    if "step obs (engine_of s) = Some (StepTrapped t, engine_of s)" for t
    using step_refines [OF wf that] by (simp add: abs_session_def)
  note guest = guest.simps(2) [of handle base n bps k "abs_session s" "environment s"]
    xpc_abs_session is_exit_def
  from assms(1) show ?thesis
  proof cases
    case stop_breakpoint
    then show ?thesis by (simp add: guest)
  next
    case (stop_exit call code s')
    from stop_exit(3) obtain t h' where "step obs (engine_of s) = Some (StepTrapped t, engine_of s)"
      "cause t = EnvironmentCallFromUserMode" "answer_of handle s = Some (EnvironmentCallExit code, h')"
      "call = call_of (state (engine_of s))" "s' = s\<lparr>environment := h'\<rparr>"
      by (cases rule: session_step_cases [of obs handle s]) auto
    with stop_exit(1,2) raises show ?thesis
      by (simp add: guest answer_at [OF assms(2)] call_made_abs)
  next
    case (stop_unhandled call t s')
    from stop_unhandled(3) obtain h' where "step obs (engine_of s) = Some (StepTrapped t, engine_of s)"
      "cause t = EnvironmentCallFromUserMode" "answer_of handle s = Some (EnvironmentCallNotHandled, h')"
      "call = call_of (state (engine_of s))" "s' = s\<lparr>environment := h'\<rparr>"
      by (cases rule: session_step_cases [of obs handle s]) auto
    with stop_unhandled(1,2) raises step_trapped(2) [of obs "engine_of s" t] show ?thesis
      by (simp add: guest answer_at [OF assms(2)] call_made_abs)
  next
    case (stop_trap t)
    from stop_trap(3) have "step obs (engine_of s) = Some (StepTrapped t, engine_of s)"
      "cause t \<noteq> EnvironmentCallFromUserMode"
      by (cases rule: session_step_cases [of obs handle s]; simp)+
    with stop_trap(1,2) raises step_trapped(2) [of obs "engine_of s" t] show ?thesis
      by (simp add: guest)
  next
    case stop_escape
    from stop_escape(3) obtain t where "step obs (engine_of s) = Some (StepTrapped t, engine_of s)"
      "cause t = EnvironmentCallFromUserMode" "answer_of handle s = None"
      by (rule session_step_escapes)
    with stop_escape(1,2) raises show ?thesis
      by (simp add: guest answer_at [OF assms(2)] call_made_abs)
  qed
qed

lemma foldr_counted:
  "foldr counted tr g = g\<lparr>steps_taken := steps_taken g + length tr,
     retired_count := retired_count g + length (filter is_retired tr),
     answered_count := answered_count g + length (filter (\<lambda>ev. \<not> is_retired ev) tr)\<rparr>"
proof (induction tr)
  case (Cons ev tr)
  then show ?case by (cases ev) (simp_all add: after_instruction_def after_call_def)
qed simp

text \<open>The whole run.\<close>

lemma session_is_guest:
  assumes "lives_in base n s"
  shows "map_option guest_end_of (session_run obs handle limit bps s) =
    guest handle base n bps (unat limit) (abs_session s) (environment s)"
proof (cases rule: session_run_outcome [of obs handle bps s limit])
  case (limit tr s1)
  then have "length tr \<le> unat limit" by simp
  note st = path_statistics [OF this]
  from guest_path [OF limit(1) assms, of 0] limit(2,3) show ?thesis
    by (simp add: foldr_counted stopping_def guest_end_of_def st)
next
  case (stopped tr s1)
  let ?st = "fold tally tr initial_statistics"
  obtain k where k: "unat limit = length tr + Suc k" using stopped(2) less_iff_Suc_add by auto
  have "length tr \<le> unat limit" using stopped(2) by simp
  note st = path_statistics [OF this]
  have "length (tr @ [Answered undefined 0]) \<le> unat limit" using stopped(2) by simp
  note st' = path_statistics [OF this, simplified]
  have "map_option guest_end_of (session_run obs handle limit bps s) =
    map_option (\<lambda>(r, s'). foldr counted tr ((if is_exit r then after_call else id)
      (stopping (stop_of r) (abs_session s') (environment s')))) (session_run obs handle limit bps s)"
    using stopped(3)
    by cases (auto simp: foldr_counted stopping_def guest_end_of_def is_exit_def after_call_def st st')
  also have "\<dots> = guest handle base n bps (unat limit) (abs_session s) (environment s)"
    unfolding k guest_path [OF stopped(1) assms]
      guest_stops [OF stopped(3) lives_in_path [OF stopped(1) assms]]
    by (simp add: option.map_comp comp_def case_prod_unfold)
  finally show ?thesis .
qed

end
