(* ===== verification/Spec2Isabelle.thy ===== *)
theory Spec2Isabelle
  imports Linux_Process Act_Hooks Benchmark_Driver Session_Spec
begin

text \<open>
  The verification development of the RV32IM emulator.

  \<^bold>\<open>The program.\<close> The emulator loads a 32-bit RISC-V executable, runs it one instruction at
  a time and reports how it ended. \<^verbatim>\<open>CpuState\<close> and \<^verbatim>\<open>Memory\<close> are the machine. \<^verbatim>\<open>ExecutionEngine\<close>
  fetches, decodes and executes one instruction, reports a trap as a value, and tells an observer
  what it retired. \<^verbatim>\<open>ProgramSession\<close> runs the engine under a step limit and a list of breakpoints
  and passes environment calls to a handler; \<^verbatim>\<open>LinuxSyscallEnvironment\<close> is the handler that knows
  write and exit. \<^verbatim>\<open>load_elf32\<close> and \<^verbatim>\<open>initialize_freestanding_stack\<close> prepare the machine. The cache
  model, the branch predictor and the cycle estimator observe the engine, joined in
  \<^verbatim>\<open>PerformanceAnalyzer\<close>. On top of these are the command line, the interactive debugger, the
  runner for self-checking conformance tests and the benchmarks.

  \<^bold>\<open>Theories and code.\<close>
  \<^item> \<open>Prelude\<close>: machine integers as words, the two shapes of failure, and the word facts that the
    components share (collections \<open>mask_simps\<close>, \<open>bit_bounds\<close>).
  \<^item> \<open>Cpu_State\<close> (\<^verbatim>\<open>src/cpu_state.cpp\<close>): the registers as a list of 32 words, x0 never written.
  \<^item> \<open>Byte_Store\<close>: the interface of a memory that is filled byte by byte (locale \<open>byte_store\<close>).
  \<^item> \<open>Memory\<close> (\<^verbatim>\<open>src/memory.cpp\<close>): a region of bytes with a base address; every access checks
    alignment and bounds and gives the exception as a value. It interprets \<open>byte_store\<close>.
  \<^item> \<open>Instruction\<close> (\<^verbatim>\<open>src/instruction.cpp\<close>): decoding. \<open>Alu\<close> and \<open>Execution_Engine\<close>
    (\<^verbatim>\<open>src/execution_engine.cpp\<close>): the helper functions, one step, bounded runs, and the observer
    interface (locales \<open>observer_model\<close>, \<open>counting_observer\<close>, \<open>bounded_observer\<close>, \<open>unit_observer\<close>).
  \<^item> \<open>Isa_Spec\<close>: the architecture, written over mathematical integers and independently of the
    code. \<open>Isa_Refinement\<close>: the engine implements it. \<open>Isa_Observation\<close>: the footprint of an
    architectural step, which is where it is fetched, what data it accesses and how it transfers
    control; what the engine tells its observer are the footprints of the steps.
  \<^item> \<open>Program_Session\<close> (\<^verbatim>\<open>src/program_session.cpp\<close>): steps and runs of a session, the paths they
    execute, and what they ask of a handler (locales \<open>noexcept_handler\<close>,
    \<open>environment_handler\<close>). \<open>Linux_Syscalls\<close> (\<^verbatim>\<open>src/linux_syscalls.cpp\<close>) interprets them.
    \<open>Session_Spec\<close>: a guest of the architecture under any handler and breakpoints, as an interpreter
    that counts in natural numbers; a run of a session computes it.
  \<^item> \<open>Elf_Loader\<close> (\<^verbatim>\<open>src/elf_loader.cpp\<close>) and \<open>Stack_Init\<close> (\<^verbatim>\<open>src/stack.cpp\<close>). \<open>Elf_Spec\<close>: the
    executables of the file format and their process image in numbers, independent of the code;
    the loader decides and implements it.
  \<^item> \<open>Cache_Model\<close>, \<open>Branch_Predictor\<close>, \<open>Cycle_Estimator\<close>, \<open>Performance_Analyzer\<close> (the files of
    the same names under \<^verbatim>\<open>src/\<close>); the first two and the last interpret the observer interface.
    \<open>Cache_Model\<close> also states the blocks of a cache and their recency without tags and lines.
    \<open>Performance_Report\<close>: the behaviour of a least recently used cache and of a branch predictor
    as functions of a history, without the code's tables and lines, and the report of an
    execution as counts over its footprints; the analyzer computes that report.
  \<^item> \<open>Text_Format\<close> and \<open>Debugger\<close> (\<^verbatim>\<open>app/rvemu_debugger.cpp\<close>): number syntax, and the debugger's
    commands as functions from a line of input to the next state and the output.
  \<^item> \<open>Cli\<close> (\<^verbatim>\<open>app/rvemu_cli.cpp\<close>, \<^verbatim>\<open>app/rvemu_main.cpp\<close>): options, loading and running a program,
    reports and exit statuses.
  \<^item> \<open>Linux_Boot\<close>: which executables fit a memory configuration, and the architectural machine
    they start on. \<open>Linux_Process\<close>: a Linux process as an interpreter over the machine of
    \<open>Isa_Spec\<close>. Both are independent of the code; the session, the debugger and the command-line
    program, from the bytes of the file to the status of the host process, compute them.
  \<^item> \<open>Act_Smoke\<close> (\<^verbatim>\<open>tools/act_smoke.cpp\<close>, \<^verbatim>\<open>tools/act_smoke_main.cpp\<close>): the conformance runner.
    \<open>Act_Hooks\<close> (\<^verbatim>\<open>conformance/act4/rvmodel_macros.h\<close>): the hooks with which a test reports its
    verdict, over any assembler (locale \<open>assembler\<close>) and over the encoders of the benchmarks.
  \<^item> \<open>Benchmark_Workload\<close> and \<open>Benchmark_Driver\<close> (\<^verbatim>\<open>benchmarks/benchmark_workload.cpp\<close>,
    \<^verbatim>\<open>benchmarks/rvemu_benchmarks.cpp\<close>): the instruction encoders, the guest programs, the
    measuring loop and its counters, in the double precision of \<open>Binary64\<close>.
  \<^item> This theory: properties that span the session, the architecture and the debugger.

  \<^bold>\<open>Conventions.\<close> Classes and structs are records, enumerations and variants are datatypes,
  integers are words of the width of the code; \<^verbatim>\<open>std::size_t\<close> is 64 bits where it can wrap and a
  natural number where it is a length. Exceptions that carry a value are the left side of a sum.
  An outer \<open>option\<close> is \<open>None\<close> for an exception or an out-of-range access that the code has no
  answer to; the theorems named \<open>*_total\<close> and \<open>*_returns\<close> show where it cannot happen. A
  C++ reference that is mutated is a state passed in and returned.

  \<^bold>\<open>Loops and bounds.\<close> No definition uses fuel. Bounded loops are structural recursions over the
  remaining budget or over the list they walk; the engine's run and the session's loop are
  functions whose measure is the limit minus the steps taken, so that they end for every limit
  of 64 bits.

  \<^bold>\<open>What the lemmas show.\<close> The engine's step and runs are the architecture's
  (\<open>step_implements_isa\<close>, \<open>run_implements_isa\<close>, \<open>session_implements_isa\<close>); traps are precise and a
  retired instruction changes only what its observation names. Memory accesses round-trip and
  fail exactly as documented. Sessions follow paths of steps, account for them, stop at
  breakpoints, and from a well-formed machine never fail inside the emulator and keep it well
  formed. An observer is told the footprints of the architecture in order
  (\<open>observations_implement_isa\<close>), so that the performance report is a function of the architectural
  execution alone (\<open>report_implements_isa\<close>). The loader accepts exactly the executables of the
  format and builds their process image, or changes nothing (\<open>load_elf32_implements_format\<close>), and
  a program that runs was booted from it. The cache hits exactly the recent blocks of each set
  and whenever one with fewer ways does, the predictor refines a
  table of saturating counters, the estimate is exact or refused, and the analyzer counts each
  retired instruction once. The debugger never changes what the guest does, the command line
  always returns with a documented status and computes a Linux process over the architecture, from
  the machine that the file determines (\<open>main_runs_process\<close>: same exit code, same output, same
  fate; \<open>main_debugs_process\<close>: so does the debugger, up to where the user leaves), the
  conformance runner's verdict is that of a reference interpreter and the one its hooks ask for,
  and every benchmark iteration completes, measures the same, namely the report of 65536 steps of
  the architecture (\<open>benchmark_reproducible\<close>), and reports counters in range.

  \<^bold>\<open>Parameters.\<close> The host is a parameter: the answers of file operations and allocation, the
  lines of input, the sink that takes the guest's output and may fail, the files of the test
  runner, and the number of iterations that the benchmark library asks for. What is proved holds
  for all of them; the only laws that are assumed are those of the locales, which are proved of
  the model's own definitions.

  \<^bold>\<open>Not modelled.\<close> Under \<^verbatim>\<open>conformance\<close> the empty macros, the header
  \<^verbatim>\<open>riscv_arch_test.h\<close> and the scripts, which adapt an external test suite; running out
  of host memory anywhere but in the command line, where it is a parameter; what the benchmark
  library does with timers and counters; getters that return a member; the range limits of doubles, which no counter reaches; the buffering of
  C++ streams beyond the text that is written; the catch clauses of \<^verbatim>\<open>main\<close>, since the
  model has no exception that reaches them; tests and build files.
\<close>

section \<open>Sessions over the architecture\<close>

text \<open>
  C3: a session implements the architecture with an environment. From a well-formed machine every
  bounded run, under any handler and any breakpoints, is the run of the guest that the theory
  \<open>Session_Spec\<close> defines over the architecture: it throws exactly when the handler does; otherwise it stops for
  the same reason, in the same machine, with the handler in the same state after the same calls
  and answers, and its three counters are the steps taken, the instructions retired and the calls
  answered, as natural numbers.
\<close>

theorem session_implements_isa:
  assumes "wf_cpu (state (engine_of s))" and "wf_memory (memory_of (engine_of s))"
  shows "map_option guest_end_of (session_run obs handle limit bps s) =
    guest handle (base_address (memory_of (engine_of s))) (length (bytes (memory_of (engine_of s))))
      bps (unat limit) (abs_engine (engine_of s)) (environment s)"
  using assms by (fold abs_session_def) (intro session_is_guest, simp add: lives_in_def)

lemma session_implements_isa_witness:
  "\<exists>r s'. session_run None sample_handler 3 [] (sample_session 0 ()) = Some (r, s') \<and>
     unat (environment_calls_handled (result_statistics r)) = 1 \<and>
     guest sample_handler 0 (length (bytes (memory_of (engine_of (sample_session 0 ()))))) [] 3
       (abs_engine (engine_of (sample_session 0 ()))) () = Some (guest_end_of (r, s'))"
proof -
  let ?s = "sample_session 0 ()"
  have "case session_run None sample_handler 3 [] ?s of
    Some (r, _) \<Rightarrow> unat (environment_calls_handled (result_statistics r)) = 1 | _ \<Rightarrow> False"
    by code_simp
  then obtain r s' where run: "session_run None sample_handler 3 [] ?s = Some (r, s')"
    "unat (environment_calls_handled (result_statistics r)) = 1"
    by (auto split: option.splits)
  have wf: "wf_cpu (state (engine_of ?s))" "wf_memory (memory_of (engine_of ?s))"
    by (simp_all add: sample_session_def sample_engine_def wf_sample_memory)
  have e: "base_address (memory_of (engine_of ?s)) = 0"
    by (simp add: sample_session_def sample_engine_def sample_memory_def)
  from session_implements_isa [OF wf, of None sample_handler 3 "[]"] run show ?thesis
    by (simp add: e)
qed

section \<open>The debugger under the Linux environment\<close>

text \<open>
  C40: an interactive session always comes to an end. For every sequence of input lines the
  debugger of a Linux guest returns, after a path of the guest within the budget: because the
  user left or the input ended, because the budget is used up, or because the guest stopped.
\<close>

theorem debugger_returns:
  "\<exists>res d'. debugger_run obs (linux_handler sink) input_lines (make_debugger s limit) =
      Some (res, d') \<and>
    finishes obs (linux_handler sink) (make_debugger s limit) res d' \<and>
    (\<forall>st call t. res \<noteq> DebuggerStopped (SessionRunUnhandledEnvironmentCall st call t))"
proof -
  obtain res d' where
    run: "debugger_run obs (linux_handler sink) input_lines (make_debugger s limit) = Some (res, d')"
    and ends: "finishes obs (linux_handler sink) (make_debugger s limit) res d'"
    by (rule linux_debugger_returns)
  have "debugger_statistics (make_debugger s limit) = initial_statistics"
    by (simp add: make_debugger_def)
  from terminal_of_finishes [OF ends this] show ?thesis
    using run ends by (auto simp: terminal_def)
qed

end
